(* ===== verification/Prelude.thy ===== *)
theory Prelude
  imports Main "HOL-Library.Word" "HOL-Library.Multiset"
begin

text \<open>
  What every component shares: C integers, the world a C function runs in, the result of a
  fallible function, the two ways in which the code reacts to an error (return at once, or
  go to a clean-up label) and the rules that let the simplifier run through such code.
\<close>

named_theorems run_simps "equations that execute the model's C functions symbolically"

section \<open>C integers\<close>

text \<open>
  A C \<open>int\<close> is an integer; the places where the source narrows a wider value to \<open>int\<close>
  apply \<open>int32\<close>, the two's complement conversion of every compiler the build supports.
\<close>

definition int32 :: "int \<Rightarrow> int" where
  "int32 i = signed_take_bit 31 i"

definition in_int32 :: "int \<Rightarrow> bool" where
  "in_int32 i \<longleftrightarrow> - (2 ^ 31) \<le> i \<and> i < 2 ^ 31"

definition in_int64 :: "int \<Rightarrow> bool" where
  "in_int64 i \<longleftrightarrow> - (2 ^ 63) \<le> i \<and> i < 2 ^ 63"

lemma int32_id: "in_int32 i \<Longrightarrow> int32 i = i"
  by (simp add: int32_def in_int32_def signed_take_bit_int_eq_self)

lemma in_int32_int32: "in_int32 (int32 i)"
  using signed_take_bit_int_greater_eq_minus_exp [of 31 i] signed_take_bit_int_less_exp [of 31 i]
  by (simp add: int32_def in_int32_def)

lemma in_int64_of_int32: "in_int32 i \<Longrightarrow> in_int64 i"
  by (simp add: in_int32_def in_int64_def)

section \<open>The world\<close>

text \<open>
  A resource is something that must be given back exactly once: a heap block (named after
  what it holds), a descriptor, a library object, or a child process.
\<close>

datatype resource =
    Mem string
  | Desc int
  | Lib string
  | Child int

text \<open>
  What a run leaves behind, in order: resources taken and given back, ownership handed over
  to another object, bytes accepted by a socket, and steps that C leaves undefined (a null
  or dangling pointer followed, a read past the end of a buffer). Undefined steps are
  recorded, so that a theorem can say there are none.
\<close>

datatype event =
    Acquire resource
  | Release resource
  | Give resource
  | Sent int "char list"
  | Note string
  | Undefined string

text \<open>
  The environment answers each fallible library or system call, in call order, from the
  list \<open>answers\<close>; an exhausted list answers 0, that is, success. The model's theorems
  quantify over all answer lists, so they cover every combination of failures. \<open>rx fd\<close> is
  what the peer will still send on a descriptor before it closes the connection, and
  \<open>rpc_id\<close> is the program's one static counter (\<open>jsonrpc_id_counter\<close>).
\<close>

record world =
  answers :: "int list"
  trace :: "event list"
  rx :: "int \<Rightarrow> char list"
  rpc_id :: int

type_synonym ('s, 'a) cfun = "'s \<Rightarrow> (int + 'a) \<times> 's"

definition emit :: "event \<Rightarrow> 'z world_scheme \<Rightarrow> 'z world_scheme" where
  "emit e w = w\<lparr>trace := trace w @ [e]\<rparr>"

definition answer :: "'z world_scheme \<Rightarrow> int" where
  "answer w = (case answers w of [] \<Rightarrow> 0 | a # _ \<Rightarrow> a)"

definition used :: "'z world_scheme \<Rightarrow> 'z world_scheme" where
  "used w = w\<lparr>answers := tl (answers w)\<rparr>"

abbreviation release :: "resource \<Rightarrow> 'z world_scheme \<Rightarrow> 'z world_scheme" where
  "release r \<equiv> emit (Release r)"

abbreviation undefined_behaviour :: "string \<Rightarrow> 'z world_scheme \<Rightarrow> 'z world_scheme" where
  "undefined_behaviour what \<equiv> emit (Undefined what)"

section \<open>Library calls that can fail\<close>

text \<open>
  \<open>alloc\<close> is \<open>malloc\<close>, \<open>calloc\<close>, \<open>strdup\<close> and the constructors of libraries that return a
  null pointer: the C code turns null into -1. \<open>sys\<close> is a system call that returns a
  negative number on failure and otherwise its value. \<open>lib\<close> is a call of a library that
  returns 0 or a positive error number (pthread, SQLite), which the code negates
  (\<open>pthread_errno\<close>, \<open>sqlite_errno\<close>).
\<close>

definition alloc :: "resource \<Rightarrow> ('z world_scheme, unit) cfun" where
  "alloc r w = (if answer w < 0 then (Inl (-1), used w) else (Inr (), emit (Acquire r) (used w)))"

definition sys :: "('z world_scheme, int) cfun" where
  "sys w = (if answer w < 0 then (Inl (answer w), used w) else (Inr (answer w), used w))"

definition lib :: "('z world_scheme, unit) cfun" where
  "lib w = (if 0 < answer w then (Inl (- answer w), used w) else (Inr (), used w))"

text \<open>A call that returns a pointer into an object it owns, or null.\<close>

definition nonnull :: "('z world_scheme, unit) cfun" where
  "nonnull w = (if answer w < 0 then (Inl (-1), used w) else (Inr (), used w))"

section \<open>Sequencing\<close>

text \<open>
  \<open>ok\<close> is \<open>return\<close> of a success value; \<open>bindE f g\<close> is \<open>ret = f(); if (ret < 0) return ret;\<close>
  followed by \<open>g\<close>; \<open>onErr f c\<close> is \<open>ret = f(); if (ret < 0) goto label;\<close> where \<open>c\<close> is the
  code at the label, after which the error is returned. Nested \<open>onErr\<close> is the chain of
  labels a C function falls through, innermost first. \<open>after f c\<close> runs \<open>c\<close> on success and
  on failure (a label that both paths reach), and \<open>andThen\<close> runs a void function first.
\<close>

definition ok :: "'a \<Rightarrow> ('s, 'a) cfun" where
  "ok x s = (Inr x, s)"

definition failing :: "int \<Rightarrow> ('s, 'a) cfun" where
  "failing e s = (Inl e, s)"

definition bindE :: "('s, 'a) cfun \<Rightarrow> ('a \<Rightarrow> ('s, 'b) cfun) \<Rightarrow> ('s, 'b) cfun" where
  "bindE f g s = (case f s of (Inl e, t) \<Rightarrow> (Inl e, t) | (Inr x, t) \<Rightarrow> g x t)"

definition onErr :: "('s, 'a) cfun \<Rightarrow> ('s \<Rightarrow> 's) \<Rightarrow> ('s, 'a) cfun" where
  "onErr f c s = (case f s of (Inl e, t) \<Rightarrow> (Inl e, c t) | (Inr x, t) \<Rightarrow> (Inr x, t))"

definition after :: "('s, 'a) cfun \<Rightarrow> ('s \<Rightarrow> 's) \<Rightarrow> ('s, 'a) cfun" where
  "after f c s = (case f s of (r, t) \<Rightarrow> (r, c t))"

definition andThen :: "('s \<Rightarrow> 's) \<Rightarrow> ('s, 'a) cfun \<Rightarrow> ('s, 'a) cfun" where
  "andThen c f s = f (c s)"

definition pureE :: "int + 'a \<Rightarrow> ('s, 'a) cfun" where
  "pureE r s = (r, s)"

lemma bindE_run:
  "f w = (Inr x, u) \<Longrightarrow> bindE f g w = g x u" "f w = (Inl e, u) \<Longrightarrow> bindE f g w = (Inl e, u)"
  by (simp_all add: bindE_def)

definition is_ok :: "int + 'a \<Rightarrow> bool" where
  "is_ok r \<longleftrightarrow> (case r of Inl _ \<Rightarrow> False | Inr _ \<Rightarrow> True)"

lemma is_ok_simps [simp]: "is_ok (Inr x)" "\<not> is_ok (Inl e)"
  by (simp_all add: is_ok_def)

section \<open>Weakest preconditions\<close>

definition wp :: "('s \<Rightarrow> 'r \<times> 's) \<Rightarrow> ('r \<Rightarrow> 's \<Rightarrow> bool) \<Rightarrow> 's \<Rightarrow> bool" where
  "wp f Q s \<longleftrightarrow> (case f s of (r, t) \<Rightarrow> Q r t)"

lemma wp_ok [run_simps]: "wp (ok x) Q s = Q (Inr x) s"
  by (simp add: wp_def ok_def)

lemma wp_failing [run_simps]: "wp (failing e) Q s = Q (Inl e) s"
  by (simp add: wp_def failing_def)

lemma wp_bindE [run_simps]:
  "wp (bindE f g) Q s = wp f (\<lambda>r t. case r of Inl e \<Rightarrow> Q (Inl e) t | Inr x \<Rightarrow> wp (g x) Q t) s"
  by (auto simp: wp_def bindE_def split: prod.splits sum.splits)

lemma wp_onErr [run_simps]:
  "wp (onErr f c) Q s = wp f (\<lambda>r t. case r of Inl e \<Rightarrow> Q (Inl e) (c t) | Inr x \<Rightarrow> Q (Inr x) t) s"
  by (auto simp: wp_def onErr_def split: prod.splits sum.splits)

lemma wp_after [run_simps]: "wp (after f c) Q s = wp f (\<lambda>r t. Q r (c t)) s"
  by (auto simp: wp_def after_def split: prod.splits)

lemma wp_andThen [run_simps]: "wp (andThen c f) Q s = wp f Q (c s)"
  by (simp add: wp_def andThen_def)

lemma wp_pureE [run_simps]: "wp (pureE r) Q s = Q r s"
  by (simp add: wp_def pureE_def)

lemma wp_if [run_simps]: "wp (if b then f else g) Q s = (if b then wp f Q s else wp g Q s)"
  by simp

lemma wp_alloc [run_simps]:
  "wp (alloc r) Q w =
     (if answer w < 0 then Q (Inl (-1)) (used w) else Q (Inr ()) (emit (Acquire r) (used w)))"
  by (simp add: wp_def alloc_def)

lemma wp_sys [run_simps]:
  "wp sys Q w = (if answer w < 0 then Q (Inl (answer w)) (used w) else Q (Inr (answer w)) (used w))"
  by (simp add: wp_def sys_def)

lemma wp_lib [run_simps]:
  "wp lib Q w = (if 0 < answer w then Q (Inl (- answer w)) (used w) else Q (Inr ()) (used w))"
  by (simp add: wp_def lib_def)

lemma wp_nonnull [run_simps]:
  "wp nonnull Q w = (if answer w < 0 then Q (Inl (-1)) (used w) else Q (Inr ()) (used w))"
  by (simp add: wp_def nonnull_def)

text \<open>
  A two-state specification: \<open>meets f R\<close> says that every run of \<open>f\<close> relates the start
  state to the result and the final state by \<open>R\<close>.
\<close>

definition meets :: "('s \<Rightarrow> 'r \<times> 's) \<Rightarrow> ('s \<Rightarrow> 'r \<Rightarrow> 's \<Rightarrow> bool) \<Rightarrow> bool" where
  "meets f R \<longleftrightarrow> (\<forall>s. wp f (R s) s)"

lemma meetsI: "(\<And>s. wp f (R s) s) \<Longrightarrow> meets f R"
  by (simp add: meets_def)

lemma meetsD: "meets f R \<Longrightarrow> f s = (r, t) \<Longrightarrow> R s r t"
  by (auto simp: meets_def wp_def dest: spec [of _ s])

lemma meets_use: "meets f R \<Longrightarrow> (\<And>r t. R s r t \<Longrightarrow> Q r t) \<Longrightarrow> wp f Q s"
  by (auto simp: meets_def wp_def dest: spec [of _ s])

lemma wpD: "wp f Q s \<Longrightarrow> f s = (r, t) \<Longrightarrow> Q r t"
  by (simp add: wp_def)

lemma wpI: "(\<And>r t. f s = (r, t) \<Longrightarrow> Q r t) \<Longrightarrow> wp f Q s"
  by (auto simp: wp_def)

section \<open>Reading a trace\<close>

text \<open>
  \<open>bal es r\<close> is how many times \<open>r\<close> was taken more often than given back; \<open>undef es\<close> lists
  the undefined steps; \<open>sent fd es\<close> is the byte stream a socket accepted; \<open>noted es\<close> lists the
  notes. All are homomorphisms, so the simplifier computes them through any run.
\<close>

fun weight :: "event \<Rightarrow> resource \<Rightarrow> int" where
  "weight (Acquire r) q = (if r = q then 1 else 0)"
| "weight (Release r) q = (if r = q then -1 else 0)"
| "weight (Give r) q = (if r = q then -1 else 0)"
| "weight _ q = 0"

definition bal :: "event list \<Rightarrow> resource \<Rightarrow> int" where
  "bal es r = sum_list (map (\<lambda>e. weight e r) es)"

fun undef :: "event list \<Rightarrow> string list" where
  "undef [] = []"
| "undef (Undefined s # es) = s # undef es"
| "undef (_ # es) = undef es"

fun sent :: "int \<Rightarrow> event list \<Rightarrow> char list" where
  "sent fd [] = []"
| "sent fd (Sent d bs # es) = (if d = fd then bs @ sent fd es else sent fd es)"
| "sent fd (_ # es) = sent fd es"

fun noted :: "event list \<Rightarrow> string list" where
  "noted [] = []"
| "noted (Note s # es) = s # noted es"
| "noted (_ # es) = noted es"

lemma bal_simps [simp]: "bal [] r = 0" "bal (es @ [e]) r = bal es r + weight e r"
  "bal (es @ fs) r = bal es r + bal fs r" "bal (e # es) r = weight e r + bal es r"
  by (simp_all add: bal_def)

lemma undef_append [simp]: "undef (es @ fs) = undef es @ undef fs"
  by (induction es rule: undef.induct) auto

lemma sent_append [simp]: "sent fd (es @ fs) = sent fd es @ sent fd fs"
  by (induction fd es rule: sent.induct) auto

lemma noted_append [simp]: "noted (es @ fs) = noted es @ noted fs"
  by (induction es rule: noted.induct) auto

lemma trace_simps [simp]:
  "trace (emit e w) = trace w @ [e]" "trace (used w) = trace w"
  "rx (emit e w) = rx w" "rx (used w) = rx w"
  "rpc_id (emit e w) = rpc_id w" "rpc_id (used w) = rpc_id w"
  "world.more (emit e w) = world.more w" "world.more (used w) = world.more w"
  "answers (emit e w) = answers w" "answers (used w) = tl (answers w)"
  by (simp_all add: emit_def used_def)

text \<open>
  \<open>takes w t rs\<close>: a run from \<open>w\<close> to \<open>t\<close> did not touch the state of the component on top of
  the world, took no undefined step, and in balance took exactly the resources \<open>rs\<close>. With
  \<open>rs = []\<close> it leaks nothing and gives nothing back twice. \<open>reliable w\<close>: no system call or
  allocation will fail (short reads and writes are still possible).
\<close>

definition reliable :: "'z world_scheme \<Rightarrow> bool" where
  "reliable w \<longleftrightarrow> (\<forall>a \<in> set (answers w). 0 \<le> a)"

text \<open>\<open>lucky w\<close>: every answer is 0, so no call of any kind fails.\<close>

definition lucky :: "'z world_scheme \<Rightarrow> bool" where
  "lucky w \<longleftrightarrow> set (answers w) \<subseteq> {0}"

definition takes :: "'z world_scheme \<Rightarrow> 'z world_scheme \<Rightarrow> resource list \<Rightarrow> bool" where
  "takes w t rs \<longleftrightarrow>
     world.more t = world.more w \<and> undef (trace t) = undef (trace w) \<and>
     (\<forall>q. bal (trace t) q = bal (trace w) q + int (count_list rs q)) \<and>
     (reliable w \<longrightarrow> reliable t) \<and> (lucky w \<longrightarrow> lucky t)"

abbreviation calm :: "'z world_scheme \<Rightarrow> 'z world_scheme \<Rightarrow> bool" where
  "calm w t \<equiv> takes w t []"

lemma reliable_simps [simp]:
  "reliable (emit e w) = reliable w" "reliable w \<Longrightarrow> reliable (used w)"
  "reliable (w\<lparr>rx := f\<rparr>) = reliable w" "reliable (w\<lparr>rpc_id := i\<rparr>) = reliable w"
  by (auto simp: reliable_def emit_def used_def dest: list.set_sel(2) [rotated])
    (metis list.sel(2) list.set_sel(2))

lemma lucky_simps [simp]:
  "lucky (emit e w) = lucky w" "lucky w \<Longrightarrow> lucky (used w)"
  "lucky (w\<lparr>rx := f\<rparr>) = lucky w" "lucky (w\<lparr>rpc_id := i\<rparr>) = lucky w"
  by (auto simp: lucky_def emit_def used_def dest: list.set_sel(2) [rotated])
    (metis emptyE insertE list.sel(2) list.set_sel(2) subsetD)

lemma lucky_answer [simp]: "lucky w \<Longrightarrow> answer w = 0"
  by (cases "answers w") (auto simp: lucky_def answer_def)

lemma lucky_reliable: "lucky w \<Longrightarrow> reliable w"
  by (auto simp: lucky_def reliable_def)

lemma reliable_answer [simp]: "reliable w \<Longrightarrow> \<not> answer w < 0"
  by (cases "answers w") (auto simp: reliable_def answer_def)

lemma int_count_minus: "r \<in> set rs \<Longrightarrow> int (count_list rs r - Suc 0) = int (count_list rs r) - 1"
  by (cases "count_list rs r") (auto simp: count_list_0_iff)

lemma calm_refl [simp]: "calm w w"
  by (simp add: takes_def)

lemma takes_trans: "takes w u rs \<Longrightarrow> takes u t qs \<Longrightarrow> takes w t (rs @ qs)"
  by (simp add: takes_def)

lemma calm_trans: "takes w u rs \<Longrightarrow> calm u t \<Longrightarrow> takes w t rs"
  by (simp add: takes_def)

lemma takes_calm: "calm w u \<Longrightarrow> takes u t rs \<Longrightarrow> takes w t rs"
  by (simp add: takes_def)

lemma takes_used [simp]: "takes w u rs \<Longrightarrow> takes w (used u) rs"
  by (simp add: takes_def)

lemma takes_emit:
  "takes w u rs \<Longrightarrow> takes w (emit (Acquire r) u) (rs @ [r])"
  "takes w u rs \<Longrightarrow> r \<in> set rs \<Longrightarrow> takes w (emit (Release r) u) (remove1 r rs)"
  "takes w u rs \<Longrightarrow> r \<in> set rs \<Longrightarrow> takes w (emit (Give r) u) (remove1 r rs)"
  "takes w u rs \<Longrightarrow> takes w (emit (Sent d bs) u) rs"
  "takes w u rs \<Longrightarrow> takes w (emit (Note m) u) rs"
  by (auto simp: takes_def count_list_remove1 int_count_minus)

lemma takes_mset: "takes w t rs \<Longrightarrow> mset rs = mset qs \<Longrightarrow> takes w t qs"
  by (metis takes_def count_mset)

lemma takesD:
  assumes "takes w t rs"
  shows "world.more t = world.more w" "undef (trace t) = undef (trace w)"
    "bal (trace t) q = bal (trace w) q + int (count_list rs q)" "reliable w \<Longrightarrow> reliable t" "lucky w \<Longrightarrow> lucky t"
  using assms by (simp_all add: takes_def)

section \<open>Functions that build a value\<close>

text \<open>
  \<open>still w t\<close>: nothing was read, sent or counted. \<open>yields f cs rs x\<close> is the contract of the
  code's constructors: \<open>f\<close> either fails with a negative number, because some call in it
  failed, and then everything it took is given back; or it returns \<open>x\<close>, holding the resources
  \<open>rs\<close> in exchange for \<open>cs\<close>. The rules below prove it along the code: a label that releases
  what the step before it took is the side condition of \<open>yields_bind_onErr\<close>.
\<close>

definition still :: "'z world_scheme \<Rightarrow> 'z world_scheme \<Rightarrow> bool" where
  "still w t \<longleftrightarrow> rx t = rx w \<and> rpc_id t = rpc_id w \<and> (\<forall>d. sent d (trace t) = sent d (trace w))"

definition swaps ::
  "'z world_scheme \<Rightarrow> 'z world_scheme \<Rightarrow> resource list \<Rightarrow> resource list \<Rightarrow> bool" where
  "swaps w t cs rs \<longleftrightarrow>
     world.more t = world.more w \<and> undef (trace t) = undef (trace w) \<and>
     (\<forall>q. bal (trace t) q + int (count_list cs q) = bal (trace w) q + int (count_list rs q)) \<and>
     (reliable w \<longrightarrow> reliable t) \<and> (lucky w \<longrightarrow> lucky t)"

fun outcome ::
  "resource list \<Rightarrow> resource list \<Rightarrow> 'a \<Rightarrow> 'z world_scheme \<Rightarrow> int + 'a \<Rightarrow> 'z world_scheme \<Rightarrow> bool" where
  "outcome cs rs x w (Inl e) t \<longleftrightarrow> still w t \<and> e < 0 \<and> calm w t \<and> \<not> reliable w"
| "outcome cs rs x w (Inr y) t \<longleftrightarrow> still w t \<and> y = x \<and> swaps w t cs rs"

definition yields ::
  "('z world_scheme, 'a) cfun \<Rightarrow> resource list \<Rightarrow> resource list \<Rightarrow> 'a \<Rightarrow> bool" where
  "yields f cs rs x \<longleftrightarrow> (\<forall>w r t. f w = (r, t) \<longrightarrow> outcome cs rs x w r t)"

lemma swaps_takes: "swaps w t [] rs = takes w t rs"
  by (simp add: swaps_def takes_def)

lemma still_refl [simp]: "still w w"
  by (simp add: still_def)

lemma still_trans: "still w u \<Longrightarrow> still u t \<Longrightarrow> still w t"
  by (simp add: still_def)

lemma yieldsI: "(\<And>w r t. f w = (r, t) \<Longrightarrow> outcome cs rs x w r t) \<Longrightarrow> yields f cs rs x"
  by (simp add: yields_def)

lemma yieldsD: "yields f cs rs x \<Longrightarrow> f w = (r, t) \<Longrightarrow> outcome cs rs x w r t"
  by (simp add: yields_def)

lemma yields_meets:
  assumes "yields f [] rs x"
  shows "meets f (\<lambda>w r t. still w t \<and> (reliable w \<longrightarrow> is_ok r) \<and>
     takes w t (if is_ok r then rs else []) \<and> (case r of Inl e \<Rightarrow> e < 0 | Inr y \<Rightarrow> y = x))"
proof (rule meetsI, rule wpI)
  fix w r t
  assume "f w = (r, t)"
  with yieldsD [OF assms this] show "still w t \<and> (reliable w \<longrightarrow> is_ok r) \<and>
     takes w t (if is_ok r then rs else []) \<and> (case r of Inl e \<Rightarrow> e < 0 | Inr y \<Rightarrow> y = x)"
    by (cases r) (simp_all add: swaps_takes)
qed

lemma outcome_after_calm:
  "calm w u \<Longrightarrow> still w u \<Longrightarrow> outcome cs rs x u r t \<Longrightarrow> outcome cs rs x w r t"
  by (cases r) (auto simp: swaps_def takes_def still_def)

lemma yields_ok: "yields (ok x) [] [] x"
  by (auto simp: yields_def ok_def swaps_takes)

lemma yields_alloc: "yields (alloc r) [] [r] ()"
  by (auto simp: yields_def alloc_def swaps_takes still_def takes_def)

lemma yields_nonnull: "yields nonnull [] [] ()"
  by (auto simp: yields_def nonnull_def swaps_takes still_def takes_def)

lemma yields_sys:
  assumes "\<And>a. yields (g a) cs rs x"
  shows "yields (bindE sys g) cs rs x"
proof (rule yieldsI)
  fix w r t
  assume run: "bindE sys g w = (r, t)"
  show "outcome cs rs x w r t"
  proof (cases "answer w < 0")
    case True
    with run show ?thesis by (auto simp: bindE_def sys_def still_def)
  next
    case False
    with run have "g (answer w) (used w) = (r, t)" by (simp add: bindE_def sys_def)
    from yieldsD [OF assms this] show ?thesis
      by (rule outcome_after_calm [rotated 2]) (simp_all add: still_def)
  qed
qed

lemma yields_bind:
  assumes f: "yields f [] [] x" and g: "yields (g x) cs rs y"
  shows "yields (bindE f g) cs rs y"
proof (rule yieldsI)
  fix w r t
  assume run: "bindE f g w = (r, t)"
  obtain a u where fu: "f w = (a, u)" by (cases "f w")
  show "outcome cs rs y w r t"
  proof (cases a)
    case (Inl e)
    with run fu yieldsD [OF f fu] show ?thesis by (auto simp: bindE_def)
  next
    case (Inr b)
    with yieldsD [OF f fu] have u: "b = x" "calm w u" "still w u" by (auto simp: swaps_takes)
    with run fu Inr have "g x u = (r, t)" by (simp add: bindE_def)
    from outcome_after_calm [OF u(2,3) yieldsD [OF g this]] show ?thesis .
  qed
qed

definition gives_back :: "('z world_scheme \<Rightarrow> 'z world_scheme) \<Rightarrow> resource list \<Rightarrow> bool" where
  "gives_back c rs \<longleftrightarrow> (\<forall>w. swaps w (c w) rs [] \<and> still w (c w))"

lemma gives_backD:
  "gives_back c rs \<Longrightarrow> swaps w (c w) rs []" "gives_back c rs \<Longrightarrow> still w (c w)"
  by (simp_all add: gives_back_def)

lemma gives_back_release [simp]: "gives_back (release r) [r]"
  by (simp add: gives_back_def swaps_def still_def)

lemma outcome_onErr:
  assumes u: "takes w u qs" "still w u" and g: "outcome cs rs y u d v" and c: "gives_back c qs"
  shows "outcome cs (qs @ rs) y w d (case d of Inl _ \<Rightarrow> c v | Inr _ \<Rightarrow> v)"
proof (cases d)
  case (Inl e)
  with g u gives_backD [OF c, of v] show ?thesis
    by (auto simp: takes_def swaps_def still_def)
next
  case (Inr z)
  with g u show ?thesis
    by (auto simp: takes_def swaps_def still_def)
qed

lemma yields_bind_onErr:
  assumes f: "yields f [] qs x" and g: "yields (g x) cs rs y" and c: "gives_back (c x) qs"
  shows "yields (bindE f (\<lambda>z. onErr (g z) (c z))) cs (qs @ rs) y"
proof (rule yieldsI)
  fix w r t
  assume run: "bindE f (\<lambda>z. onErr (g z) (c z)) w = (r, t)"
  obtain a u where fu: "f w = (a, u)" by (cases "f w")
  show "outcome cs (qs @ rs) y w r t"
  proof (cases a)
    case (Inl e)
    with run fu yieldsD [OF f fu] show ?thesis by (auto simp: bindE_def)
  next
    case (Inr b)
    with yieldsD [OF f fu] have u: "b = x" "takes w u qs" "still w u" by (auto simp: swaps_takes)
    obtain d v where gu: "g x u = (d, v)" by (cases "g x u")
    have "r = d" "t = (case d of Inl _ \<Rightarrow> c x v | Inr _ \<Rightarrow> v)"
      using run fu Inr u(1) gu by (auto simp: bindE_def onErr_def split: sum.splits)
    with outcome_onErr [OF u(2,3) yieldsD [OF g gu] c] show ?thesis by simp
  qed
qed

lemma yields_then_ok:
  assumes f: "yields f cs rs x"
  shows "yields (bindE f (\<lambda>z. ok (h z))) cs rs (h x)"
proof (rule yieldsI)
  fix w r t
  assume run: "bindE f (\<lambda>z. ok (h z)) w = (r, t)"
  obtain a u where fu: "f w = (a, u)" by (cases "f w")
  with run yieldsD [OF f fu] show "outcome cs rs (h x) w r t"
    by (cases a) (auto simp: bindE_def ok_def)
qed

lemmas yields_take = yields_then_ok [where cs = "[]"]

lemma yields_alloc_ok: "yields (bindE (alloc r) (\<lambda>_. ok x)) [] [r] x"
  by (rule yields_take [OF yields_alloc])

lemma yields_mset:
  assumes f: "yields f cs rs x" and m: "mset cs = mset ds" "mset rs = mset qs"
  shows "yields f ds qs x"
proof (rule yieldsI)
  fix w r t
  assume "f w = (r, t)"
  from yieldsD [OF f this] show "outcome ds qs x w r t"
    using m by (cases r) (simp_all add: swaps_def flip: count_mset)
qed

lemma yields_cancel:
  assumes f: "yields f (c # cs) (c # rs) x"
  shows "yields f cs rs x"
proof (rule yieldsI)
  fix w r t
  assume "f w = (r, t)"
  from yieldsD [OF f this] show "outcome cs rs x w r t"
    by (cases r) (auto simp: swaps_def split: if_splits)
qed

end
