(* ===== verification/File.thy ===== *)
theory File
  imports Prelude
begin

text \<open>
  \<open>src/file.c\<close>: descriptors, reading a descriptor to its end into a growing buffer, and the
  \<open>readlink\<close> loop with its growing buffer. A descriptor's remaining input is \<open>rx w fd\<close>; the
  answer list says how much of it each \<open>read\<close> returns.
\<close>

section \<open>Descriptors\<close>

definition file_dup :: "int \<Rightarrow> ('z world_scheme, int) cfun" where
  "file_dup fd = bindE sys (\<lambda>ret. andThen (emit (Acquire (Desc ret))) (ok ret))"

definition file_close :: "int \<Rightarrow> 'z world_scheme \<Rightarrow> 'z world_scheme" where
  "file_close fd = emit (Release (Desc fd))"

text \<open>What \<open>lstat\<close> reports: the kind of the directory entry, or that there is none.\<close>

datatype file_type = Regular | Directory | Symlink | Special

definition file_exists :: "(string \<Rightarrow> file_type option) \<Rightarrow> string \<Rightarrow> bool" where
  "file_exists lstat path \<longleftrightarrow> lstat path = Some Regular"

lemma file_close_trace [simp]: "trace (file_close fd w) = trace w @ [Release (Desc fd)]"
  by (simp add: file_close_def)

lemma file_dup_spec:
  "meets (file_dup fd) (\<lambda>w r t. rx t = rx w \<and>
     takes w t (case r of Inl _ \<Rightarrow> [] | Inr d \<Rightarrow> [Desc d]))"
  by (rule meetsI) (auto simp: file_dup_def run_simps takes_def)

section \<open>read(2)\<close>

text \<open>
  \<open>read(fd, buf, n)\<close>: an error, or the next bytes of the stream, at least one if \<open>n > 0\<close> and
  the stream has not ended; none at its end. A positive answer \<open>a\<close> makes it a short read of
  at most \<open>a\<close> bytes.
\<close>

definition sys_read :: "int \<Rightarrow> nat \<Rightarrow> ('z world_scheme, char list) cfun" where
  "sys_read fd n w =
     (let a = answer w; k = (if a = 0 then n else min n (nat a))
      in if a < 0 then (Inl a, used w)
         else (Inr (take k (rx w fd)), (used w)\<lparr>rx := (rx w)(fd := drop k (rx w fd))\<rparr>))"

lemma sys_read_error: "sys_read fd n w = (Inl e, t) \<Longrightarrow> e < 0 \<and> t = used w \<and> \<not> reliable w"
  by (auto simp: sys_read_def Let_def split: if_splits)

lemma sys_read_bytes:
  assumes "sys_read fd n w = (Inr bs, t)"
  shows "rx w fd = bs @ rx t fd" and "length bs \<le> n"
    and "bs = [] \<longleftrightarrow> n = 0 \<or> rx w fd = []"
    and "\<And>d. d \<noteq> fd \<Longrightarrow> rx t d = rx w d"
    and "trace t = trace w" and "rpc_id t = rpc_id w" and "world.more t = world.more w"
    and "reliable w \<Longrightarrow> reliable t" and "lucky w \<Longrightarrow> lucky t"
  using assms by (auto simp: sys_read_def Let_def min_def split: if_splits)

lemma sys_read_shrinks:
  "sys_read fd n w = (Inr bs, t) \<Longrightarrow> bs \<noteq> [] \<Longrightarrow> length (rx t fd) < length (rx w fd)"
  using sys_read_bytes(1) [of fd n w bs t] by (cases bs) auto

section \<open>file_read\<close>

text \<open>
  One iteration of the loop: grow the buffer to \<open>alloc_size\<close> (\<open>have\<close> says whether there is a
  buffer yet), read into the room that is left, stop at the end of the stream, and double
  the size when the buffer is full. \<open>size\<close> is \<open>length contents\<close>.
\<close>

function (sequential) file_read_loop ::
  "int \<Rightarrow> bool \<Rightarrow> nat \<Rightarrow> char list \<Rightarrow> ('z world_scheme, char list) cfun" where
  "file_read_loop fd have_buf alloc_size contents w =
     (let free_contents = (\<lambda>v. if have_buf then release (Mem ''contents'') v else v)
      in if answer w < 0 then (Inl (-1), free_contents (used w))
         else
           let w1 = (if have_buf then used w else emit (Acquire (Mem ''contents'')) (used w))
           in (case sys_read fd (alloc_size - length contents) w1 of
                (Inl e, w2) \<Rightarrow> (Inl e, release (Mem ''contents'') w2)
              | (Inr bs, w2) \<Rightarrow>
                  if bs = [] then (Inr contents, w2)
                  else
                    let contents' = contents @ bs
                    in file_read_loop fd True
                         (if length contents' = alloc_size then alloc_size * 2 else alloc_size)
                         contents' w2))"
  by pat_completeness auto
termination
  by (relation "measure (\<lambda>(fd, h, n, c, w). length (rx w fd))")
    (auto dest!: sys_read_shrinks [OF sym] split: if_splits)

definition file_read :: "int \<Rightarrow> ('z world_scheme, char list) cfun" where
  "file_read fd = file_read_loop fd False 256 []"

declare file_read_loop.simps [simp del]

lemma file_read_loop_spec:
  assumes "file_read_loop fd h n c w = (r, t)" and "length c < n"
  shows "rpc_id t = rpc_id w \<and> world.more t = world.more w \<and> undef (trace t) = undef (trace w) \<and>
    (reliable w \<longrightarrow> is_ok r \<and> reliable t) \<and> (lucky w \<longrightarrow> lucky t) \<and>
    (\<forall>d. d \<noteq> fd \<longrightarrow> rx t d = rx w d) \<and> (\<forall>d. sent d (trace t) = sent d (trace w)) \<and>
    noted (trace t) = noted (trace w) \<and>
    (case r of
       Inl e \<Rightarrow> e < 0 \<and> (\<forall>q. bal (trace t) q = bal (trace w) q - (if h \<and> q = Mem ''contents'' then 1 else 0))
     | Inr bs \<Rightarrow> bs = c @ rx w fd \<and> rx t fd = [] \<and>
         (\<forall>q. bal (trace t) q = bal (trace w) q + (if \<not> h \<and> q = Mem ''contents'' then 1 else 0)))"
  using assms
proof (induction fd h n c w arbitrary: r t rule: file_read_loop.induct)
  case (1 fd h n c w)
  show ?case
  proof (cases "answer w < 0")
    case True
    with 1(2) show ?thesis
      by (auto simp: file_read_loop.simps [of fd h n c w] Let_def split: if_splits)
  next
    case False
    define w1 where "w1 = (if h then used w else emit (Acquire (Mem ''contents'')) (used w))"
    have w1: "rx w1 = rx w" "rpc_id w1 = rpc_id w" "world.more w1 = world.more w"
      "undef (trace w1) = undef (trace w)" "\<And>d. sent d (trace w1) = sent d (trace w)"
      "noted (trace w1) = noted (trace w)"
      "\<And>q. bal (trace w1) q = bal (trace w) q + (if \<not> h \<and> q = Mem ''contents'' then 1 else 0)"
      "reliable w \<Longrightarrow> reliable w1" "lucky w \<Longrightarrow> lucky w1"
      by (auto simp: w1_def)
    obtain x w2 where rd: "sys_read fd (n - length c) w1 = (x, w2)"
      by (cases "sys_read fd (n - length c) w1")
    show ?thesis
    proof (cases x)
      case (Inl e)
      with 1(2) False rd sys_read_error [of fd "n - length c" w1 e w2] show ?thesis
        by (auto simp: file_read_loop.simps [of fd h n c w] Let_def w1 simp flip: w1_def)
    next
      case (Inr bs)
      note b = sys_read_bytes [OF rd [unfolded Inr]]
      show ?thesis
      proof (cases "bs = []")
        case True
        with 1(2,3) False rd Inr b w1 show ?thesis
          by (auto simp: file_read_loop.simps [of fd h n c w] Let_def simp flip: w1_def)
      next
        case ne: False
        let ?n = "if length (c @ bs) = n then n * 2 else n"
        have rec: "file_read_loop fd True ?n (c @ bs) w2 = (r, t)"
          using 1(2) False rd Inr ne
          by (simp add: file_read_loop.simps [of fd h n c w] Let_def flip: w1_def)
        have len: "length (c @ bs) < ?n"
          using b(2) 1(3) ne by auto
        have w2: "trace w2 = trace w1" "rpc_id w2 = rpc_id w" "world.more w2 = world.more w"
          "\<And>d. d \<noteq> fd \<Longrightarrow> rx w2 d = rx w d" "rx w fd = bs @ rx w2 fd" "reliable w \<Longrightarrow> reliable w2"
          "lucky w \<Longrightarrow> lucky w2"
          using b(1,4,5,6,7,8,9) w1(1,2,3,8,9) by simp_all
        from 1(1) [OF refl False w1_def rd [symmetric] Inr ne refl rec len] show ?thesis
          by (cases r) (auto simp: w2 w1(4-7))
      qed
    qed
  qed
qed

text \<open>
  Reading a descriptor to its end returns the whole stream, however the kernel splits it and
  however often the buffer grows; on an error nothing stays allocated.
\<close>

lemma file_read_spec:
  "meets (file_read fd) (\<lambda>w r t.
     takes w t (case r of Inl _ \<Rightarrow> [] | Inr _ \<Rightarrow> [Mem ''contents'']) \<and>
     (reliable w \<longrightarrow> is_ok r) \<and> (\<forall>d. d \<noteq> fd \<longrightarrow> rx t d = rx w d) \<and>
     rpc_id t = rpc_id w \<and> (\<forall>d. sent d (trace t) = sent d (trace w)) \<and>
     noted (trace t) = noted (trace w) \<and>
     (case r of Inl e \<Rightarrow> e < 0 | Inr bs \<Rightarrow> bs = rx w fd \<and> rx t fd = []))"
  by (rule meetsI, rule wpI)
    (auto simp: file_read_def takes_def dest!: file_read_loop_spec split: sum.splits)

section \<open>readlink_wrapper\<close>

text \<open>
  \<open>target\<close> is the link's target; the buffer has \<open>256 * 2 ^ k\<close> bytes after \<open>k\<close> doublings.
  \<open>readlink\<close> fills at most the whole buffer, and a full buffer means "maybe truncated".
\<close>

lemma doubling_reaches: "256 * 2 ^ k \<le> n \<Longrightarrow> k < (n :: nat)"
  using less_exp [of k] by linarith

function (sequential) readlink_loop :: "string \<Rightarrow> bool \<Rightarrow> nat \<Rightarrow> ('z world_scheme, string) cfun" where
  "readlink_loop target have_buf k w =
     (let free_buf = (\<lambda>v. if have_buf then release (Mem ''buf'') v else v)
      in if answer w < 0 then (Inl (-1), free_buf (used w))
         else
           let w1 = (if have_buf then used w else emit (Acquire (Mem ''buf'')) (used w))
           in if answer w1 < 0 then (Inl (-1), release (Mem ''buf'') (used w1))
              else if min (length target) (256 * 2 ^ k) = 256 * 2 ^ k
              then readlink_loop target True (Suc k) (used w1)
              else (Inr (take (min (length target) (256 * 2 ^ k)) target), used w1))"
  by pat_completeness auto
termination
  by (relation "measure (\<lambda>(target, h, k, w). length target - k)")
    (simp_all add: doubling_reaches diff_less_mono2 min_def split: if_splits)

definition readlink_wrapper :: "string \<Rightarrow> ('z world_scheme, string) cfun" where
  "readlink_wrapper target = readlink_loop target False 0"

declare readlink_loop.simps [simp del]

lemma readlink_loop_spec:
  "readlink_loop target h k w = (r, t) \<Longrightarrow>
    world.more t = world.more w \<and> undef (trace t) = undef (trace w) \<and> still w t \<and>
    (reliable w \<longrightarrow> is_ok r \<and> reliable t) \<and> (lucky w \<longrightarrow> lucky t) \<and>
    (case r of
       Inl _ \<Rightarrow> (\<forall>q. bal (trace t) q = bal (trace w) q - (if h \<and> q = Mem ''buf'' then 1 else 0))
     | Inr s \<Rightarrow> s = target \<and>
         (\<forall>q. bal (trace t) q = bal (trace w) q + (if \<not> h \<and> q = Mem ''buf'' then 1 else 0)))"
proof (induction target h k w arbitrary: r t rule: readlink_loop.induct)
  case (1 target h k w)
  define w1 where "w1 = (if h then used w else emit (Acquire (Mem ''buf'')) (used w))"
  have w1: "world.more w1 = world.more w" "still w w1" "reliable w \<Longrightarrow> reliable w1" "lucky w \<Longrightarrow> lucky w1" "undef (trace w1) = undef (trace w)"
    "\<And>q. bal (trace w1) q = bal (trace w) q + (if \<not> h \<and> q = Mem ''buf'' then 1 else 0)"
    by (auto simp: w1_def still_def)
  consider (nomem) "answer w < 0" | (err) "\<not> answer w < 0" "answer w1 < 0"
    | (full) "\<not> answer w < 0" "\<not> answer w1 < 0" "256 * 2 ^ k \<le> length target"
    | (whole) "\<not> answer w < 0" "\<not> answer w1 < 0" "length target < 256 * 2 ^ k"
    by fastforce
  then show ?case
  proof cases
    case nomem
    with 1(2) show ?thesis
      by (auto simp: readlink_loop.simps [of target h k w] Let_def still_def split: if_splits)
  next
    case err
    with 1(2) w1 show ?thesis
      by (auto simp: readlink_loop.simps [of target h k w] Let_def still_def simp flip: w1_def)
  next
    case full
    then have rec: "readlink_loop target True (Suc k) (used w1) = (r, t)"
      using 1(2) by (simp add: readlink_loop.simps [of target h k w] Let_def flip: w1_def)
    have m: "min (length target) (256 * 2 ^ k) = 256 * 2 ^ k" using full by simp
    have "world.more t = world.more (used w1) \<and> undef (trace t) = undef (trace (used w1)) \<and>
      still (used w1) t \<and> (reliable (used w1) \<longrightarrow> is_ok r \<and> reliable t) \<and>
      (lucky (used w1) \<longrightarrow> lucky t) \<and> (case r of
        Inl _ \<Rightarrow> (\<forall>q. bal (trace t) q = bal (trace (used w1)) q - (if True \<and> q = Mem ''buf'' then 1 else 0))
      | Inr s \<Rightarrow> s = target \<and>
          (\<forall>q. bal (trace t) q = bal (trace (used w1)) q + (if \<not> True \<and> q = Mem ''buf'' then 1 else 0)))"
      by (rule 1(1) [OF refl full(1) w1_def full(2) m rec])
    with w1 show ?thesis
      by (cases r) (auto simp: still_def)
  next
    case whole
    with 1(2) w1 show ?thesis
      by (auto simp: readlink_loop.simps [of target h k w] Let_def min_def still_def
          simp flip: w1_def split: if_splits)
  qed
qed

lemma readlink_wrapper_spec:
  "meets (readlink_wrapper target) (\<lambda>w r t.
     takes w t (case r of Inl _ \<Rightarrow> [] | Inr _ \<Rightarrow> [Mem ''buf'']) \<and> still w t \<and>
     (reliable w \<longrightarrow> is_ok r) \<and> (case r of Inl _ \<Rightarrow> True | Inr s \<Rightarrow> s = target))"
  by (rule meetsI, rule wpI)
    (auto simp: readlink_wrapper_def takes_def dest!: readlink_loop_spec split: sum.splits)

section \<open>Properties\<close>

text \<open>A world to apply the theorems to: nothing fails, and descriptor 3 has data coming.\<close>

definition sample_world :: world where
  "sample_world = \<lparr>answers = [], trace = [], rx = (\<lambda>d. if d = 3 then ''abc'' else []), rpc_id = 0\<rparr>"

text \<open>\<open>file_read\<close> returns the whole of a stream and leaves nothing of it, however the kernel
  splits it into reads and however often the buffer is grown; on an error it returns a negative
  number and leaves nothing allocated; and it can fail only if a call it makes fails.\<close>

theorem file_read_whole:
  assumes "file_read fd w = (r, t)"
  shows "(case r of
      Inl e \<Rightarrow> e < 0 \<and> takes w t [] \<and> \<not> reliable w
    | Inr bs \<Rightarrow> bs = rx w fd \<and> rx t fd = [] \<and> takes w t [Mem ''contents''])"
  using meetsD [OF file_read_spec assms] by (auto split: sum.splits)

theorem file_read_whole_witness:
  "fst (file_read 3 sample_world) = Inr ''abc''"
proof -
  obtain r t where rt: "file_read 3 sample_world = (r, t)" by (cases "file_read 3 sample_world")
  have "reliable sample_world" by (simp add: reliable_def sample_world_def)
  with file_read_whole [OF rt] rt show ?thesis by (cases r) (simp_all add: sample_world_def)
qed

text \<open>\<open>readlink_wrapper\<close> returns the link's whole target, never a truncated one, whatever its
  length; on an error nothing stays allocated.\<close>

theorem readlink_whole:
  assumes "readlink_wrapper target w = (r, t)"
  shows "(case r of
      Inl _ \<Rightarrow> takes w t [] \<and> \<not> reliable w
    | Inr s \<Rightarrow> s = target \<and> takes w t [Mem ''buf''])"
  using meetsD [OF readlink_wrapper_spec assms] by (auto split: sum.splits)

theorem readlink_whole_witness:
  "fst (readlink_wrapper (replicate 300 (CHR ''x'')) sample_world) = Inr (replicate 300 (CHR ''x''))"
proof -
  obtain r t where rt: "readlink_wrapper (replicate 300 (CHR ''x'')) sample_world = (r, t)"
    by (cases "readlink_wrapper (replicate 300 (CHR ''x'')) sample_world")
  have "reliable sample_world" by (simp add: reliable_def sample_world_def)
  with readlink_whole [OF rt] rt show ?thesis by (cases r) simp_all
qed

end
