(* ===== verification/Queues.thy ===== *)
theory Queues
  imports File
begin

text \<open>
  \<open>src/run_queue.c\<close> and \<open>src/worker_queue.c\<close>: runs, workers and the two queues the server
  keeps. A \<open>SIMPLEQ\<close> of entries is the list of its entries, head first. The interface the
  server uses is the locale \<open>fifo_queue\<close>; both queues are interpretations of it.
\<close>

section \<open>Runs\<close>

definition RUN_STATUS_CREATED :: int where "RUN_STATUS_CREATED = 1"
definition RUN_STATUS_FINISHED :: int where "RUN_STATUS_FINISHED = 2"

record run =
  run_id :: int
  repo_url :: string
  repo_rev :: string
  run_status :: int
  run_exit_code :: int

definition run_new ::
  "int \<Rightarrow> string \<Rightarrow> string \<Rightarrow> int \<Rightarrow> int \<Rightarrow> ('z world_scheme, run) cfun" where
  "run_new i url rv status ec =
     bindE (alloc (Mem ''run'')) (\<lambda>_.
       onErr
         (bindE (alloc (Mem ''repo_url'')) (\<lambda>_.
            onErr
              (bindE (alloc (Mem ''repo_rev'')) (\<lambda>_.
                 ok \<lparr>run_id = i, repo_url = url, repo_rev = rv,
                     run_status = status, run_exit_code = ec\<rparr>))
              (release (Mem ''repo_url''))))
         (release (Mem ''run'')))"

definition run_destroy :: "run \<Rightarrow> 'z world_scheme \<Rightarrow> 'z world_scheme" where
  "run_destroy entry w =
     release (Mem ''run'') (release (Mem ''repo_url'') (release (Mem ''repo_rev'') w))"

definition run_queued :: "string \<Rightarrow> string \<Rightarrow> ('z world_scheme, run) cfun" where
  "run_queued url rv = run_new (-1) url rv RUN_STATUS_CREATED (-1)"

definition run_created :: "int \<Rightarrow> string \<Rightarrow> string \<Rightarrow> ('z world_scheme, run) cfun" where
  "run_created i url rv = run_new i url rv RUN_STATUS_CREATED (-1)"

definition run_get_id :: "run \<Rightarrow> int" where "run_get_id entry = run_id entry"
definition run_get_repo_url :: "run \<Rightarrow> string" where "run_get_repo_url entry = repo_url entry"
definition run_get_repo_rev :: "run \<Rightarrow> string" where "run_get_repo_rev entry = repo_rev entry"

definition run_set_id :: "run \<Rightarrow> int \<Rightarrow> run" where
  "run_set_id entry i = entry\<lparr>run_id := i\<rparr>"

lemmas run_accessors = run_get_id_def run_get_repo_url_def run_get_repo_rev_def run_set_id_def

text \<open>The blocks a live run owns.\<close>

definition run_blocks :: "resource list" where
  "run_blocks = [Mem ''run'', Mem ''repo_url'', Mem ''repo_rev'']"

lemma run_new_yields:
  "yields (run_new i url rv status ec) [] run_blocks
     \<lparr>run_id = i, repo_url = url, repo_rev = rv, run_status = status, run_exit_code = ec\<rparr>"
  unfolding run_new_def run_blocks_def
  by (rule yields_bind_onErr [where qs = "[Mem ''run'']", simplified], rule yields_alloc,
      rule yields_bind_onErr [where qs = "[Mem ''repo_url'']", simplified], rule yields_alloc,
      rule yields_alloc_ok) simp_all

lemma run_destroy_world [simp]:
  "undef (trace (run_destroy x w)) = undef (trace w)" "rx (run_destroy x w) = rx w"
  "world.more (run_destroy x w) = world.more w" "reliable (run_destroy x w) = reliable w"
  "sent fd (trace (run_destroy x w)) = sent fd (trace w)"
  "bal (trace (run_destroy x w)) q = bal (trace w) q - int (count_list run_blocks q)"
  by (auto simp: run_destroy_def run_blocks_def)

section \<open>The run queue\<close>

type_synonym run_queue = "run list"

definition run_queue_create :: run_queue where
  "run_queue_create = []"

fun run_queue_destroy :: "run_queue \<Rightarrow> 'z world_scheme \<Rightarrow> 'z world_scheme" where
  "run_queue_destroy [] w = w"
| "run_queue_destroy (entry1 # rest) w = run_queue_destroy rest (run_destroy entry1 w)"

definition run_queue_is_empty :: "run_queue \<Rightarrow> bool" where
  "run_queue_is_empty q \<longleftrightarrow> q = []"

definition run_queue_add_first :: "run_queue \<Rightarrow> run \<Rightarrow> run_queue" where
  "run_queue_add_first q entry = entry # q"

definition run_queue_add_last :: "run_queue \<Rightarrow> run \<Rightarrow> run_queue" where
  "run_queue_add_last q entry = q @ [entry]"

text \<open>
  \<open>SIMPLEQ_REMOVE_HEAD\<close> follows the head's link, so removing from an empty queue
  dereferences a null pointer: \<open>None\<close>.
\<close>

fun run_queue_remove_first :: "run_queue \<Rightarrow> (run \<times> run_queue) option" where
  "run_queue_remove_first [] = None"
| "run_queue_remove_first (entry # q) = Some (entry, q)"

lemma run_queue_destroy_world [simp]:
  "undef (trace (run_queue_destroy rs w)) = undef (trace w)" "rx (run_queue_destroy rs w) = rx w"
  "world.more (run_queue_destroy rs w) = world.more w"
  "reliable (run_queue_destroy rs w) = reliable w"
  "sent fd (trace (run_queue_destroy rs w)) = sent fd (trace w)"
  "bal (trace (run_queue_destroy rs w)) q =
     bal (trace w) q - int (length rs * count_list run_blocks q)"
  by (induction rs arbitrary: w) simp_all

section \<open>Workers and the worker queue\<close>

record worker =
  worker_fd :: int

definition worker_create :: "int \<Rightarrow> ('z world_scheme, worker) cfun" where
  "worker_create fd = bindE (alloc (Mem ''worker'')) (\<lambda>_. ok \<lparr>worker_fd = fd\<rparr>)"

text \<open>\<open>net_close\<close> of \<open>src/net.c\<close> is \<open>file_close\<close>.\<close>

definition net_close :: "int \<Rightarrow> 'z world_scheme \<Rightarrow> 'z world_scheme" where
  "net_close fd = file_close fd"

definition worker_destroy :: "worker \<Rightarrow> 'z world_scheme \<Rightarrow> 'z world_scheme" where
  "worker_destroy entry w = release (Mem ''worker'') (net_close (worker_fd entry) w)"

definition worker_get_fd :: "worker \<Rightarrow> int" where
  "worker_get_fd entry = worker_fd entry"

type_synonym worker_queue = "worker list"

definition worker_queue_create :: worker_queue where
  "worker_queue_create = []"

fun worker_queue_destroy :: "worker_queue \<Rightarrow> 'z world_scheme \<Rightarrow> 'z world_scheme" where
  "worker_queue_destroy [] w = w"
| "worker_queue_destroy (entry1 # rest) w = worker_queue_destroy rest (worker_destroy entry1 w)"

definition worker_queue_is_empty :: "worker_queue \<Rightarrow> bool" where
  "worker_queue_is_empty q \<longleftrightarrow> q = []"

definition worker_queue_add_first :: "worker_queue \<Rightarrow> worker \<Rightarrow> worker_queue" where
  "worker_queue_add_first q entry = entry # q"

definition worker_queue_add_last :: "worker_queue \<Rightarrow> worker \<Rightarrow> worker_queue" where
  "worker_queue_add_last q entry = q @ [entry]"

fun worker_queue_remove_first :: "worker_queue \<Rightarrow> (worker \<times> worker_queue) option" where
  "worker_queue_remove_first [] = None"
| "worker_queue_remove_first (entry # q) = Some (entry, q)"

definition worker_resources :: "worker \<Rightarrow> resource list" where
  "worker_resources x = [Mem ''worker'', Desc (worker_fd x)]"

lemma worker_create_yields: "yields (worker_create fd) [] [Mem ''worker''] \<lparr>worker_fd = fd\<rparr>"
  unfolding worker_create_def by (rule yields_alloc_ok)

lemma worker_destroy_world [simp]:
  "undef (trace (worker_destroy x w)) = undef (trace w)" "rx (worker_destroy x w) = rx w"
  "world.more (worker_destroy x w) = world.more w" "reliable (worker_destroy x w) = reliable w"
  "sent fd (trace (worker_destroy x w)) = sent fd (trace w)"
  "bal (trace (worker_destroy x w)) q = bal (trace w) q - int (count_list (worker_resources x) q)"
  by (auto simp: worker_destroy_def net_close_def file_close_def worker_resources_def)

section \<open>The queue interface\<close>

text \<open>
  What the server relies on: \<open>items\<close> is the queue's content in order; insertion at either end
  and removal at the head act on it as expected, and removal succeeds exactly when the queue
  is not empty.
\<close>

locale fifo_queue =
  fixes items :: "'q \<Rightarrow> 'e list"
    and empty :: "'q"
    and is_empty :: "'q \<Rightarrow> bool"
    and add_first :: "'q \<Rightarrow> 'e \<Rightarrow> 'q"
    and add_last :: "'q \<Rightarrow> 'e \<Rightarrow> 'q"
    and remove_first :: "'q \<Rightarrow> ('e \<times> 'q) option"
  assumes items_empty: "items empty = []"
    and is_empty_items: "is_empty q \<longleftrightarrow> items q = []"
    and items_add_first: "items (add_first q x) = x # items q"
    and items_add_last: "items (add_last q x) = items q @ [x]"
    and remove_first_empty: "items q = [] \<Longrightarrow> remove_first q = None"
    and remove_first_items: "items q = x # xs \<Longrightarrow> \<exists>q'. remove_first q = Some (x, q') \<and> items q' = xs"
begin

lemma remove_first_defined: "remove_first q \<noteq> None \<longleftrightarrow> \<not> is_empty q"
  using remove_first_items by (cases "items q") (fastforce simp: is_empty_items remove_first_empty)+

lemma removed_head: "remove_first q = Some (x, q') \<Longrightarrow> items q = x # items q'"
  using remove_first_items by (cases "items q") (fastforce simp: remove_first_empty)+

lemma requeue: "remove_first q = Some (x, q') \<Longrightarrow> items (add_first q' x) = items q"
  by (simp add: items_add_first removed_head)

lemma fill: "items (foldl add_last q xs) = items q @ xs"
  by (induction xs arbitrary: q) (simp_all add: items_add_last)

lemma first_in_first_out: "remove_first (foldl add_last empty (x # xs)) = Some (x, q) \<Longrightarrow> items q = xs"
  using removed_head [of "foldl add_last empty (x # xs)" x q] fill [of empty "x # xs"]
  by (simp add: items_empty)

lemmas queue_laws = items_empty is_empty_items items_add_first items_add_last

end

interpretation rq: fifo_queue "\<lambda>q. q" run_queue_create run_queue_is_empty
  run_queue_add_first run_queue_add_last run_queue_remove_first
  by unfold_locales
    (simp_all add: run_queue_create_def run_queue_is_empty_def run_queue_add_first_def
      run_queue_add_last_def)

interpretation wq: fifo_queue "\<lambda>q. q" worker_queue_create worker_queue_is_empty
  worker_queue_add_first worker_queue_add_last worker_queue_remove_first
  by unfold_locales
    (simp_all add: worker_queue_create_def worker_queue_is_empty_def worker_queue_add_first_def
      worker_queue_add_last_def)

section \<open>Properties\<close>

text \<open>The server's run queue is first-in first-out: after runs \<open>x, xs\<close> were added to an empty
  queue in that order, the first removal yields \<open>x\<close> and leaves \<open>xs\<close>; and putting it back at the
  front restores the queue.\<close>

theorem run_queue_fifo:
  "run_queue_remove_first (foldl run_queue_add_last run_queue_create (x # xs)) = Some (x, xs) \<and>
     run_queue_add_first xs x = foldl run_queue_add_last run_queue_create (x # xs)"
proof -
  have "foldl run_queue_add_last run_queue_create (x # xs) = x # xs"
    using rq.fill [of run_queue_create "x # xs"] by (simp add: rq.items_empty)
  then show ?thesis by (simp add: rq.items_add_first)
qed

text \<open>Creating a run either succeeds, holds its three blocks and has exactly the fields it was
  given, or returns -1-like failure because an allocation failed, with every block given back;
  destroying the run gives back exactly the blocks it holds.\<close>

theorem run_new_all_or_nothing:
  assumes "run_new i url rv status ec w = (r, t)"
  shows "(case r of
      Inl e \<Rightarrow> e < 0 \<and> takes w t [] \<and> \<not> reliable w
    | Inr x \<Rightarrow> x = \<lparr>run_id = i, repo_url = url, repo_rev = rv, run_status = status,
                  run_exit_code = ec\<rparr> \<and>
        takes w t run_blocks \<and>
        (\<forall>q. bal (trace (run_destroy x t)) q = bal (trace w) q))"
  using yieldsD [OF run_new_yields assms] by (cases r) (auto simp: swaps_takes takes_def)

theorem run_new_all_or_nothing_witness:
  "fst (run_new 7 ''url'' ''rev'' 1 0 (sample_world\<lparr>answers := [0, 0, -1]\<rparr>)) = Inl (-1) \<and>
   bal (trace (snd (run_new 7 ''url'' ''rev'' 1 0 (sample_world\<lparr>answers := [0, 0, -1]\<rparr>))))
     (Mem ''run'') = 0"
proof -
  let ?w = "sample_world\<lparr>answers := [0, 0, -1]\<rparr>"
  obtain r t where rt: "run_new 7 ''url'' ''rev'' 1 0 ?w = (r, t)"
    by (cases "run_new 7 ''url'' ''rev'' 1 0 ?w")
  have r: "r = Inl (-1)"
    using rt by (simp add: run_new_def bindE_def onErr_def alloc_def answer_def used_def emit_def)
  with run_new_all_or_nothing [OF rt] have "takes ?w t []" by simp
  with r rt show ?thesis by (simp add: takes_def sample_world_def)
qed

end
