(* ===== verification/Net.thy ===== *)
theory Net
  imports Queues
begin

text \<open>
  \<open>src/buf.c\<close> and \<open>src/net.c\<close>: length-prefixed buffers, the loops that push a whole buffer
  through \<open>send\<close> and pull one out of \<open>read\<close>, and the loops over the addresses of
  \<open>getaddrinfo\<close> that open a listening or a connected socket.
\<close>

section \<open>Buffers\<close>

text \<open>The size is a \<open>uint32_t\<close>: a conversion from \<open>strlen\<close> wraps at \<open>2 ^ 32\<close>.\<close>

record buf =
  buf_size :: "32 word"
  buf_data :: "char list"

definition NUL :: char where "NUL = CHR 0x00"

definition buf_create :: "char list \<Rightarrow> 32 word \<Rightarrow> ('z world_scheme, buf) cfun" where
  "buf_create data sz =
     bindE (alloc (Mem ''buf'')) (\<lambda>_. ok \<lparr>buf_size = sz, buf_data = data\<rparr>)"

definition buf_create_from_string :: "string \<Rightarrow> ('z world_scheme, buf) cfun" where
  "buf_create_from_string str = buf_create (str @ [NUL]) (of_nat (length str + 1))"

definition buf_destroy :: "buf \<Rightarrow> 'z world_scheme \<Rightarrow> 'z world_scheme" where
  "buf_destroy b = release (Mem ''buf'')"

definition buf_get_size :: "buf \<Rightarrow> 32 word" where "buf_get_size b = buf_size b"
definition buf_get_data :: "buf \<Rightarrow> char list" where "buf_get_data b = buf_data b"

lemmas buf_accessors = buf_get_size_def buf_get_data_def

text \<open>A buffer whose recorded size is the length of its data.\<close>

definition buf_wf :: "buf \<Rightarrow> bool" where
  "buf_wf b \<longleftrightarrow> length (buf_data b) = unat (buf_size b)"

lemma buf_create_yields:
  "yields (buf_create data sz) [] [Mem ''buf''] \<lparr>buf_size = sz, buf_data = data\<rparr>"
  unfolding buf_create_def by (rule yields_alloc_ok)

section \<open>Byte order\<close>

definition htonl_bytes :: "32 word \<Rightarrow> char list" where
  "htonl_bytes n = map (\<lambda>k. char_of (unat n div 2 ^ k)) [24, 16, 8, 0]"

definition ntohl_bytes :: "char list \<Rightarrow> 32 word" where
  "ntohl_bytes bs = of_nat (foldl (\<lambda>acc b. acc * 256 + of_char b) 0 bs)"

lemma horner_step: "n div (256 * m) * 256 + n div m mod 256 = n div (m :: nat)"
  using div_mult_mod_eq [of "n div m" 256] by (simp add: div_mult2_eq mult.commute [of 256])

lemma ntohl_htonl [simp]: "ntohl_bytes (htonl_bytes n) = n"
proof -
  have "unat n < 2 ^ LENGTH(32)" by (rule unsigned_less)
  then have "unat n div 16777216 < 256" by (simp add: less_mult_imp_div_less)
  then have "unat n div 16777216 mod 256 = unat n div 16777216" by simp
  then have "foldl (\<lambda>acc b. acc * 256 + of_char b) 0 (htonl_bytes n) = unat n"
    using horner_step [of "unat n" 65536] horner_step [of "unat n" 256] horner_step [of "unat n" 1]
    by (simp add: htonl_bytes_def)
  then show ?thesis by (simp add: ntohl_bytes_def)
qed

lemma char_of_digit: "char_of (k * 256 + of_char c :: nat) = (c :: char)"
proof -
  have "(k * 256 + of_char c) mod 256 = (of_char c :: nat)" by simp
  then show ?thesis by (metis char_of_mod_256 char_of_char)
qed

lemma htonl_ntohl:
  assumes "length bs = 4"
  shows "htonl_bytes (ntohl_bytes bs) = bs"
proof -
  obtain a b c d where bs: "bs = [a, b, c, d]"
    using assms by (auto simp: length_Suc_conv eval_nat_numeral)
  define A B C D :: nat where "A = of_char a" "B = of_char b" "C = of_char c" "D = of_char d"
  have lt: "A < 256" "B < 256" "C < 256" "D < 256" by (simp_all add: A_B_C_D_def)
  define n where "n = ((A * 256 + B) * 256 + C) * 256 + D"
  have "n < 2 ^ 32" using lt by (simp add: n_def)
  then have u: "unat (of_nat n :: 32 word) = n" by (simp add: unsigned_of_nat take_bit_nat_eq_self)
  have "n div 256 = (A * 256 + B) * 256 + C" using lt by (simp add: n_def)
  moreover from this have "n div 65536 = A * 256 + B"
    using lt div_mult2_eq [of n 256 256] by simp
  moreover from this have "n div 16777216 = A"
    using lt div_mult2_eq [of n 65536 256] by simp
  ultimately show ?thesis
    using u char_of_digit [of "(A * 256 + B) * 256 + C" d] char_of_digit [of "A * 256 + B" c]
      char_of_digit [of A b]
    by (simp add: bs ntohl_bytes_def htonl_bytes_def n_def A_B_C_D_def)
qed

lemma length_htonl [simp]: "length (htonl_bytes n) = 4"
  by (simp add: htonl_bytes_def)

section \<open>Sending\<close>

text \<open>
  \<open>send\<close> accepts a non-empty prefix of a non-empty buffer, or fails; a positive answer \<open>a\<close>
  makes it accept at most \<open>a\<close> bytes.
\<close>

definition net_send_part :: "int \<Rightarrow> char list \<Rightarrow> ('z world_scheme, nat) cfun" where
  "net_send_part fd data w =
     (let a = answer w; k = (if a = 0 then length data else min (length data) (nat a))
      in if a < 0 then (Inl (-1), used w) else (Inr k, emit (Sent fd (take k data)) (used w)))"

lemma net_send_part_cases:
  assumes "net_send_part fd data w = (r, t)"
  obtains "answer w < 0" "r = Inl (-1)" "t = used w"
  | k where "0 \<le> answer w" "r = Inr k" "t = emit (Sent fd (take k data)) (used w)"
      "k \<le> length data" "data \<noteq> [] \<Longrightarrow> 0 < k"
  using assms by (auto simp: net_send_part_def Let_def split: if_splits)

text \<open>\<open>data\<close> is what remains to be sent.\<close>

function (sequential) net_send :: "int \<Rightarrow> char list \<Rightarrow> ('z world_scheme, unit) cfun" where
  "net_send fd data w =
     (if data = [] then (Inr (), w)
      else (case net_send_part fd data w of
              (Inl _, t) \<Rightarrow> (Inl (-1), t)
            | (Inr k, t) \<Rightarrow> net_send fd (drop k data) t))"
  by pat_completeness auto
termination
  by (relation "measure (\<lambda>(fd, data, w). length data)")
    (auto elim: net_send_part_cases [OF sym])

declare net_send.simps [simp del]

definition net_send_buf :: "int \<Rightarrow> buf \<Rightarrow> ('z world_scheme, unit) cfun" where
  "net_send_buf fd b =
     bindE (net_send fd (htonl_bytes (buf_get_size b)))
       (\<lambda>_. net_send fd (take (unat (buf_get_size b)) (buf_get_data b)))"

text \<open>The bytes a buffer is sent as.\<close>

definition frame_bytes :: "buf \<Rightarrow> char list" where
  "frame_bytes b = htonl_bytes (buf_size b) @ take (unat (buf_size b)) (buf_data b)"

text \<open>
  All or a strict prefix: after success exactly the data went out, on the socket it was meant
  for; after a failure a strict prefix of it did.
\<close>

lemma net_send_spec:
  "net_send fd data w = (r, t) \<Longrightarrow> calm w t \<and> rx t = rx w \<and> (reliable w \<longrightarrow> is_ok r) \<and>
    (\<forall>d. d \<noteq> fd \<longrightarrow> sent d (trace t) = sent d (trace w)) \<and>
    (\<exists>bs cs. data = bs @ cs \<and> sent fd (trace t) = sent fd (trace w) @ bs \<and>
       (case r of Inl e \<Rightarrow> e = -1 \<and> cs \<noteq> [] | Inr _ \<Rightarrow> cs = []))"
proof (induction fd data w arbitrary: r t rule: net_send.induct)
  case (1 fd data w)
  show ?case
  proof (cases "data = []")
    case True
    with "1.prems" show ?thesis
      by (auto simp: net_send.simps [of fd "[]" w])
  next
    case ne: False
    obtain x u where p: "net_send_part fd data w = (x, u)" by (cases "net_send_part fd data w")
    from p show ?thesis
    proof (cases rule: net_send_part_cases)
      case 1
      with ne p "1.prems" show ?thesis
        by (auto simp: net_send.simps [of fd data w])
    next
      case (2 k)
      have rec: "net_send fd (drop k data) u = (r, t)"
        using 2 ne p "1.prems" by (simp add: net_send.simps [of fd data w])
      have cu: "calm w u" using 2 by (simp add: takes_emit)
      note ih = "1.IH" [OF ne p [symmetric] \<open>x = Inr k\<close> rec]
      from ih obtain bs cs where "drop k data = bs @ cs"
        and rest: "sent fd (trace t) = sent fd (trace u) @ bs"
          "case r of Inl e \<Rightarrow> e = -1 \<and> cs \<noteq> [] | Inr _ \<Rightarrow> cs = []" by blast
      then have "data = (take k data @ bs) @ cs"
        by (metis append.assoc append_take_drop_id)
      moreover have "sent fd (trace t) = sent fd (trace w) @ take k data @ bs"
        using rest 2 by simp
      ultimately show ?thesis
        using ih rest 2 cu by (intro conjI) (auto intro: calm_trans dest: takesD(4))
    qed
  qed
qed

lemma net_send_buf_spec:
  "meets (net_send_buf fd b) (\<lambda>w r t. calm w t \<and> rx t = rx w \<and> (reliable w \<longrightarrow> is_ok r) \<and>
     (\<forall>d. d \<noteq> fd \<longrightarrow> sent d (trace t) = sent d (trace w)) \<and>
     (\<exists>bs cs. frame_bytes b = bs @ cs \<and> sent fd (trace t) = sent fd (trace w) @ bs \<and>
        (case r of Inl e \<Rightarrow> e = -1 \<and> cs \<noteq> [] | Inr _ \<Rightarrow> cs = [])))"
proof (rule meetsI, rule wpI)
  fix w r t
  assume run: "net_send_buf fd b w = (r, t)"
  let ?h = "htonl_bytes (buf_size b)" and ?d = "take (unat (buf_size b)) (buf_data b)"
  obtain x u where h: "net_send fd ?h w = (x, u)" by (cases "net_send fd ?h w")
  note hs = net_send_spec [OF h]
  show "calm w t \<and> rx t = rx w \<and> (reliable w \<longrightarrow> is_ok r) \<and>
     (\<forall>d. d \<noteq> fd \<longrightarrow> sent d (trace t) = sent d (trace w)) \<and>
     (\<exists>bs cs. frame_bytes b = bs @ cs \<and> sent fd (trace t) = sent fd (trace w) @ bs \<and>
        (case r of Inl e \<Rightarrow> e = -1 \<and> cs \<noteq> [] | Inr _ \<Rightarrow> cs = []))"
  proof (cases x)
    case (Inl e)
    with run h have "r = Inl e" "t = u" by (simp_all add: net_send_buf_def bindE_def buf_accessors)
    with hs Inl show ?thesis by (fastforce simp: frame_bytes_def)
  next
    case (Inr y)
    with run h have d: "net_send fd ?d u = (r, t)"
      by (simp add: net_send_buf_def bindE_def buf_accessors)
    note ds = net_send_spec [OF d]
    from ds obtain bs cs where "?d = bs @ cs" "sent fd (trace t) = sent fd (trace u) @ bs"
      "case r of Inl e \<Rightarrow> e = -1 \<and> cs \<noteq> [] | Inr _ \<Rightarrow> cs = []" by blast
    moreover have "sent fd (trace u) = sent fd (trace w) @ ?h" using hs Inr by auto
    ultimately have "frame_bytes b = (?h @ bs) @ cs"
      "sent fd (trace t) = sent fd (trace w) @ ?h @ bs" by (simp_all add: frame_bytes_def)
    with \<open>case r of Inl e \<Rightarrow> e = -1 \<and> cs \<noteq> [] | Inr _ \<Rightarrow> cs = []\<close> hs ds show ?thesis
      by (intro conjI) (auto intro: calm_trans dest: takesD(4))
  qed
qed

section \<open>Receiving\<close>

text \<open>\<open>buf\<close> is what was read so far; its length is \<open>read_total\<close>.\<close>

function (sequential) net_recv_loop ::
  "int \<Rightarrow> nat \<Rightarrow> char list \<Rightarrow> ('z world_scheme, char list) cfun" where
  "net_recv_loop fd sz data w =
     (if length data < sz then
        (case sys_read fd (sz - length data) w of
           (Inl _, t) \<Rightarrow> (Inl (-1), t)
         | (Inr bs, t) \<Rightarrow> if bs = [] then (Inr data, t) else net_recv_loop fd sz (data @ bs) t)
      else (Inr data, w))"
  by pat_completeness auto
termination
  by (relation "measure (\<lambda>(fd, sz, data, w). length (rx w fd))")
    (auto dest!: sys_read_shrinks [OF sym])

declare net_recv_loop.simps [simp del]

definition net_recv :: "int \<Rightarrow> nat \<Rightarrow> ('z world_scheme, char list) cfun" where
  "net_recv fd sz =
     bindE (net_recv_loop fd sz []) (\<lambda>data. if length data < sz then failing (-1) else ok data)"

definition net_recv_buf :: "int \<Rightarrow> ('z world_scheme, buf) cfun" where
  "net_recv_buf fd w =
     (case net_recv fd 4 w of
        (Inl _, w1) \<Rightarrow> (Inl (-1), w1)
      | (Inr h, w1) \<Rightarrow>
          let sz = ntohl_bytes h in
          (case alloc (Mem ''data'') w1 of
             (Inl _, w2) \<Rightarrow> (Inl (-1), w2)
           | (Inr _, w2) \<Rightarrow>
               (case net_recv fd (unat sz) w2 of
                  (Inl _, w3) \<Rightarrow> (Inl (-1), release (Mem ''data'') w3)
                | (Inr data, w3) \<Rightarrow>
                    (case buf_create data sz w3 of
                       (Inl _, w4) \<Rightarrow> (Inl (-1), release (Mem ''data'') w4)
                     | (Inr b, w4) \<Rightarrow> (Inr b, w4)))))"

lemma net_recv_loop_spec:
  "net_recv_loop fd sz data w = (r, t) \<Longrightarrow> length data \<le> sz \<Longrightarrow>
    calm w t \<and> trace t = trace w \<and> (reliable w \<longrightarrow> is_ok r) \<and> (\<forall>d. d \<noteq> fd \<longrightarrow> rx t d = rx w d) \<and>
    (case r of Inl e \<Rightarrow> e = -1
     | Inr out \<Rightarrow> length out \<le> sz \<and> out @ rx t fd = data @ rx w fd \<and>
         (length out < sz \<longrightarrow> rx t fd = []))"
proof (induction fd sz data w arbitrary: r t rule: net_recv_loop.induct)
  case (1 fd sz data w)
  show ?case
  proof (cases "length data < sz")
    case False
    with "1.prems" show ?thesis by (auto simp: net_recv_loop.simps [of fd sz data w])
  next
    case lt: True
    obtain x u where rd: "sys_read fd (sz - length data) w = (x, u)"
      by (cases "sys_read fd (sz - length data) w")
    show ?thesis
    proof (cases x)
      case (Inl e)
      with "1.prems" lt rd sys_read_error [OF rd [unfolded Inl]] show ?thesis
        by (auto simp: net_recv_loop.simps [of fd sz data w])
    next
      case (Inr bs)
      note b = sys_read_bytes [OF rd [unfolded Inr]]
      have cu: "calm w u" using b(5,7,8,9) by (simp add: takes_def)
      show ?thesis
      proof (cases "bs = []")
        case True
        with "1.prems" lt rd Inr b cu show ?thesis
          by (auto simp: net_recv_loop.simps [of fd sz data w])
      next
        case ne: False
        have rec: "net_recv_loop fd sz (data @ bs) u = (r, t)" "length (data @ bs) \<le> sz"
          using "1.prems" lt rd Inr ne b(2) by (auto simp: net_recv_loop.simps [of fd sz data w])
        from "1.IH" [OF lt rd [symmetric] Inr ne rec] b(1,4,5) cu show ?thesis
          by (cases r) (auto intro: calm_trans dest: takesD(4))
      qed
    qed
  qed
qed

text \<open>All or an error: either exactly the next \<open>sz\<close> bytes of the stream, or -1.\<close>

lemma net_recv_spec:
  assumes "net_recv fd sz w = (r, t)"
  shows "calm w t \<and> trace t = trace w \<and> (\<forall>d. d \<noteq> fd \<longrightarrow> rx t d = rx w d) \<and>
    (reliable w \<and> sz \<le> length (rx w fd) \<longrightarrow> is_ok r) \<and>
    (case r of Inl e \<Rightarrow> e = -1
     | Inr out \<Rightarrow> sz \<le> length (rx w fd) \<and> out = take sz (rx w fd) \<and> rx t fd = drop sz (rx w fd))"
proof -
  obtain x u where l: "net_recv_loop fd sz [] w = (x, u)" by (cases "net_recv_loop fd sz [] w")
  note ls = net_recv_loop_spec [OF l]
  show ?thesis
  proof (cases x)
    case (Inl e)
    with assms l ls show ?thesis by (auto simp: net_recv_def bindE_def)
  next
    case (Inr out)
    with ls have o: "length out \<le> sz" "out @ rx u fd = rx w fd" "length out < sz \<longrightarrow> rx u fd = []"
      by simp_all
    show ?thesis
    proof (cases "length out < sz")
      case True
      with assms l ls Inr o show ?thesis
        by (auto simp: net_recv_def bindE_def failing_def)
    next
      case False
      with o have "take sz (rx w fd) = out" "drop sz (rx w fd) = rx u fd" "sz \<le> length (rx w fd)"
        by (auto simp flip: o(2))
      with assms l ls Inr False show ?thesis
        by (auto simp: net_recv_def bindE_def ok_def)
    qed
  qed
qed

lemma frame_bytes_inj:
  assumes "buf_wf b" "buf_wf c" "frame_bytes b @ xs = frame_bytes c @ ys"
  shows "b = c \<and> xs = ys"
proof -
  have "htonl_bytes (buf_size b) = htonl_bytes (buf_size c)"
    using arg_cong [OF assms(3), of "take 4"] by (simp add: frame_bytes_def)
  then have sz: "buf_size b = buf_size c" by (metis ntohl_htonl)
  with assms have "buf_data b @ xs = buf_data c @ ys"
    by (simp add: frame_bytes_def buf_wf_def)
  with assms(1,2) sz have "buf_data b = buf_data c \<and> xs = ys"
    by (simp add: buf_wf_def)
  with sz show ?thesis by simp
qed

text \<open>
  Receiving a buffer consumes exactly one frame, or fails with -1 and leaves nothing
  allocated; it fails on a complete frame only if a system call or an allocation does.
\<close>

lemma net_recv_buf_spec:
  assumes run: "net_recv_buf fd w = (r, t)"
  shows "takes w t (case r of Inl _ \<Rightarrow> [] | Inr _ \<Rightarrow> [Mem ''data'', Mem ''buf'']) \<and>
    (\<forall>d. d \<noteq> fd \<longrightarrow> rx t d = rx w d) \<and>
    (\<forall>d. sent d (trace t) = sent d (trace w)) \<and>
    (case r of Inl e \<Rightarrow> e = -1
     | Inr b \<Rightarrow> buf_wf b \<and> rx w fd = frame_bytes b @ rx t fd) \<and>
    (reliable w \<and> (\<exists>b rest. buf_wf b \<and> rx w fd = frame_bytes b @ rest) \<longrightarrow> is_ok r)"
proof -
  obtain x1 w1 where h: "net_recv fd 4 w = (x1, w1)" by (cases "net_recv fd 4 w")
  note hs = net_recv_spec [OF h]
  have four: "4 \<le> length (rx w fd)" if "\<exists>b rest. buf_wf b \<and> rx w fd = frame_bytes b @ rest"
    using that by (auto simp: frame_bytes_def)
  show ?thesis
  proof (cases x1)
    case (Inl e)
    with run h hs four show ?thesis by (auto simp: net_recv_buf_def)
  next
    case (Inr hd)
    define sz where "sz = ntohl_bytes hd"
    have hd: "hd = take 4 (rx w fd)" "rx w1 fd = drop 4 (rx w fd)" "4 \<le> length (rx w fd)"
      using hs Inr by auto
    obtain x2 w2 where al: "alloc (Mem ''data'') w1 = (x2, w2)" by (cases "alloc (Mem ''data'') w1")
    show ?thesis
    proof (cases x2)
      case (Inl e)
      with run h hs \<open>x1 = Inr hd\<close> al show ?thesis
        by (auto simp: net_recv_buf_def alloc_def dest: takesD(4) split: if_splits)
    next
      case al2: (Inr y)
      then have w2: "w2 = emit (Acquire (Mem ''data'')) (used w1)" using al
        by (auto simp: alloc_def split: if_splits)
      obtain x3 w3 where d: "net_recv fd (unat sz) w2 = (x3, w3)" by (cases "net_recv fd (unat sz) w2")
      note ds = net_recv_spec [OF d]
      have t2: "takes w w2 [Mem ''data'']" "reliable w \<Longrightarrow> reliable w2"
        using hs w2 takes_emit(1) [of w "used w1" "[]"] by (auto dest: takesD(4))
      have t3: "takes w w3 [Mem ''data'']" using t2(1) ds by (blast intro: calm_trans)
      have full: "unat sz \<le> length (rx w2 fd)"
        if "\<exists>b rest. buf_wf b \<and> rx w fd = frame_bytes b @ rest"
        using that hd w2 by (auto simp: sz_def frame_bytes_def buf_wf_def)
      show ?thesis
      proof (cases x3)
        case (Inl e)
        have "takes w (release (Mem ''data'') w3) []"
          using takes_emit(2) [OF t3, of "Mem ''data''"] by simp
        with run h hs \<open>x1 = Inr hd\<close> al al2 d ds Inl w2 t2 full show ?thesis
          by (auto simp: net_recv_buf_def sz_def Let_def)
      next
        case (Inr data)
        obtain x4 w4 where c: "buf_create data sz w3 = (x4, w4)" by (cases "buf_create data sz w3")
        note cs = yieldsD [OF buf_create_yields c]
        have r: "(r, t) = (case x4 of Inl _ \<Rightarrow> (Inl (-1), release (Mem ''data'') w4) | Inr b \<Rightarrow> (Inr b, w4))"
          using run h \<open>x1 = Inr hd\<close> al al2 d Inr c
          by (simp add: net_recv_buf_def sz_def Let_def split: sum.splits)
        show ?thesis
        proof (cases x4)
          case (Inl e)
          have "takes w w4 [Mem ''data'']" using t3 cs Inl by (auto intro: calm_trans)
          then have "takes w (release (Mem ''data'') w4) []"
            using takes_emit(2) [of w w4 "[Mem ''data'']" "Mem ''data''"] by simp
          moreover have "\<not> reliable w" using cs Inl t2 ds takesD(4) by fastforce
          ultimately show ?thesis using r Inl cs ds hs w2
            by (auto simp: still_def)
        next
          case (Inr b)
          have "takes w w4 [Mem ''data'', Mem ''buf'']"
            using takes_trans [OF t3, of w4 "[Mem ''buf'']"] cs Inr by (simp add: swaps_takes)
          moreover have b: "b = \<lparr>buf_size = sz, buf_data = data\<rparr>" "rx w4 = rx w3"
            using cs Inr by (auto simp: still_def)
          moreover have "data = take (unat sz) (rx w1 fd)" "rx w3 fd = drop (unat sz) (rx w1 fd)"
            "unat sz \<le> length (rx w1 fd)"
            using ds \<open>x3 = Inr data\<close> w2 by auto
          moreover have "htonl_bytes sz = hd"
            using hd by (simp add: sz_def htonl_ntohl)
          moreover have "rx w fd = hd @ rx w1 fd" using hd by simp
          ultimately have "takes w w4 [Mem ''data'', Mem ''buf'']" "buf_wf b"
            "rx w fd = frame_bytes b @ rx w4 fd"
            by (simp_all add: frame_bytes_def buf_wf_def)
          with r Inr cs ds hs w2 show ?thesis by (auto simp: still_def)
        qed
      qed
    qed
  qed
qed

section \<open>Opening sockets\<close>

text \<open>A system call that returns a new descriptor.\<close>

definition sys_fd :: "('z world_scheme, int) cfun" where
  "sys_fd = bindE sys (\<lambda>fd. andThen (emit (Acquire (Desc fd))) (ok fd))"

definition net_accept :: "int \<Rightarrow> ('z world_scheme, int) cfun" where
  "net_accept fd = sys_fd"

text \<open>
  \<open>getaddrinfo\<close> either fails or yields the list of candidate addresses; \<open>ai_inet6\<close> says
  whether a candidate's family is \<open>AF_INET6\<close>. A candidate that fails at any step has its
  socket closed and the next one is tried.
\<close>

record addrinfo =
  ai_inet6 :: bool

definition net_bind_one :: "addrinfo \<Rightarrow> ('z world_scheme, int) cfun" where
  "net_bind_one it =
     bindE sys_fd (\<lambda>socket_fd.
       onErr
         (bindE (if ai_inet6 it then sys else ok 0) (\<lambda>_.
            bindE sys (\<lambda>_.
              bindE sys (\<lambda>_. ok socket_fd))))
         (net_close socket_fd))"

fun net_bind_addrs :: "addrinfo list \<Rightarrow> ('z world_scheme, int) cfun" where
  "net_bind_addrs [] w = (Inl (-1), w)"
| "net_bind_addrs (it # its) w =
     (case net_bind_one it w of
        (Inr fd, t) \<Rightarrow> (Inr fd, t)
      | (Inl _, t) \<Rightarrow> net_bind_addrs its t)"

definition net_bind :: "addrinfo list option \<Rightarrow> ('z world_scheme, int) cfun" where
  "net_bind addrs =
     (case addrs of
        None \<Rightarrow> failing (-1)
      | Some its \<Rightarrow>
          bindE (net_bind_addrs its) (\<lambda>socket_fd.
            onErr (bindE sys (\<lambda>_. ok socket_fd)) (net_close socket_fd)))"

definition net_connect_one :: "addrinfo \<Rightarrow> ('z world_scheme, int) cfun" where
  "net_connect_one it =
     bindE sys_fd (\<lambda>socket_fd. onErr (bindE sys (\<lambda>_. ok socket_fd)) (net_close socket_fd))"

fun net_connect_addrs :: "addrinfo list \<Rightarrow> ('z world_scheme, int) cfun" where
  "net_connect_addrs [] w = (Inl (-1), w)"
| "net_connect_addrs (it # its) w =
     (case net_connect_one it w of
        (Inr fd, t) \<Rightarrow> (Inr fd, t)
      | (Inl _, t) \<Rightarrow> net_connect_addrs its t)"

definition net_connect :: "addrinfo list option \<Rightarrow> ('z world_scheme, int) cfun" where
  "net_connect addrs = (case addrs of None \<Rightarrow> failing (-1) | Some its \<Rightarrow> net_connect_addrs its)"

text \<open>What opening a socket promises: one new descriptor, or an error and none.\<close>

definition opens_fd :: "'z world_scheme \<Rightarrow> int + int \<Rightarrow> 'z world_scheme \<Rightarrow> bool" where
  "opens_fd w r t \<longleftrightarrow> rx t = rx w \<and> (\<forall>d. sent d (trace t) = sent d (trace w)) \<and>
     (case r of Inl e \<Rightarrow> e < 0 \<and> calm w t | Inr fd \<Rightarrow> 0 \<le> fd \<and> takes w t [Desc fd])"

lemma opens_fd_retry: "opens_fd w (Inl e) u \<Longrightarrow> opens_fd u r t \<Longrightarrow> opens_fd w r t"
  by (cases r) (auto simp: opens_fd_def intro: takes_calm)

lemma net_close_world [simp]: "net_close fd w = emit (Release (Desc fd)) w"
  by (simp add: net_close_def file_close_def)

lemma sys_fd_spec: "meets sys_fd opens_fd"
  by (rule meetsI) (auto simp: sys_fd_def run_simps opens_fd_def takes_def)

lemma net_bind_one_spec: "meets (net_bind_one it) opens_fd"
  by (rule meetsI) (auto simp: net_bind_one_def sys_fd_def run_simps opens_fd_def takes_def)

lemma net_connect_one_spec: "meets (net_connect_one it) opens_fd"
  by (rule meetsI) (auto simp: net_connect_one_def sys_fd_def run_simps opens_fd_def takes_def)

lemma net_bind_addrs_spec: "net_bind_addrs its w = (r, t) \<Longrightarrow> opens_fd w r t"
proof (induction its arbitrary: w)
  case Nil
  then show ?case by (auto simp: opens_fd_def)
next
  case (Cons it its)
  obtain x u where one: "net_bind_one it w = (x, u)" by (cases "net_bind_one it w")
  with Cons meetsD [OF net_bind_one_spec one] show ?case
    by (auto intro: opens_fd_retry split: sum.splits)
qed

lemma net_connect_addrs_spec: "net_connect_addrs its w = (r, t) \<Longrightarrow> opens_fd w r t"
proof (induction its arbitrary: w)
  case Nil
  then show ?case by (auto simp: opens_fd_def)
next
  case (Cons it its)
  obtain x u where one: "net_connect_one it w = (x, u)" by (cases "net_connect_one it w")
  with Cons meetsD [OF net_connect_one_spec one] show ?case
    by (auto intro: opens_fd_retry split: sum.splits)
qed

lemma net_bind_spec: "meets (net_bind addrs) opens_fd"
proof (cases addrs)
  case None
  then show ?thesis by (auto simp: net_bind_def run_simps opens_fd_def intro: meetsI)
next
  case (Some its)
  have m: "meets (net_bind_addrs its) opens_fd"
    by (rule meetsI, rule wpI, rule net_bind_addrs_spec)
  show ?thesis unfolding net_bind_def Some
    by (rule meetsI, simp add: run_simps, rule meets_use [OF m])
      (auto simp: run_simps opens_fd_def takes_def split: sum.splits)
qed

lemma net_connect_spec: "meets (net_connect addrs) opens_fd"
  by (cases addrs)
    (auto simp: net_connect_def failing_def opens_fd_def intro!: meetsI wpI dest: net_connect_addrs_spec)

lemma net_connect_reliable:
  "reliable w \<Longrightarrow> \<exists>fd t. net_connect (Some (it # its)) w = (Inr fd, t)"
  by (auto simp: net_connect_def net_connect_one_def sys_fd_def bindE_def onErr_def sys_def andThen_def ok_def
      split: prod.splits sum.splits)

section \<open>Properties\<close>

text \<open>C20: A buffer that went over a socket comes back whole: if the stream starts with the frame of
  a well-formed buffer, \<open>net_recv_buf\<close> returns exactly that buffer and consumes exactly its frame,
  or fails because a call it made failed, with nothing left allocated; how the bytes are split
  between reads makes no difference.\<close>

theorem net_buf_roundtrip:
  assumes run: "net_recv_buf fd w = (r, t)" and b: "buf_wf b" "rx w fd = frame_bytes b @ rest"
  shows "(case r of
      Inl e \<Rightarrow> e = -1 \<and> takes w t [] \<and> \<not> reliable w
    | Inr c \<Rightarrow> c = b \<and> rx t fd = rest \<and> takes w t [Mem ''data'', Mem ''buf''])"
proof (cases r)
  case (Inl e)
  with net_recv_buf_spec [OF run] b show ?thesis by auto
next
  case (Inr c)
  with net_recv_buf_spec [OF run] have "buf_wf c" "rx w fd = frame_bytes c @ rx t fd"
    "takes w t [Mem ''data'', Mem ''buf'']" by auto
  with frame_bytes_inj [of c b "rx t fd" rest] b Inr show ?thesis by simp
qed

theorem net_buf_roundtrip_witness:
  "fst (net_recv_buf 3 (sample_world\<lparr>answers := [1, 2, 1],
     rx := (\<lambda>_. frame_bytes \<lparr>buf_size = 2, buf_data = ''hi''\<rparr> @ ''more'')\<rparr>)) =
   Inr \<lparr>buf_size = 2, buf_data = ''hi''\<rparr>"
proof -
  let ?b = "\<lparr>buf_size = 2, buf_data = ''hi''\<rparr>"
  let ?w = "sample_world\<lparr>answers := [1, 2, 1], rx := (\<lambda>_. frame_bytes ?b @ ''more'')\<rparr>"
  obtain r t where rt: "net_recv_buf 3 ?w = (r, t)" by (cases "net_recv_buf 3 ?w")
  have "buf_wf ?b" "reliable ?w" by (simp_all add: buf_wf_def reliable_def)
  with net_buf_roundtrip [OF rt, of ?b "''more''"] rt show ?thesis by (cases r) simp_all
qed

text \<open>Sending a buffer is all or a strict prefix: on success exactly the frame was accepted by
  the socket it was meant for, on failure a strict prefix of it, and no other socket got anything;
  it fails only if a call fails.\<close>

theorem net_send_all_or_prefix:
  assumes "net_send_buf fd b w = (r, t)"
  shows "\<exists>bs rest. frame_bytes b = bs @ rest \<and> sent fd (trace t) = sent fd (trace w) @ bs \<and>
    (is_ok r \<longleftrightarrow> rest = []) \<and> (reliable w \<longrightarrow> is_ok r) \<and> takes w t [] \<and>
    (\<forall>d. d \<noteq> fd \<longrightarrow> sent d (trace t) = sent d (trace w))"
proof -
  from meetsD [OF net_send_buf_spec assms] obtain bs rest where
    "frame_bytes b = bs @ rest" "sent fd (trace t) = sent fd (trace w) @ bs"
    "is_ok r \<longleftrightarrow> rest = []"
    by (cases r) auto
  with meetsD [OF net_send_buf_spec assms] show ?thesis by blast
qed

theorem net_send_all_or_prefix_witness:
  "sent 4 (trace (snd (net_send_buf 4 \<lparr>buf_size = 2, buf_data = ''hi''\<rparr>
     (sample_world\<lparr>answers := [3, 1, 1]\<rparr>)))) = frame_bytes \<lparr>buf_size = 2, buf_data = ''hi''\<rparr>"
proof -
  let ?b = "\<lparr>buf_size = 2, buf_data = ''hi''\<rparr>" and ?w = "sample_world\<lparr>answers := [3, 1, 1]\<rparr>"
  obtain r t where rt: "net_send_buf 4 ?b ?w = (r, t)" by (cases "net_send_buf 4 ?b ?w")
  have "reliable ?w" by (simp add: reliable_def)
  with net_send_all_or_prefix [OF rt] rt show ?thesis by (auto simp: sample_world_def)
qed

text \<open>Opening a listening or a connected socket yields one new descriptor, or an error and no
  descriptor at all: of the candidate addresses that were tried before, every socket is closed.\<close>

theorem sockets_not_leaked:
  assumes "net_bind addrs w = (r, t) \<or> net_connect addrs w = (r, t)"
  shows "(case r of Inl e \<Rightarrow> e < 0 \<and> takes w t [] | Inr fd \<Rightarrow> 0 \<le> fd \<and> takes w t [Desc fd])"
  using assms meetsD [OF net_bind_spec] meetsD [OF net_connect_spec]
  by (fastforce simp: opens_fd_def)

theorem sockets_not_leaked_witness:
  "fst (net_connect (Some [\<lparr>ai_inet6 = True\<rparr>, \<lparr>ai_inet6 = False\<rparr>])
     (sample_world\<lparr>answers := [5, -1, 6]\<rparr>)) = Inr 6 \<and>
   bal (trace (snd (net_connect (Some [\<lparr>ai_inet6 = True\<rparr>, \<lparr>ai_inet6 = False\<rparr>])
     (sample_world\<lparr>answers := [5, -1, 6]\<rparr>)))) (Desc 5) = 0"
proof -
  let ?w = "sample_world\<lparr>answers := [5, -1, 6]\<rparr>"
  let ?a = "Some [\<lparr>ai_inet6 = True\<rparr>, \<lparr>ai_inet6 = False\<rparr>]"
  obtain r t where rt: "net_connect ?a ?w = (r, t)" by (cases "net_connect ?a ?w")
  have r: "r = Inr 6"
    using rt by (simp add: net_connect_def net_connect_one_def sys_fd_def bindE_def onErr_def
        sys_def andThen_def ok_def answer_def used_def emit_def)
  with sockets_not_leaked [of ?a ?w r t] rt have "takes ?w t [Desc 6]" by simp
  with r rt show ?thesis by (simp add: takes_def sample_world_def)
qed

end
