(* ===== verification/Json.thy ===== *)
theory Json
  imports Net
begin

text \<open>
  \<open>src/json.c\<close>: the wrappers around json-c. json-c itself is not part of the sources: its
  functions are the record \<open>jsonc\<close>, an argument of every definition, and \<open>jsonc_ok\<close> states
  what its documentation promises. A JSON object is a value of an arbitrary type \<open>'j\<close>; a
  function that updates an object in place returns the updated value. A live object counts
  as the resource \<open>Json\<close>; adding a value to a container hands it over (\<open>Give\<close>), and
  \<open>json_object_put\<close> releases a root with everything in it. Keys and strings are C strings: what
  json-c takes and returns ends at the first NUL, so \<open>get_string\<close> is the text before it, and
  \<open>new_string\<close> is never called on a text with a NUL.
\<close>

datatype json_type =
    json_type_null | json_type_boolean | json_type_double | json_type_int
  | json_type_object | json_type_array | json_type_string

record 'j jsonc =
  new_object :: 'j
  new_array :: 'j
  new_string :: "string \<Rightarrow> 'j"
  new_int64 :: "int \<Rightarrow> 'j"
  json_null :: 'j
  is_type :: "'j \<Rightarrow> json_type \<Rightarrow> bool"
  get_string :: "'j \<Rightarrow> string"
  get_int64 :: "'j \<Rightarrow> int option"
  object_get_ex :: "'j \<Rightarrow> string \<Rightarrow> 'j option"
  object_add_ex :: "'j \<Rightarrow> string \<Rightarrow> 'j \<Rightarrow> 'j"
  array_add :: "'j \<Rightarrow> 'j \<Rightarrow> 'j"
  array_elems :: "'j \<Rightarrow> 'j list"
  deep_copy :: "'j \<Rightarrow> 'j"
  to_json_string :: "'j \<Rightarrow> string"
  to_json_string_pretty :: "'j \<Rightarrow> string"
  tokener_parse :: "string \<Rightarrow> 'j option"

text \<open>
  The documented behaviour: types of fresh values, lookup after an update, no members outside
  objects, reading back a string or a 64-bit integer (\<open>get_int64\<close> is \<open>None\<close> where json-c sets
  \<open>errno\<close>), arrays that grow at the end, and copies that are equal to the original.
\<close>

definition jsonc_ok :: "'j jsonc \<Rightarrow> bool" where
  "jsonc_ok J \<longleftrightarrow>
     (\<forall>ty. is_type J (new_object J) ty \<longleftrightarrow> ty = json_type_object) \<and>
     (\<forall>ty. is_type J (new_array J) ty \<longleftrightarrow> ty = json_type_array) \<and>
     (\<forall>s ty. is_type J (new_string J s) ty \<longleftrightarrow> ty = json_type_string) \<and>
     (\<forall>i ty. is_type J (new_int64 J i) ty \<longleftrightarrow> ty = json_type_int) \<and>
     (\<forall>ty. is_type J (json_null J) ty \<longleftrightarrow> ty = json_type_null) \<and>
     (\<forall>s. get_string J (new_string J s) = s) \<and>
     (\<forall>i. in_int64 i \<longrightarrow> get_int64 J (new_int64 J i) = Some i) \<and>
     (\<forall>k. object_get_ex J (new_object J) k = None) \<and>
     (\<forall>v k. \<not> is_type J v json_type_object \<longrightarrow> object_get_ex J v k = None) \<and>
     (\<forall>v k x ty. is_type J v json_type_object \<longrightarrow>
        is_type J (object_add_ex J v k x) ty = is_type J v ty) \<and>
     (\<forall>v k x l. is_type J v json_type_object \<longrightarrow>
        object_get_ex J (object_add_ex J v k x) l = (if l = k then Some x else object_get_ex J v l)) \<and>
     array_elems J (new_array J) = [] \<and>
     (\<forall>v x ty. is_type J v json_type_array \<longrightarrow> is_type J (array_add J v x) ty = is_type J v ty) \<and>
     (\<forall>v x. is_type J v json_type_array \<longrightarrow>
        array_elems J (array_add J v x) = array_elems J v @ [x]) \<and>
     (\<forall>v. deep_copy J v = v)"

lemma jsonc_okD:
  assumes "jsonc_ok J"
  shows "is_type J (new_object J) ty \<longleftrightarrow> ty = json_type_object"
    "is_type J (new_array J) ty \<longleftrightarrow> ty = json_type_array"
    "is_type J (new_string J s) ty \<longleftrightarrow> ty = json_type_string"
    "is_type J (new_int64 J i) ty \<longleftrightarrow> ty = json_type_int"
    "is_type J (json_null J) ty \<longleftrightarrow> ty = json_type_null"
    "get_string J (new_string J s) = s"
    "in_int64 i \<Longrightarrow> get_int64 J (new_int64 J i) = Some i"
    "object_get_ex J (new_object J) k = None"
    "\<not> is_type J v json_type_object \<Longrightarrow> object_get_ex J v k = None"
    "is_type J v json_type_object \<Longrightarrow> is_type J (object_add_ex J v k x) ty = is_type J v ty"
    "is_type J v json_type_object \<Longrightarrow>
       object_get_ex J (object_add_ex J v k x) l = (if l = k then Some x else object_get_ex J v l)"
    "array_elems J (new_array J) = []"
    "is_type J v json_type_array \<Longrightarrow> is_type J (array_add J v x) ty = is_type J v ty"
    "is_type J v json_type_array \<Longrightarrow> array_elems J (array_add J v x) = array_elems J v @ [x]"
    "deep_copy J v = v"
  using assms unfolding jsonc_ok_def by metis+

abbreviation Json :: resource where
  "Json \<equiv> Lib ''json''"

section \<open>Creation and destruction\<close>

definition libjson_free :: "'j \<Rightarrow> 'z world_scheme \<Rightarrow> 'z world_scheme" where
  "libjson_free obj = release Json"

definition libjson_new_object :: "'j jsonc \<Rightarrow> ('z world_scheme, 'j) cfun" where
  "libjson_new_object J = bindE (alloc Json) (\<lambda>_. ok (new_object J))"

definition libjson_new_array :: "'j jsonc \<Rightarrow> ('z world_scheme, 'j) cfun" where
  "libjson_new_array J = bindE (alloc Json) (\<lambda>_. ok (new_array J))"

section \<open>Reading\<close>

definition libjson_has :: "'j jsonc \<Rightarrow> 'j \<Rightarrow> string \<Rightarrow> bool" where
  "libjson_has J obj key \<longleftrightarrow> object_get_ex J obj key \<noteq> None"

text \<open>
  The C function returns json-c's truth value, so a found key yields 1 and not 0; every
  caller tests for a negative result only.
\<close>

definition libjson_get :: "'j jsonc \<Rightarrow> 'j \<Rightarrow> string \<Rightarrow> int + 'j" where
  "libjson_get J obj key =
     (if \<not> libjson_has J obj key then Inl (-1)
      else case object_get_ex J obj key of Some v \<Rightarrow> Inr v | None \<Rightarrow> Inl 0)"

definition libjson_get_string :: "'j jsonc \<Rightarrow> 'j \<Rightarrow> string \<Rightarrow> int + string" where
  "libjson_get_string J obj key =
     (case libjson_get J obj key of
        Inl e \<Rightarrow> Inl e
      | Inr v \<Rightarrow> if \<not> is_type J v json_type_string then Inl (-1) else Inr (get_string J v))"

definition libjson_get_int :: "'j jsonc \<Rightarrow> 'j \<Rightarrow> string \<Rightarrow> int + int" where
  "libjson_get_int J obj key =
     (case libjson_get J obj key of
        Inl e \<Rightarrow> Inl e
      | Inr v \<Rightarrow>
          if \<not> is_type J v json_type_int then Inl (-1)
          else (case get_int64 J v of None \<Rightarrow> Inl (-1) | Some i \<Rightarrow> Inr i))"

definition libjson_clone :: "'j jsonc \<Rightarrow> 'j \<Rightarrow> string \<Rightarrow> ('z world_scheme, 'j) cfun" where
  "libjson_clone J obj key =
     (case libjson_get J obj key of
        Inl e \<Rightarrow> failing e
      | Inr old_value \<Rightarrow> bindE (alloc Json) (\<lambda>_. ok (deep_copy J old_value)))"

lemma libjson_get_alt:
  "libjson_get J obj key = (case object_get_ex J obj key of None \<Rightarrow> Inl (-1) | Some v \<Rightarrow> Inr v)"
  by (auto simp: libjson_get_def libjson_has_def)

section \<open>Writing\<close>

text \<open>
  Whether the key is a constant only tells json-c whether to copy it. The value is a pointer,
  null for the JSON null; it is handed over on success and stays the caller's on failure.
\<close>

definition pointee :: "'j jsonc \<Rightarrow> 'j option \<Rightarrow> 'j" where
  "pointee J p = (case p of None \<Rightarrow> json_null J | Some v \<Rightarrow> v)"

definition libjson_set_internal ::
  "'j jsonc \<Rightarrow> 'j \<Rightarrow> string \<Rightarrow> 'j option \<Rightarrow> bool \<Rightarrow> ('z world_scheme, 'j) cfun" where
  "libjson_set_internal J obj key p const_key =
     bindE sys (\<lambda>_.
       andThen (case p of None \<Rightarrow> (\<lambda>w. w) | Some _ \<Rightarrow> emit (Give Json))
         (ok (object_add_ex J obj key (pointee J p))))"

definition libjson_set_string_internal ::
  "'j jsonc \<Rightarrow> 'j \<Rightarrow> string \<Rightarrow> string \<Rightarrow> bool \<Rightarrow> ('z world_scheme, 'j) cfun" where
  "libjson_set_string_internal J obj key s const_key =
     bindE (alloc Json) (\<lambda>_.
       let v = new_string J s
       in onErr (libjson_set_internal J obj key (Some v) const_key) (libjson_free v))"

definition libjson_set_int_internal ::
  "'j jsonc \<Rightarrow> 'j \<Rightarrow> string \<Rightarrow> int \<Rightarrow> bool \<Rightarrow> ('z world_scheme, 'j) cfun" where
  "libjson_set_int_internal J obj key i const_key =
     bindE (alloc Json) (\<lambda>_.
       let v = new_int64 J i
       in onErr (libjson_set_internal J obj key (Some v) const_key) (libjson_free v))"

definition libjson_set :: "'j jsonc \<Rightarrow> 'j \<Rightarrow> string \<Rightarrow> 'j option \<Rightarrow> ('z world_scheme, 'j) cfun" where
  "libjson_set J obj key p = libjson_set_internal J obj key p False"

definition libjson_set_string :: "'j jsonc \<Rightarrow> 'j \<Rightarrow> string \<Rightarrow> string \<Rightarrow> ('z world_scheme, 'j) cfun" where
  "libjson_set_string J obj key s = libjson_set_string_internal J obj key s False"

definition libjson_set_int :: "'j jsonc \<Rightarrow> 'j \<Rightarrow> string \<Rightarrow> int \<Rightarrow> ('z world_scheme, 'j) cfun" where
  "libjson_set_int J obj key i = libjson_set_int_internal J obj key i False"

definition libjson_set_const_key ::
  "'j jsonc \<Rightarrow> 'j \<Rightarrow> string \<Rightarrow> 'j option \<Rightarrow> ('z world_scheme, 'j) cfun" where
  "libjson_set_const_key J obj key p = libjson_set_internal J obj key p True"

definition libjson_set_string_const_key ::
  "'j jsonc \<Rightarrow> 'j \<Rightarrow> string \<Rightarrow> string \<Rightarrow> ('z world_scheme, 'j) cfun" where
  "libjson_set_string_const_key J obj key s = libjson_set_string_internal J obj key s True"

definition libjson_set_int_const_key ::
  "'j jsonc \<Rightarrow> 'j \<Rightarrow> string \<Rightarrow> int \<Rightarrow> ('z world_scheme, 'j) cfun" where
  "libjson_set_int_const_key J obj key i = libjson_set_int_internal J obj key i True"

definition libjson_append :: "'j jsonc \<Rightarrow> 'j \<Rightarrow> 'j \<Rightarrow> ('z world_scheme, 'j) cfun" where
  "libjson_append J arr elem =
     bindE sys (\<lambda>_. andThen (emit (Give Json)) (ok (array_add J arr elem)))"

lemmas libjson_set_defs =
  libjson_set_def libjson_set_string_def libjson_set_int_def libjson_set_const_key_def
  libjson_set_string_const_key_def libjson_set_int_const_key_def
  libjson_set_internal_def libjson_set_string_internal_def libjson_set_int_internal_def

lemma libjson_new_object_yields: "yields (libjson_new_object J) [] [Json] (new_object J)"
  unfolding libjson_new_object_def by (rule yields_alloc_ok)

lemma libjson_new_array_yields: "yields (libjson_new_array J) [] [Json] (new_array J)"
  unfolding libjson_new_array_def by (rule yields_alloc_ok)

lemma yields_give_ok: "yields (andThen (emit (Give r)) (ok x)) [r] [] x"
  by (auto simp: yields_def andThen_def ok_def still_def swaps_def)

lemma libjson_set_internal_yields:
  "yields (libjson_set_internal J obj key p b) (case p of None \<Rightarrow> [] | Some _ \<Rightarrow> [Json]) []
     (object_add_ex J obj key (pointee J p))"
  unfolding libjson_set_internal_def
  by (rule yields_sys, cases p)
    (simp_all add: yields_give_ok, auto simp: yields_def andThen_def ok_def swaps_takes)

lemma pointee_simps [simp]: "pointee J None = json_null J" "pointee J (Some v) = v"
  by (simp_all add: pointee_def)

lemmas libjson_set_value_yields = libjson_set_internal_yields [of _ _ _ "Some v" for v, simplified]

lemma libjson_append_yields: "yields (libjson_append J arr v) [Json] [] (array_add J arr v)"
  unfolding libjson_append_def by (rule yields_sys) (rule yields_give_ok)

lemma gives_back_libjson_free [simp]: "gives_back (libjson_free v) [Json]"
  by (simp add: libjson_free_def)

lemma libjson_set_string_internal_yields:
  "yields (libjson_set_string_internal J obj key s b) [] [] (object_add_ex J obj key (new_string J s))"
  unfolding libjson_set_string_internal_def Let_def
  by (rule yields_cancel [of _ Json], rule yields_bind_onErr [where qs = "[Json]" and rs = "[]", simplified])
    (auto intro: yields_alloc libjson_set_value_yields)

lemma libjson_set_int_internal_yields:
  "yields (libjson_set_int_internal J obj key i b) [] [] (object_add_ex J obj key (new_int64 J i))"
  unfolding libjson_set_int_internal_def Let_def
  by (rule yields_cancel [of _ Json], rule yields_bind_onErr [where qs = "[Json]" and rs = "[]", simplified])
    (auto intro: yields_alloc libjson_set_value_yields)

lemmas libjson_yields =
  libjson_new_object_yields libjson_new_array_yields libjson_append_yields
  libjson_set_internal_yields [of _ _ _ _ False, folded libjson_set_def]
  libjson_set_internal_yields [of _ _ _ _ True, folded libjson_set_const_key_def]
  libjson_set_string_internal_yields [of _ _ _ _ False, folded libjson_set_string_def]
  libjson_set_string_internal_yields [of _ _ _ _ True, folded libjson_set_string_const_key_def]
  libjson_set_int_internal_yields [of _ _ _ _ False, folded libjson_set_int_def]
  libjson_set_int_internal_yields [of _ _ _ _ True, folded libjson_set_int_const_key_def]

lemma libjson_clone_yields:
  "object_get_ex J obj key = Some v \<Longrightarrow> yields (libjson_clone J obj key) [] [Json] (deep_copy J v)"
  by (simp add: libjson_clone_def libjson_get_alt yields_alloc_ok)

section \<open>Messages on a socket\<close>

text \<open>\<open>pretty\<close> says whether the flags contain \<open>JSON_C_TO_STRING_PRETTY\<close>.\<close>

definition libjson_to_string_internal ::
  "'j jsonc \<Rightarrow> 'j \<Rightarrow> bool \<Rightarrow> ('z world_scheme, string) cfun" where
  "libjson_to_string_internal J obj pretty =
     bindE nonnull (\<lambda>_. ok (if pretty then to_json_string_pretty J obj else to_json_string J obj))"

definition libjson_to_string :: "'j jsonc \<Rightarrow> 'j \<Rightarrow> ('z world_scheme, string) cfun" where
  "libjson_to_string J obj = libjson_to_string_internal J obj False"

definition libjson_to_string_pretty :: "'j jsonc \<Rightarrow> 'j \<Rightarrow> ('z world_scheme, string) cfun" where
  "libjson_to_string_pretty J obj = libjson_to_string_internal J obj True"

definition libjson_from_string :: "'j jsonc \<Rightarrow> string \<Rightarrow> ('z world_scheme, 'j) cfun" where
  "libjson_from_string J src =
     (case tokener_parse J src of
        None \<Rightarrow> failing (-1)
      | Some v \<Rightarrow> bindE (alloc Json) (\<lambda>_. ok v))"

definition libjson_send :: "'j jsonc \<Rightarrow> 'j \<Rightarrow> int \<Rightarrow> ('z world_scheme, unit) cfun" where
  "libjson_send J obj fd =
     bindE (libjson_to_string J obj) (\<lambda>str.
       bindE (buf_create_from_string str) (\<lambda>b.
         after (net_send_buf fd b) (buf_destroy b)))"

text \<open>
  The received bytes are parsed as a C string: what precedes the first NUL. If the peer sent
  none, the parser runs past the end of the block.
\<close>

definition libjson_recv :: "'j jsonc \<Rightarrow> int \<Rightarrow> ('z world_scheme, 'j) cfun" where
  "libjson_recv J fd w =
     (case net_recv_buf fd w of
        (Inl _, w1) \<Rightarrow> (Inl (-1), w1)
      | (Inr b, w1) \<Rightarrow>
          after
            (if NUL \<in> set (buf_get_data b)
             then libjson_from_string J (takeWhile (\<lambda>c. c \<noteq> NUL) (buf_get_data b))
             else andThen (undefined_behaviour ''libjson_recv: no terminating NUL'') (failing (-1)))
            (\<lambda>v. buf_destroy b (release (Mem ''data'') v))
            w1)"

text \<open>The bytes on the wire for a value, and the values that survive the trip.\<close>

definition message :: "'j jsonc \<Rightarrow> 'j \<Rightarrow> char list" where
  "message J v = frame_bytes \<lparr>buf_size = of_nat (length (to_json_string J v) + 1),
                             buf_data = to_json_string J v @ [NUL]\<rparr>"

definition wire_ok :: "'j jsonc \<Rightarrow> 'j \<Rightarrow> bool" where
  "wire_ok J v \<longleftrightarrow> tokener_parse J (to_json_string J v) = Some v \<and>
     NUL \<notin> set (to_json_string J v) \<and> length (to_json_string J v) + 1 < 2 ^ 32"

lemma message_nonempty: "message J v \<noteq> []"
  by (simp add: message_def frame_bytes_def htonl_bytes_def)

lemma libjson_to_string_yields: "yields (libjson_to_string J v) [] [] (to_json_string J v)"
  unfolding libjson_to_string_def libjson_to_string_internal_def if_False
  by (rule yields_take [OF yields_nonnull])

lemma libjson_send_spec:
  assumes run: "libjson_send J v fd w = (r, t)"
  shows "calm w t \<and> rx t = rx w \<and> (reliable w \<longrightarrow> is_ok r) \<and>
    (\<forall>d. d \<noteq> fd \<longrightarrow> sent d (trace t) = sent d (trace w)) \<and>
    (\<exists>bs cs. message J v = bs @ cs \<and> sent fd (trace t) = sent fd (trace w) @ bs \<and>
       (case r of Inl e \<Rightarrow> e < 0 \<and> cs \<noteq> [] | Inr _ \<Rightarrow> cs = []))"
proof -
  obtain x1 w1 where s: "libjson_to_string J v w = (x1, w1)" by (cases "libjson_to_string J v w")
  note ss = yieldsD [OF libjson_to_string_yields s]
  show ?thesis
  proof (cases x1)
    case (Inl e)
    with run s ss message_nonempty [of J v] show ?thesis
      by (auto simp: libjson_send_def bindE_def still_def)
  next
    case (Inr str)
    obtain x2 w2 where b: "buf_create_from_string str w1 = (x2, w2)"
      by (cases "buf_create_from_string str w1")
    note bs = yieldsD [OF buf_create_yields b [unfolded buf_create_from_string_def]]
    show ?thesis
    proof (cases x2)
      case (Inl e)
      with run s ss b bs \<open>x1 = Inr str\<close> message_nonempty [of J v] show ?thesis
        by (auto simp: libjson_send_def bindE_def still_def swaps_takes takes_def)
    next
      case (Inr bf)
      obtain x3 w3 where n: "net_send_buf fd bf w2 = (x3, w3)" by (cases "net_send_buf fd bf w2")
      note ns = meetsD [OF net_send_buf_spec n]
      have rt: "r = x3" "t = emit (Release (Mem ''buf'')) w3"
        using run s b n \<open>x1 = Inr str\<close> Inr
        by (auto simp: libjson_send_def bindE_def after_def buf_destroy_def)
      have fb: "frame_bytes bf = message J v"
        using ss bs \<open>x1 = Inr str\<close> Inr by (simp add: message_def)
      have "takes w w3 [Mem ''buf'']"
        using ss bs ns \<open>x1 = Inr str\<close> Inr by (auto simp: swaps_takes takes_def)
      then have "calm w t"
        using takes_emit(2) [of w w3 "[Mem ''buf'']" "Mem ''buf''"] rt by simp
      moreover have "reliable w \<longrightarrow> is_ok r"
        using ss bs ns rt \<open>x1 = Inr str\<close> Inr by (auto simp: swaps_takes takes_def)
      moreover obtain bs cs where "message J v = bs @ cs"
        "sent fd (trace w3) = sent fd (trace w2) @ bs"
        "case r of Inl e \<Rightarrow> e = -1 \<and> cs \<noteq> [] | Inr _ \<Rightarrow> cs = []"
        using ns fb rt by auto
      ultimately show ?thesis
        using ss bs ns rt \<open>x1 = Inr str\<close> Inr by (cases r) (auto simp: still_def)
    qed
  qed
qed

lemma libjson_from_string_spec:
  assumes run: "libjson_from_string J src w = (r, t)"
  shows "takes w t (if is_ok r then [Json] else []) \<and> still w t \<and>
    (case r of Inl e \<Rightarrow> e = -1 | Inr v \<Rightarrow> tokener_parse J src = Some v) \<and>
    (reliable w \<and> tokener_parse J src \<noteq> None \<longrightarrow> is_ok r)"
proof (cases "tokener_parse J src")
  case None
  with run show ?thesis by (auto simp: libjson_from_string_def failing_def)
next
  case (Some v)
  with run show ?thesis
    by (auto simp: libjson_from_string_def bindE_def alloc_def ok_def takes_def still_def
        split: if_splits)
qed

text \<open>
  Receiving takes one frame off the stream; unless the frame lacks a NUL, nothing is undefined
  and nothing but the parsed object stays allocated.
\<close>

lemma libjson_recv_spec:
  assumes run: "libjson_recv J fd w = (r, t)"
  shows "world.more t = world.more w \<and> (reliable w \<longrightarrow> reliable t) \<and> (lucky w \<longrightarrow> lucky t) \<and>
    (\<forall>d. d \<noteq> fd \<longrightarrow> rx t d = rx w d) \<and> (\<forall>d. sent d (trace t) = sent d (trace w)) \<and>
    (\<forall>q. bal (trace t) q = bal (trace w) q + (if is_ok r \<and> q = Json then 1 else 0)) \<and>
    (undef (trace t) = undef (trace w) \<or>
       (\<exists>b rest. buf_wf b \<and> rx w fd = frame_bytes b @ rest \<and> NUL \<notin> set (buf_data b))) \<and>
    (case r of
       Inl e \<Rightarrow> e = -1
     | Inr v \<Rightarrow> \<exists>b. buf_wf b \<and> rx w fd = frame_bytes b @ rx t fd \<and> NUL \<in> set (buf_data b) \<and>
         tokener_parse J (takeWhile (\<lambda>c. c \<noteq> NUL) (buf_data b)) = Some v)"
proof -
  obtain x1 w1 where n: "net_recv_buf fd w = (x1, w1)" by (cases "net_recv_buf fd w")
  note ns = net_recv_buf_spec [OF n]
  show ?thesis
  proof (cases x1)
    case (Inl e)
    with run n ns show ?thesis by (auto simp: libjson_recv_def takes_def)
  next
    case (Inr b)
    show ?thesis
    proof (cases "NUL \<in> set (buf_data b)")
      case False
      with run n ns Inr have "r = Inl (-1)" "t = emit (Release (Mem ''buf'')) (emit (Release (Mem ''data''))
          (emit (Undefined ''libjson_recv: no terminating NUL'') w1))"
        by (auto simp: libjson_recv_def buf_accessors after_def andThen_def failing_def buf_destroy_def)
      with ns Inr False show ?thesis by (auto simp: takes_def)
    next
      case True
      let ?src = "takeWhile (\<lambda>c. c \<noteq> NUL) (buf_data b)"
      obtain x2 w2 where p: "libjson_from_string J ?src w1 = (x2, w2)"
        by (cases "libjson_from_string J ?src w1")
      note ps = libjson_from_string_spec [OF p]
      have rt: "r = x2" "t = emit (Release (Mem ''buf'')) (emit (Release (Mem ''data'')) w2)"
        using run n Inr True p
        by (auto simp: libjson_recv_def buf_accessors after_def buf_destroy_def)
      with ns ps Inr True show ?thesis
        by (cases r) (auto simp: takes_def still_def)
    qed
  qed
qed

lemma message_buf_wf:
  "wire_ok J v \<Longrightarrow> buf_wf \<lparr>buf_size = of_nat (length (to_json_string J v) + 1),
                          buf_data = to_json_string J v @ [NUL]\<rparr>"
  by (simp add: wire_ok_def buf_wf_def unsigned_of_nat take_bit_nat_eq_self del: of_nat_Suc of_nat_add)

lemma takeWhile_c_string: "NUL \<notin> set s \<Longrightarrow> takeWhile (\<lambda>c. c \<noteq> NUL) (s @ [NUL]) = s"
  by (induction s) auto

text \<open>A value that went out in full comes in unchanged.\<close>

lemma libjson_recv_message:
  assumes run: "libjson_recv J fd w = (r, t)" and wire: "wire_ok J v"
    and stream: "rx w fd = message J v @ rest"
  shows "undef (trace t) = undef (trace w)"
    and "r = Inr x \<Longrightarrow> x = v \<and> rx t fd = rest"
    and "reliable w \<Longrightarrow> r = Inr v"
proof -
  define b where "b = \<lparr>buf_size = of_nat (length (to_json_string J v) + 1) :: 32 word,
                       buf_data = to_json_string J v @ [NUL]\<rparr>"
  have b: "buf_wf b" "rx w fd = frame_bytes b @ rest" "NUL \<in> set (buf_data b)"
    "takeWhile (\<lambda>c. c \<noteq> NUL) (buf_data b) = to_json_string J v"
    using wire stream message_buf_wf [OF wire]
    by (simp_all add: b_def message_def wire_ok_def takeWhile_c_string)
  note rs = libjson_recv_spec [OF run]
  have uniq: "c = b \<and> ys = rest" if "buf_wf c" "rx w fd = frame_bytes c @ ys" for c ys
    using frame_bytes_inj [OF that(1) b(1)] that(2) b(2) by metis
  show "undef (trace t) = undef (trace w)"
    using rs uniq b(3) by blast
  show got: "x = v \<and> rx t fd = rest" if x: "r = Inr x" for x
  proof -
    from rs x obtain c where "buf_wf c" "rx w fd = frame_bytes c @ rx t fd"
      and p: "tokener_parse J (takeWhile (\<lambda>c. c \<noteq> NUL) (buf_data c)) = Some x" by auto
    with uniq have "c = b" "rx t fd = rest" by blast+
    with p b(4) wire show ?thesis by (simp add: wire_ok_def)
  qed
  assume rel: "reliable w"
  obtain x1 w1 where n: "net_recv_buf fd w = (x1, w1)" by (cases "net_recv_buf fd w")
  note ns = net_recv_buf_spec [OF n]
  from ns rel b obtain c where c: "x1 = Inr c" "reliable w1" by (cases x1) (auto simp: takes_def)
  with ns uniq have "c = b" by auto
  obtain x2 w2 where p: "libjson_from_string J (to_json_string J v) w1 = (x2, w2)"
    by (cases "libjson_from_string J (to_json_string J v) w1")
  with run n c \<open>c = b\<close> b have "r = x2"
    by (auto simp: libjson_recv_def buf_accessors after_def)
  with libjson_from_string_spec [OF p] c wire have "is_ok r" by (auto simp: wire_ok_def)
  then show "r = Inr v" using got by (cases r) auto
qed

text \<open>\<open>arrives\<close>: one whole message was taken off the stream and \<open>v\<close> is what it parses to.\<close>

definition arrives :: "'j jsonc \<Rightarrow> 'z world_scheme \<Rightarrow> int \<Rightarrow> 'z world_scheme \<Rightarrow> 'j \<Rightarrow> bool" where
  "arrives J w fd t v \<longleftrightarrow> (\<exists>b. buf_wf b \<and> rx w fd = frame_bytes b @ rx t fd \<and>
     NUL \<in> set (buf_data b) \<and> tokener_parse J (takeWhile (\<lambda>c. c \<noteq> NUL) (buf_data b)) = Some v)"

text \<open>The peer sent a frame whose payload is not a C string.\<close>

definition unterminated :: "'z world_scheme \<Rightarrow> int \<Rightarrow> bool" where
  "unterminated w fd \<longleftrightarrow>
     (\<exists>b rest. buf_wf b \<and> rx w fd = frame_bytes b @ rest \<and> NUL \<notin> set (buf_data b))"

text \<open>No whole frame on the stream has a payload that is not a C string.\<close>

definition c_strings :: "char list \<Rightarrow> bool" where
  "c_strings bs \<longleftrightarrow> \<not> (\<exists>b rest. buf_wf b \<and> bs = frame_bytes b @ rest \<and> NUL \<notin> set (buf_data b))"

lemma unterminated_iff: "unterminated w fd \<longleftrightarrow> \<not> c_strings (rx w fd)"
  by (simp add: unterminated_def c_strings_def)

lemma libjson_recv_takes:
  assumes run: "libjson_recv J fd w = (r, t)" and safe: "\<not> unterminated w fd"
  shows "takes w t (if is_ok r then [Json] else [])" "\<forall>d. d \<noteq> fd \<longrightarrow> rx t d = rx w d"
    "\<forall>d. sent d (trace t) = sent d (trace w)" "r = Inr v \<Longrightarrow> arrives J w fd t v"
    "r = Inl e \<Longrightarrow> e < 0"
proof -
  have "undef (trace t) = undef (trace w)"
    using libjson_recv_spec [OF run] safe by (auto simp: unterminated_def)
  then show "takes w t (if is_ok r then [Json] else [])"
    using libjson_recv_spec [OF run] by (auto simp: takes_def)
qed (use libjson_recv_spec [OF run] in \<open>auto simp: arrives_def split: sum.splits\<close>)

lemma message_terminated:
  assumes "wire_ok J v" "rx w fd = message J v @ rest"
  shows "\<not> unterminated w fd"
proof
  assume "unterminated w fd"
  then obtain b ys where "buf_wf b" "rx w fd = frame_bytes b @ ys" "NUL \<notin> set (buf_data b)"
    by (auto simp: unterminated_def)
  with assms frame_bytes_inj [OF _ message_buf_wf [OF assms(1)], of b ys rest]
  show False by (auto simp: message_def)
qed

end
