(* ===== verification/JsonRpc.thy ===== *)
theory JsonRpc
  imports Json
begin

text \<open>
  \<open>src/json_rpc.c\<close>: JSON-RPC requests, notifications, responses and errors as json-c objects;
  their creation, the checks applied to what arrives, parameters, sending and receiving.
\<close>

record 'j jsonrpc_request =
  req_impl :: 'j

record 'j jsonrpc_response =
  resp_impl :: 'j

abbreviation jsonrpc_key_version :: string where "jsonrpc_key_version \<equiv> ''jsonrpc''"
abbreviation jsonrpc_key_id :: string where "jsonrpc_key_id \<equiv> ''id''"
abbreviation jsonrpc_key_method :: string where "jsonrpc_key_method \<equiv> ''method''"
abbreviation jsonrpc_key_params :: string where "jsonrpc_key_params \<equiv> ''params''"
abbreviation jsonrpc_key_result :: string where "jsonrpc_key_result \<equiv> ''result''"
abbreviation jsonrpc_key_error :: string where "jsonrpc_key_error \<equiv> ''error''"
abbreviation jsonrpc_key_code :: string where "jsonrpc_key_code \<equiv> ''code''"
abbreviation jsonrpc_key_message :: string where "jsonrpc_key_message \<equiv> ''message''"
abbreviation jsonrpc_value_version :: string where "jsonrpc_value_version \<equiv> ''2.0''"

abbreviation Request :: resource where "Request \<equiv> Mem ''jsonrpc_request''"
abbreviation Response :: resource where "Response \<equiv> Mem ''jsonrpc_response''"

section \<open>Checks\<close>

definition jsonrpc_check_version :: "'j jsonc \<Rightarrow> 'j \<Rightarrow> int + unit" where
  "jsonrpc_check_version J obj =
     (case libjson_get_string J obj jsonrpc_key_version of
        Inl e \<Rightarrow> Inl e
      | Inr version \<Rightarrow> if version \<noteq> jsonrpc_value_version then Inl (-1) else Inr ())"

definition jsonrpc_check_id_type :: "'j jsonc \<Rightarrow> 'j \<Rightarrow> int + unit" where
  "jsonrpc_check_id_type J i =
     (if \<not> is_type J i json_type_string \<and> \<not> is_type J i json_type_int then Inl (-1) else Inr ())"

definition jsonrpc_check_id :: "'j jsonc \<Rightarrow> 'j \<Rightarrow> bool \<Rightarrow> int + unit" where
  "jsonrpc_check_id J obj required =
     (if \<not> libjson_has J obj jsonrpc_key_id then (if \<not> required then Inr () else Inl (-1))
      else (case libjson_get J obj jsonrpc_key_id of
              Inl e \<Rightarrow> Inl e
            | Inr i \<Rightarrow> jsonrpc_check_id_type J i))"

definition jsonrpc_check_method :: "'j jsonc \<Rightarrow> 'j \<Rightarrow> int + unit" where
  "jsonrpc_check_method J obj =
     (case libjson_get_string J obj jsonrpc_key_method of Inl e \<Rightarrow> Inl e | Inr _ \<Rightarrow> Inr ())"

definition jsonrpc_check_params_type :: "'j jsonc \<Rightarrow> 'j \<Rightarrow> int + unit" where
  "jsonrpc_check_params_type J params =
     (if \<not> is_type J params json_type_object \<and> \<not> is_type J params json_type_array
      then Inl (-1) else Inr ())"

definition jsonrpc_check_params :: "'j jsonc \<Rightarrow> 'j \<Rightarrow> int + unit" where
  "jsonrpc_check_params J obj =
     (if \<not> libjson_has J obj jsonrpc_key_params then Inr ()
      else (case libjson_get J obj jsonrpc_key_params of
              Inl e \<Rightarrow> Inl e
            | Inr params \<Rightarrow> jsonrpc_check_params_type J params))"

definition jsonrpc_check_error :: "'j jsonc \<Rightarrow> 'j \<Rightarrow> int + unit" where
  "jsonrpc_check_error J obj =
     (case libjson_get J obj jsonrpc_key_error of
        Inl e \<Rightarrow> Inl e
      | Inr error \<Rightarrow>
          (case libjson_get_int J error jsonrpc_key_code of
             Inl _ \<Rightarrow> Inl (-1)
           | Inr _ \<Rightarrow>
               (case libjson_get_string J error jsonrpc_key_message of
                  Inl _ \<Rightarrow> Inl (-1)
                | Inr _ \<Rightarrow> Inr ())))"

definition jsonrpc_check_result_or_error :: "'j jsonc \<Rightarrow> 'j \<Rightarrow> int + unit" where
  "jsonrpc_check_result_or_error J obj =
     (if \<not> libjson_has J obj jsonrpc_key_result \<and> \<not> libjson_has J obj jsonrpc_key_error then Inl (-1)
      else if libjson_has J obj jsonrpc_key_result then Inr ()
      else jsonrpc_check_error J obj)"

section \<open>Requests\<close>

definition jsonrpc_set_version :: "'j jsonc \<Rightarrow> 'j \<Rightarrow> ('z world_scheme, 'j) cfun" where
  "jsonrpc_set_version J obj =
     libjson_set_string_const_key J obj jsonrpc_key_version jsonrpc_value_version"

definition jsonrpc_set_id :: "'j jsonc \<Rightarrow> 'j \<Rightarrow> int \<Rightarrow> ('z world_scheme, 'j) cfun" where
  "jsonrpc_set_id J obj i = libjson_set_int_const_key J obj jsonrpc_key_id i"

definition jsonrpc_set_method :: "'j jsonc \<Rightarrow> 'j \<Rightarrow> string \<Rightarrow> ('z world_scheme, 'j) cfun" where
  "jsonrpc_set_method J obj method = libjson_set_string_const_key J obj jsonrpc_key_method method"

definition jsonrpc_set_params :: "'j jsonc \<Rightarrow> 'j \<Rightarrow> 'j \<Rightarrow> ('z world_scheme, 'j) cfun" where
  "jsonrpc_set_params J obj params =
     bindE (pureE (jsonrpc_check_params_type J params)) (\<lambda>_.
       libjson_set_const_key J obj jsonrpc_key_params (Some params))"

text \<open>The atomic post-increment of \<open>jsonrpc_id_counter\<close>.\<close>

definition jsonrpc_generate_request_id :: "('z world_scheme, int) cfun" where
  "jsonrpc_generate_request_id w = (Inr (rpc_id w), w\<lparr>rpc_id := int32 (rpc_id w + 1)\<rparr>)"

definition jsonrpc_request_create_internal ::
  "'j jsonc \<Rightarrow> int option \<Rightarrow> string \<Rightarrow> 'j option \<Rightarrow> ('z world_scheme, 'j jsonrpc_request) cfun" where
  "jsonrpc_request_create_internal J i method params =
     bindE (alloc Request) (\<lambda>_.
       onErr
         (bindE (libjson_new_object J) (\<lambda>impl.
            onErr
              (bindE (jsonrpc_set_version J impl) (\<lambda>impl1.
               bindE (case i of None \<Rightarrow> ok impl1 | Some n \<Rightarrow> jsonrpc_set_id J impl1 n) (\<lambda>impl2.
               bindE (jsonrpc_set_method J impl2 method) (\<lambda>impl3.
               bindE (case params of None \<Rightarrow> ok impl3 | Some p \<Rightarrow> jsonrpc_set_params J impl3 p)
                 (\<lambda>impl4. ok \<lparr>req_impl = impl4\<rparr>)))))
              (libjson_free impl)))
         (release Request))"

definition jsonrpc_request_create ::
  "'j jsonc \<Rightarrow> int \<Rightarrow> string \<Rightarrow> 'j option \<Rightarrow> ('z world_scheme, 'j jsonrpc_request) cfun" where
  "jsonrpc_request_create J i method params =
     jsonrpc_request_create_internal J (Some i) method params"

definition jsonrpc_notification_create ::
  "'j jsonc \<Rightarrow> string \<Rightarrow> 'j option \<Rightarrow> ('z world_scheme, 'j jsonrpc_request) cfun" where
  "jsonrpc_notification_create J method params =
     jsonrpc_request_create_internal J None method params"

definition jsonrpc_request_destroy ::
  "'j jsonrpc_request \<Rightarrow> 'z world_scheme \<Rightarrow> 'z world_scheme" where
  "jsonrpc_request_destroy request w = release Request (libjson_free (req_impl request) w)"

definition jsonrpc_request_is_notification :: "'j jsonc \<Rightarrow> 'j jsonrpc_request \<Rightarrow> bool" where
  "jsonrpc_request_is_notification J request \<longleftrightarrow> \<not> libjson_has J (req_impl request) jsonrpc_key_id"

definition jsonrpc_request_from_json ::
  "'j jsonc \<Rightarrow> 'j \<Rightarrow> ('z world_scheme, 'j jsonrpc_request) cfun" where
  "jsonrpc_request_from_json J impl =
     bindE (pureE (jsonrpc_check_version J impl)) (\<lambda>_.
     bindE (pureE (jsonrpc_check_id J impl False)) (\<lambda>_.
     bindE (pureE (jsonrpc_check_method J impl)) (\<lambda>_.
     bindE (pureE (jsonrpc_check_params J impl)) (\<lambda>_.
     bindE (alloc Request) (\<lambda>_. ok \<lparr>req_impl = impl\<rparr>)))))"

definition jsonrpc_request_send ::
  "'j jsonc \<Rightarrow> 'j jsonrpc_request \<Rightarrow> int \<Rightarrow> ('z world_scheme, unit) cfun" where
  "jsonrpc_request_send J request fd = libjson_send J (req_impl request) fd"

definition jsonrpc_request_recv ::
  "'j jsonc \<Rightarrow> int \<Rightarrow> ('z world_scheme, 'j jsonrpc_request) cfun" where
  "jsonrpc_request_recv J fd =
     bindE (libjson_recv J fd) (\<lambda>impl. onErr (jsonrpc_request_from_json J impl) (libjson_free impl))"

definition jsonrpc_request_get_method :: "'j jsonc \<Rightarrow> 'j jsonrpc_request \<Rightarrow> string option" where
  "jsonrpc_request_get_method J request =
     (case libjson_get_string J (req_impl request) jsonrpc_key_method of
        Inl _ \<Rightarrow> None
      | Inr method \<Rightarrow> Some method)"

section \<open>Parameters\<close>

text \<open>
  \<open>params\<close> is a pointer into the request: the function yields it together with the request
  that now holds it, and a later update of \<open>params\<close> is written back to the request's member,
  which is what the update through the pointer does.
\<close>

definition jsonrpc_request_create_params ::
  "'j jsonc \<Rightarrow> 'j jsonrpc_request \<Rightarrow> ('z world_scheme, 'j \<times> 'j jsonrpc_request) cfun" where
  "jsonrpc_request_create_params J request =
     (if \<not> libjson_has J (req_impl request) jsonrpc_key_params then
        bindE (libjson_new_object J) (\<lambda>params.
          onErr
            (bindE (libjson_set J (req_impl request) jsonrpc_key_params (Some params)) (\<lambda>impl.
               ok (params, request\<lparr>req_impl := impl\<rparr>)))
            (libjson_free params))
      else
        (case libjson_get J (req_impl request) jsonrpc_key_params of
           Inl e \<Rightarrow> failing e
         | Inr params \<Rightarrow> ok (params, request)))"

definition update_params ::
  "'j jsonc \<Rightarrow> 'j jsonrpc_request \<Rightarrow> 'j \<Rightarrow> 'j jsonrpc_request" where
  "update_params J request params =
     request\<lparr>req_impl := object_add_ex J (req_impl request) jsonrpc_key_params params\<rparr>"

definition jsonrpc_request_get_param_string ::
  "'j jsonc \<Rightarrow> 'j jsonrpc_request \<Rightarrow> string \<Rightarrow> int + string" where
  "jsonrpc_request_get_param_string J request name =
     (case libjson_get J (req_impl request) jsonrpc_key_params of
        Inl e \<Rightarrow> Inl e
      | Inr params \<Rightarrow> libjson_get_string J params name)"

definition jsonrpc_request_set_param_string ::
  "'j jsonc \<Rightarrow> 'j jsonrpc_request \<Rightarrow> string \<Rightarrow> string \<Rightarrow> ('z world_scheme, 'j jsonrpc_request) cfun" where
  "jsonrpc_request_set_param_string J request name s w =
     (case jsonrpc_request_create_params J request w of
        (Inl _, t) \<Rightarrow> (Inl (-1), t)
      | (Inr (params, req), t) \<Rightarrow>
          bindE (libjson_set_string J params name s) (\<lambda>params'. ok (update_params J req params')) t)"

definition jsonrpc_request_get_param_int ::
  "'j jsonc \<Rightarrow> 'j jsonrpc_request \<Rightarrow> string \<Rightarrow> int + int" where
  "jsonrpc_request_get_param_int J request name =
     (case libjson_get J (req_impl request) jsonrpc_key_params of
        Inl e \<Rightarrow> Inl e
      | Inr params \<Rightarrow> libjson_get_int J params name)"

definition jsonrpc_request_set_param_int ::
  "'j jsonc \<Rightarrow> 'j jsonrpc_request \<Rightarrow> string \<Rightarrow> int \<Rightarrow> ('z world_scheme, 'j jsonrpc_request) cfun" where
  "jsonrpc_request_set_param_int J request name i w =
     (case jsonrpc_request_create_params J request w of
        (Inl _, t) \<Rightarrow> (Inl (-1), t)
      | (Inr (params, req), t) \<Rightarrow>
          bindE (libjson_set_int J params name i) (\<lambda>params'. ok (update_params J req params')) t)"

section \<open>Responses\<close>

definition jsonrpc_response_to_string ::
  "'j jsonc \<Rightarrow> 'j jsonrpc_response \<Rightarrow> ('z world_scheme, string) cfun" where
  "jsonrpc_response_to_string J response = libjson_to_string_pretty J (resp_impl response)"

definition jsonrpc_response_create_internal ::
  "'j jsonc \<Rightarrow> 'j jsonrpc_request \<Rightarrow> 'j option \<Rightarrow> 'j option \<Rightarrow>
     ('z world_scheme, 'j jsonrpc_response) cfun" where
  "jsonrpc_response_create_internal J request result error =
     bindE (alloc Response) (\<lambda>_.
       onErr
         (bindE (libjson_new_object J) (\<lambda>impl.
            onErr
              (bindE (jsonrpc_set_version J impl) (\<lambda>impl1.
               bindE (libjson_clone J (req_impl request) jsonrpc_key_id) (\<lambda>i.
               bindE (onErr (libjson_set J impl1 jsonrpc_key_id (Some i)) (libjson_free i)) (\<lambda>impl2.
               bindE (if error \<noteq> None then libjson_set_const_key J impl2 jsonrpc_key_error error
                      else libjson_set_const_key J impl2 jsonrpc_key_result result)
                 (\<lambda>impl3. ok \<lparr>resp_impl = impl3\<rparr>)))))
              (libjson_free impl)))
         (release Response))"

definition jsonrpc_response_create ::
  "'j jsonc \<Rightarrow> 'j jsonrpc_request \<Rightarrow> 'j option \<Rightarrow> ('z world_scheme, 'j jsonrpc_response) cfun" where
  "jsonrpc_response_create J request result =
     jsonrpc_response_create_internal J request result None"

definition jsonrpc_response_destroy ::
  "'j jsonrpc_response \<Rightarrow> 'z world_scheme \<Rightarrow> 'z world_scheme" where
  "jsonrpc_response_destroy response w = release Response (libjson_free (resp_impl response) w)"

definition jsonrpc_error_create ::
  "'j jsonc \<Rightarrow> 'j jsonrpc_request \<Rightarrow> int \<Rightarrow> string \<Rightarrow> ('z world_scheme, 'j jsonrpc_response) cfun" where
  "jsonrpc_error_create J request code msg =
     bindE (libjson_new_object J) (\<lambda>error.
       onErr
         (bindE (libjson_set_int_const_key J error jsonrpc_key_code code) (\<lambda>error1.
          bindE (libjson_set_string_const_key J error1 jsonrpc_key_message msg) (\<lambda>error2.
          jsonrpc_response_create_internal J request None (Some error2))))
         (libjson_free error))"

definition jsonrpc_response_is_error :: "'j jsonc \<Rightarrow> 'j jsonrpc_response \<Rightarrow> bool" where
  "jsonrpc_response_is_error J response \<longleftrightarrow> libjson_has J (resp_impl response) jsonrpc_key_error"

definition jsonrpc_response_from_json ::
  "'j jsonc \<Rightarrow> 'j \<Rightarrow> ('z world_scheme, 'j jsonrpc_response) cfun" where
  "jsonrpc_response_from_json J impl =
     bindE (pureE (jsonrpc_check_version J impl)) (\<lambda>_.
     bindE (pureE (jsonrpc_check_id J impl True)) (\<lambda>_.
     bindE (pureE (jsonrpc_check_result_or_error J impl)) (\<lambda>_.
     bindE (alloc Response) (\<lambda>_. ok \<lparr>resp_impl = impl\<rparr>))))"

definition jsonrpc_response_send ::
  "'j jsonc \<Rightarrow> 'j jsonrpc_response \<Rightarrow> int \<Rightarrow> ('z world_scheme, unit) cfun" where
  "jsonrpc_response_send J response fd = libjson_send J (resp_impl response) fd"

definition jsonrpc_response_recv ::
  "'j jsonc \<Rightarrow> int \<Rightarrow> ('z world_scheme, 'j jsonrpc_response) cfun" where
  "jsonrpc_response_recv J fd =
     bindE (libjson_recv J fd) (\<lambda>impl. onErr (jsonrpc_response_from_json J impl) (libjson_free impl))"

section \<open>What is accepted\<close>

text \<open>The requests and responses the JSON-RPC 2.0 format allows, as far as the code checks it.\<close>

definition valid_version :: "'j jsonc \<Rightarrow> 'j \<Rightarrow> bool" where
  "valid_version J v \<longleftrightarrow> (\<exists>x. object_get_ex J v ''jsonrpc'' = Some x \<and>
     is_type J x json_type_string \<and> get_string J x = ''2.0'')"

definition valid_id :: "'j jsonc \<Rightarrow> 'j \<Rightarrow> bool" where
  "valid_id J i \<longleftrightarrow> is_type J i json_type_string \<or> is_type J i json_type_int"

definition valid_request :: "'j jsonc \<Rightarrow> 'j \<Rightarrow> bool" where
  "valid_request J v \<longleftrightarrow> valid_version J v \<and>
     (\<forall>i. object_get_ex J v ''id'' = Some i \<longrightarrow> valid_id J i) \<and>
     (\<exists>m. object_get_ex J v ''method'' = Some m \<and> is_type J m json_type_string) \<and>
     (\<forall>p. object_get_ex J v ''params'' = Some p \<longrightarrow>
        is_type J p json_type_object \<or> is_type J p json_type_array)"

definition valid_error :: "'j jsonc \<Rightarrow> 'j \<Rightarrow> bool" where
  "valid_error J e \<longleftrightarrow>
     (\<exists>c i. object_get_ex J e ''code'' = Some c \<and> is_type J c json_type_int \<and> get_int64 J c = Some i) \<and>
     (\<exists>m. object_get_ex J e ''message'' = Some m \<and> is_type J m json_type_string)"

definition valid_response :: "'j jsonc \<Rightarrow> 'j \<Rightarrow> bool" where
  "valid_response J v \<longleftrightarrow> valid_version J v \<and>
     (\<exists>i. object_get_ex J v ''id'' = Some i \<and> valid_id J i) \<and>
     (object_get_ex J v ''result'' \<noteq> None \<or>
        (\<exists>e. object_get_ex J v ''error'' = Some e \<and> valid_error J e))"

lemmas jsonrpc_checks =
  jsonrpc_check_version_def jsonrpc_check_id_def jsonrpc_check_id_type_def jsonrpc_check_method_def
  jsonrpc_check_params_def jsonrpc_check_params_type_def jsonrpc_check_error_def
  jsonrpc_check_result_or_error_def libjson_get_string_def libjson_get_int_def libjson_get_alt
  libjson_has_def

lemma jsonrpc_check_version_spec: "is_ok (jsonrpc_check_version J v) = valid_version J v"
  by (auto simp: jsonrpc_checks valid_version_def split: option.splits if_splits)

lemma jsonrpc_check_id_spec:
  "is_ok (jsonrpc_check_id J v required) \<longleftrightarrow>
     (case object_get_ex J v ''id'' of None \<Rightarrow> \<not> required | Some i \<Rightarrow> valid_id J i)"
  by (auto simp: jsonrpc_checks valid_id_def split: option.splits if_splits)

lemma jsonrpc_check_method_spec:
  "is_ok (jsonrpc_check_method J v) \<longleftrightarrow>
     (\<exists>m. object_get_ex J v ''method'' = Some m \<and> is_type J m json_type_string)"
  by (auto simp: jsonrpc_checks split: option.splits if_splits)

lemma jsonrpc_check_params_spec:
  "is_ok (jsonrpc_check_params J v) \<longleftrightarrow>
     (\<forall>p. object_get_ex J v ''params'' = Some p \<longrightarrow>
        is_type J p json_type_object \<or> is_type J p json_type_array)"
  by (auto simp: jsonrpc_checks split: option.splits if_splits)

lemma jsonrpc_check_result_or_error_spec:
  "is_ok (jsonrpc_check_result_or_error J v) \<longleftrightarrow>
     object_get_ex J v ''result'' \<noteq> None \<or>
     (\<exists>e. object_get_ex J v ''error'' = Some e \<and> valid_error J e)"
  by (auto simp: jsonrpc_checks valid_error_def split: option.splits if_splits)

lemma jsonrpc_check_negative:
  "jsonrpc_check_version J v = Inl e \<Longrightarrow> e < 0" "jsonrpc_check_id J v b = Inl e \<Longrightarrow> e < 0"
  "jsonrpc_check_method J v = Inl e \<Longrightarrow> e < 0" "jsonrpc_check_params J v = Inl e \<Longrightarrow> e < 0"
  "jsonrpc_check_result_or_error J v = Inl e \<Longrightarrow> e < 0"
  by (auto simp: jsonrpc_checks split: option.splits if_splits)

lemma valid_request_checks:
  "valid_request J v \<longleftrightarrow> is_ok (jsonrpc_check_version J v) \<and> is_ok (jsonrpc_check_id J v False) \<and>
     is_ok (jsonrpc_check_method J v) \<and> is_ok (jsonrpc_check_params J v)"
  unfolding valid_request_def jsonrpc_check_version_spec jsonrpc_check_id_spec
    jsonrpc_check_method_spec jsonrpc_check_params_spec
  by (auto split: option.splits)

lemma valid_response_checks:
  "valid_response J v \<longleftrightarrow> is_ok (jsonrpc_check_version J v) \<and> is_ok (jsonrpc_check_id J v True) \<and>
     is_ok (jsonrpc_check_result_or_error J v)"
  unfolding valid_response_def jsonrpc_check_version_spec jsonrpc_check_id_spec
    jsonrpc_check_result_or_error_spec
  by (auto split: option.splits)

text \<open>A validity check in front of an allocation.\<close>

lemma checked_alloc:
  assumes "bindE (pureE c) k w = (r, t)" "\<And>e. c = Inl e \<Longrightarrow> e < 0"
  shows "(\<exists>e. c = Inl e \<and> r = Inl e \<and> t = w \<and> e < 0) \<or> (\<exists>x. c = Inr x \<and> k x w = (r, t))"
  using assms by (cases c) (auto simp: bindE_def pureE_def)

lemma jsonrpc_request_from_json_spec:
  assumes run: "jsonrpc_request_from_json J impl w = (r, t)"
  shows "still w t \<and> takes w t (if is_ok r then [Request] else []) \<and>
    (case r of Inl e \<Rightarrow> e < 0 | Inr q \<Rightarrow> q = \<lparr>req_impl = impl\<rparr>) \<and>
    (is_ok r \<longrightarrow> valid_request J impl) \<and> (reliable w \<and> valid_request J impl \<longrightarrow> is_ok r)"
proof -
  have "(\<not> valid_request J impl \<and> \<not> is_ok r \<and> t = w \<and> (\<forall>e. r = Inl e \<longrightarrow> e < 0)) \<or>
    (valid_request J impl \<and> bindE (alloc Request) (\<lambda>_. ok \<lparr>req_impl = impl\<rparr>) w = (r, t))"
    using run jsonrpc_check_negative [of J impl]
    unfolding jsonrpc_request_from_json_def valid_request_checks
    by (fastforce dest!: checked_alloc)
  then show ?thesis
    using yieldsD [OF yields_alloc_ok, of Request "\<lparr>req_impl = impl\<rparr>" w r t]
    by (cases r) (auto simp: swaps_takes)
qed

lemma jsonrpc_response_from_json_spec:
  assumes run: "jsonrpc_response_from_json J impl w = (r, t)"
  shows "still w t \<and> takes w t (if is_ok r then [Response] else []) \<and>
    (case r of Inl e \<Rightarrow> e < 0 | Inr q \<Rightarrow> q = \<lparr>resp_impl = impl\<rparr>) \<and>
    (is_ok r \<longrightarrow> valid_response J impl) \<and> (reliable w \<and> valid_response J impl \<longrightarrow> is_ok r)"
proof -
  have "(\<not> valid_response J impl \<and> \<not> is_ok r \<and> t = w \<and> (\<forall>e. r = Inl e \<longrightarrow> e < 0)) \<or>
    (valid_response J impl \<and> bindE (alloc Response) (\<lambda>_. ok \<lparr>resp_impl = impl\<rparr>) w = (r, t))"
    using run jsonrpc_check_negative [of J impl]
    unfolding jsonrpc_response_from_json_def valid_response_checks
    by (fastforce dest!: checked_alloc)
  then show ?thesis
    using yieldsD [OF yields_alloc_ok, of Response "\<lparr>resp_impl = impl\<rparr>" w r t]
    by (cases r) (auto simp: swaps_takes)
qed

lemma recv_checked:
  assumes run: "bindE (libjson_recv J fd) (\<lambda>impl. onErr (g impl) (libjson_free impl)) w = (r, t)"
    and safe: "\<not> unterminated w fd"
    and g: "\<And>v. meets (g v) (\<lambda>u b x. still u x \<and> takes u x (if is_ok b then [q] else []) \<and> (\<forall>e. b = Inl e \<longrightarrow> e < 0))"
  shows "takes w t (if is_ok r then [Json, q] else [])" "\<forall>d. d \<noteq> fd \<longrightarrow> rx t d = rx w d"
    "\<forall>d. sent d (trace t) = sent d (trace w)" "r = Inl e \<Longrightarrow> e < 0"
    "r = Inr y \<Longrightarrow> \<exists>v u. arrives J w fd t v \<and> g v u = (Inr y, t)"
proof -
  obtain a u where rec: "libjson_recv J fd w = (a, u)" by (cases "libjson_recv J fd w")
  note rs = libjson_recv_takes [OF rec safe]
  have "takes w t (if is_ok r then [Json, q] else []) \<and> rx t = rx u \<and>
    (\<forall>d. sent d (trace t) = sent d (trace u)) \<and> (\<forall>e. r = Inl e \<longrightarrow> e < 0) \<and>
    (\<forall>y. r = Inr y \<longrightarrow> (\<exists>v. a = Inr v \<and> g v u = (Inr y, t)))"
  proof (cases a)
    case (Inl e)
    with run rec rs show ?thesis by (auto simp: bindE_def)
  next
    case (Inr v)
    obtain b x where chk: "g v u = (b, x)" by (cases "g v u")
    have "r = b" "t = (case b of Inl _ \<Rightarrow> release Json x | Inr _ \<Rightarrow> x)"
      using run rec chk Inr by (auto simp: bindE_def onErr_def libjson_free_def split: sum.splits)
    with Inr rs(1) chk meetsD [OF g chk] show ?thesis
      by (cases b) (auto simp: takes_def still_def)
  qed
  then show "takes w t (if is_ok r then [Json, q] else [])" "\<forall>d. d \<noteq> fd \<longrightarrow> rx t d = rx w d"
    "\<forall>d. sent d (trace t) = sent d (trace w)" "r = Inl e \<Longrightarrow> e < 0"
    "r = Inr y \<Longrightarrow> \<exists>v u. arrives J w fd t v \<and> g v u = (Inr y, t)"
    using rs by (auto simp: arrives_def)
qed

lemma jsonrpc_request_recv_takes:
  assumes run: "jsonrpc_request_recv J fd w = (r, t)" and safe: "\<not> unterminated w fd"
  shows "takes w t (if is_ok r then [Json, Request] else [])" "\<forall>d. d \<noteq> fd \<longrightarrow> rx t d = rx w d"
    "\<forall>d. sent d (trace t) = sent d (trace w)" "r = Inl e \<Longrightarrow> e < 0"
    "r = Inr q \<Longrightarrow> arrives J w fd t (req_impl q) \<and> valid_request J (req_impl q)"
proof -
  have chk: "meets (jsonrpc_request_from_json J v) (\<lambda>u b x. still u x \<and> takes u x (if is_ok b then [Request] else []) \<and>
      (\<forall>e. b = Inl e \<longrightarrow> e < 0))" for v
    by (rule meetsI, rule wpI) (auto dest!: jsonrpc_request_from_json_spec split: sum.splits)
  note rc = recv_checked [OF run [unfolded jsonrpc_request_recv_def] safe chk]
  show "takes w t (if is_ok r then [Json, Request] else [])" "\<forall>d. d \<noteq> fd \<longrightarrow> rx t d = rx w d"
    "\<forall>d. sent d (trace t) = sent d (trace w)" "r = Inl e \<Longrightarrow> e < 0"
    using rc(1-4) by blast+
  show "r = Inr q \<Longrightarrow> arrives J w fd t (req_impl q) \<and> valid_request J (req_impl q)"
    using rc(5) by (force dest: jsonrpc_request_from_json_spec)
qed

lemma jsonrpc_response_recv_takes:
  assumes run: "jsonrpc_response_recv J fd w = (r, t)" and safe: "\<not> unterminated w fd"
  shows "takes w t (if is_ok r then [Json, Response] else [])" "\<forall>d. d \<noteq> fd \<longrightarrow> rx t d = rx w d"
    "\<forall>d. sent d (trace t) = sent d (trace w)" "r = Inl e \<Longrightarrow> e < 0"
    "r = Inr p \<Longrightarrow> arrives J w fd t (resp_impl p) \<and> valid_response J (resp_impl p)"
proof -
  have chk: "meets (jsonrpc_response_from_json J v) (\<lambda>u b x. still u x \<and> takes u x (if is_ok b then [Response] else []) \<and>
      (\<forall>e. b = Inl e \<longrightarrow> e < 0))" for v
    by (rule meetsI, rule wpI) (auto dest!: jsonrpc_response_from_json_spec split: sum.splits)
  note rc = recv_checked [OF run [unfolded jsonrpc_response_recv_def] safe chk]
  show "takes w t (if is_ok r then [Json, Response] else [])" "\<forall>d. d \<noteq> fd \<longrightarrow> rx t d = rx w d"
    "\<forall>d. sent d (trace t) = sent d (trace w)" "r = Inl e \<Longrightarrow> e < 0"
    using rc(1-4) by blast+
  show "r = Inr p \<Longrightarrow> arrives J w fd t (resp_impl p) \<and> valid_response J (resp_impl p)"
    using rc(5) by (force dest: jsonrpc_response_from_json_spec)
qed

text \<open>A message that arrives whole is the request or response that was sent.\<close>

lemma jsonrpc_request_recv_message:
  assumes run: "jsonrpc_request_recv J fd w = (r, t)"
    and wire: "wire_ok J v" "rx w fd = message J v @ rest"
  shows "r = Inr q \<Longrightarrow> q = \<lparr>req_impl = v\<rparr> \<and> rx t fd = rest"
    and "reliable w \<Longrightarrow> valid_request J v \<Longrightarrow> r = Inr \<lparr>req_impl = v\<rparr>"
proof -
  obtain a u where rec: "libjson_recv J fd w = (a, u)" by (cases "libjson_recv J fd w")
  note ms = libjson_recv_message [OF rec wire]
  show got: "q = \<lparr>req_impl = v\<rparr> \<and> rx t fd = rest" if q: "r = Inr q" for q
  proof -
    obtain x where a: "a = Inr x" using run rec q by (cases a) (auto simp: jsonrpc_request_recv_def bindE_def)
    obtain b y where chk: "jsonrpc_request_from_json J x u = (b, y)"
      by (cases "jsonrpc_request_from_json J x u")
    with run rec a q have "b = Inr q" "t = y"
      by (auto simp: jsonrpc_request_recv_def bindE_def onErr_def split: sum.splits)
    with ms(2) [OF a] jsonrpc_request_from_json_spec [OF chk] show ?thesis by (auto simp: still_def)
  qed
  assume rel: "reliable w" and v: "valid_request J v"
  with ms have a: "a = Inr v" by blast
  obtain b y where chk: "jsonrpc_request_from_json J v u = (b, y)"
    by (cases "jsonrpc_request_from_json J v u")
  have "reliable u" using libjson_recv_spec [OF rec] rel by simp
  with jsonrpc_request_from_json_spec [OF chk] v have "is_ok b" by simp
  with run rec a chk have "is_ok r"
    by (auto simp: jsonrpc_request_recv_def bindE_def onErr_def split: sum.splits)
  then show "r = Inr \<lparr>req_impl = v\<rparr>" using got by (cases r) auto
qed

lemma jsonrpc_response_recv_message:
  assumes run: "jsonrpc_response_recv J fd w = (r, t)"
    and wire: "wire_ok J v" "rx w fd = message J v @ rest"
  shows "r = Inr q \<Longrightarrow> q = \<lparr>resp_impl = v\<rparr> \<and> rx t fd = rest"
    and "reliable w \<Longrightarrow> valid_response J v \<Longrightarrow> r = Inr \<lparr>resp_impl = v\<rparr>"
proof -
  obtain a u where rec: "libjson_recv J fd w = (a, u)" by (cases "libjson_recv J fd w")
  note ms = libjson_recv_message [OF rec wire]
  show got: "q = \<lparr>resp_impl = v\<rparr> \<and> rx t fd = rest" if q: "r = Inr q" for q
  proof -
    obtain x where a: "a = Inr x" using run rec q by (cases a) (auto simp: jsonrpc_response_recv_def bindE_def)
    obtain b y where chk: "jsonrpc_response_from_json J x u = (b, y)"
      by (cases "jsonrpc_response_from_json J x u")
    with run rec a q have "b = Inr q" "t = y"
      by (auto simp: jsonrpc_response_recv_def bindE_def onErr_def split: sum.splits)
    with ms(2) [OF a] jsonrpc_response_from_json_spec [OF chk] show ?thesis by (auto simp: still_def)
  qed
  assume rel: "reliable w" and v: "valid_response J v"
  with ms have a: "a = Inr v" by blast
  obtain b y where chk: "jsonrpc_response_from_json J v u = (b, y)"
    by (cases "jsonrpc_response_from_json J v u")
  have "reliable u" using libjson_recv_spec [OF rec] rel by simp
  with jsonrpc_response_from_json_spec [OF chk] v have "is_ok b" by simp
  with run rec a chk have "is_ok r"
    by (auto simp: jsonrpc_response_recv_def bindE_def onErr_def split: sum.splits)
  then show "r = Inr \<lparr>resp_impl = v\<rparr>" using got by (cases r) auto
qed

lemma valid_request_method:
  "valid_request J impl \<Longrightarrow> \<exists>m. jsonrpc_request_get_method J \<lparr>req_impl = impl\<rparr> = Some m"
  by (auto simp: valid_request_def jsonrpc_request_get_method_def libjson_get_string_def
      libjson_get_alt)

section \<open>What is built\<close>

definition request_object :: "'j jsonc \<Rightarrow> int option \<Rightarrow> string \<Rightarrow> 'j" where
  "request_object J i method =
     (let o1 = object_add_ex J (new_object J) ''jsonrpc'' (new_string J ''2.0'');
          o2 = (case i of None \<Rightarrow> o1 | Some n \<Rightarrow> object_add_ex J o1 ''id'' (new_int64 J n))
      in object_add_ex J o2 ''method'' (new_string J method))"

lemma jsonrpc_request_create_internal_yields:
  "yields (jsonrpc_request_create_internal J i method None) [] [Request, Json]
     \<lparr>req_impl = request_object J i method\<rparr>"
proof -
  let ?o1 = "object_add_ex J (new_object J) ''jsonrpc'' (new_string J ''2.0'')"
  let ?o2 = "case i of None \<Rightarrow> ?o1 | Some n \<Rightarrow> object_add_ex J ?o1 ''id'' (new_int64 J n)"
  have version: "yields (jsonrpc_set_version J (new_object J)) [] [] ?o1"
    unfolding jsonrpc_set_version_def by (rule libjson_yields)
  have i: "yields (case i of None \<Rightarrow> ok ?o1 | Some n \<Rightarrow> jsonrpc_set_id J ?o1 n) [] [] ?o2"
    by (cases i) (auto simp: jsonrpc_set_id_def intro: yields_ok libjson_yields)
  have named: "yields (jsonrpc_set_method J ?o2 method) [] []
      (object_add_ex J ?o2 ''method'' (new_string J method))"
    unfolding jsonrpc_set_method_def by (rule libjson_yields)
  let ?tail = "bindE (jsonrpc_set_version J (new_object J)) (\<lambda>impl1.
      bindE (case i of None \<Rightarrow> ok impl1 | Some n \<Rightarrow> jsonrpc_set_id J impl1 n) (\<lambda>impl2.
      bindE (jsonrpc_set_method J impl2 method) (\<lambda>impl3.
      bindE (ok impl3) (\<lambda>impl4. ok \<lparr>req_impl = impl4\<rparr>))))"
  have body: "yields ?tail [] [] \<lparr>req_impl = request_object J i method\<rparr>"
    by (rule yields_bind, rule version, rule yields_bind, rule i, rule yields_bind, rule named,
        rule yields_bind, rule yields_ok) (simp add: request_object_def Let_def yields_ok)
  show ?thesis
    unfolding jsonrpc_request_create_internal_def option.case
    by (rule yields_bind_onErr [where qs = "[Request]" and rs = "[Json]", simplified],
        rule yields_alloc,
        rule yields_bind_onErr [where qs = "[Json]" and rs = "[]", simplified],
        rule libjson_new_object_yields, rule body) simp_all
qed

lemmas jsonrpc_request_create_yields =
  jsonrpc_request_create_internal_yields [of J "Some i" for J i, folded jsonrpc_request_create_def]

lemmas jsonrpc_notification_create_yields =
  jsonrpc_request_create_internal_yields [of J None for J, folded jsonrpc_notification_create_def]

lemma gives_back_request: "gives_back (jsonrpc_request_destroy request) [Request, Json]"
  by (auto simp: gives_back_def jsonrpc_request_destroy_def libjson_free_def swaps_def still_def)

lemma gives_back_response: "gives_back (jsonrpc_response_destroy response) [Response, Json]"
  by (auto simp: gives_back_def jsonrpc_response_destroy_def libjson_free_def swaps_def still_def)

text \<open>Setting a parameter creates the \<open>params\<close> object on first use and then updates it.\<close>

definition params_of :: "'j jsonc \<Rightarrow> 'j jsonrpc_request \<Rightarrow> 'j \<times> 'j jsonrpc_request" where
  "params_of J request =
     (case object_get_ex J (req_impl request) ''params'' of
        None \<Rightarrow> (new_object J, request\<lparr>req_impl := object_add_ex J (req_impl request) ''params'' (new_object J)\<rparr>)
      | Some p \<Rightarrow> (p, request))"

definition with_param ::
  "'j jsonc \<Rightarrow> 'j jsonrpc_request \<Rightarrow> string \<Rightarrow> 'j \<Rightarrow> 'j jsonrpc_request" where
  "with_param J request name v =
     update_params J (snd (params_of J request)) (object_add_ex J (fst (params_of J request)) name v)"

lemma jsonrpc_request_create_params_yields:
  "yields (jsonrpc_request_create_params J request) [] [] (params_of J request)"
proof (cases "object_get_ex J (req_impl request) ''params''")
  case None
  let ?impl = "object_add_ex J (req_impl request) ''params'' (new_object J)"
  have set: "yields (bindE (libjson_set J (req_impl request) ''params'' (Some (new_object J)))
      (\<lambda>impl. ok (new_object J, request\<lparr>req_impl := impl\<rparr>))) [Json] []
      (new_object J, request\<lparr>req_impl := ?impl\<rparr>)"
    using libjson_yields(4) [of J "req_impl request" "''params''" "Some (new_object J)"]
    by (intro yields_then_ok) simp
  have "yields (bindE (libjson_new_object J) (\<lambda>params.
          onErr
            (bindE (libjson_set J (req_impl request) ''params'' (Some params)) (\<lambda>impl.
               ok (params, request\<lparr>req_impl := impl\<rparr>)))
            (libjson_free params))) [Json] ([Json] @ []) (new_object J, request\<lparr>req_impl := ?impl\<rparr>)"
    by (rule yields_bind_onErr, rule libjson_new_object_yields, rule set) simp
  then have "yields (jsonrpc_request_create_params J request) [Json] [Json]
      (new_object J, request\<lparr>req_impl := ?impl\<rparr>)"
    using None by (simp add: jsonrpc_request_create_params_def libjson_has_def)
  from yields_cancel [OF this] None show ?thesis by (simp add: params_of_def)
next
  case (Some p)
  then show ?thesis
    by (simp add: jsonrpc_request_create_params_def params_of_def libjson_has_def libjson_get_alt
        yields_ok)
qed

lemma yields_case_error:
  assumes f: "yields f [] [] p" and g: "yields (g (fst p) (snd p)) [] [] y"
  shows "yields (\<lambda>w. case f w of (Inl _, t) \<Rightarrow> (Inl (-1), t) | (Inr (x, z), t) \<Rightarrow> g x z t) [] [] y"
proof (rule yieldsI)
  fix w r t
  assume run: "(case f w of (Inl _, t) \<Rightarrow> (Inl (-1), t) | (Inr (x, z), t) \<Rightarrow> g x z t) = (r, t)"
  obtain d u where fu: "f w = (d, u)" by (cases "f w")
  show "outcome [] [] y w r t"
  proof (cases d)
    case (Inl e)
    with run fu yieldsD [OF f fu] show ?thesis by auto
  next
    case (Inr q)
    with yieldsD [OF f fu] have u: "q = p" "calm w u" "still w u" by (auto simp: swaps_takes)
    with run fu Inr have "g (fst p) (snd p) u = (r, t)" by (cases p) simp
    from outcome_after_calm [OF u(2,3) yieldsD [OF g this]] show ?thesis .
  qed
qed

lemma jsonrpc_request_set_param_string_yields:
  "yields (jsonrpc_request_set_param_string J request name s) [] []
     (with_param J request name (new_string J s))"
  unfolding jsonrpc_request_set_param_string_def [abs_def] with_param_def
  by (rule yields_case_error [OF jsonrpc_request_create_params_yields])
    (rule yields_take [OF libjson_yields(6)])

lemma jsonrpc_request_set_param_int_yields:
  "yields (jsonrpc_request_set_param_int J request name i) [] []
     (with_param J request name (new_int64 J i))"
  unfolding jsonrpc_request_set_param_int_def [abs_def] with_param_def
  by (rule yields_case_error [OF jsonrpc_request_create_params_yields])
    (rule yields_take [OF libjson_yields(8)])

text \<open>Looking a parameter up, and the requests the program itself builds.\<close>

definition param :: "'j jsonc \<Rightarrow> 'j jsonrpc_request \<Rightarrow> string \<Rightarrow> 'j option" where
  "param J request name =
     (case object_get_ex J (req_impl request) ''params'' of
        None \<Rightarrow> None
      | Some p \<Rightarrow> object_get_ex J p name)"

definition own_request :: "'j jsonc \<Rightarrow> 'j jsonrpc_request \<Rightarrow> bool" where
  "own_request J request \<longleftrightarrow> valid_request J (req_impl request) \<and>
     is_type J (req_impl request) json_type_object \<and>
     (\<forall>p. object_get_ex J (req_impl request) ''params'' = Some p \<longrightarrow> is_type J p json_type_object)"

lemma get_param_string_alt:
  "jsonrpc_request_get_param_string J request name =
     (case param J request name of
        None \<Rightarrow> Inl (-1)
      | Some v \<Rightarrow> if is_type J v json_type_string then Inr (get_string J v) else Inl (-1))"
  by (auto simp: jsonrpc_request_get_param_string_def param_def libjson_get_string_def
      libjson_get_alt split: option.splits)

lemma get_param_int_alt:
  "jsonrpc_request_get_param_int J request name =
     (case param J request name of
        None \<Rightarrow> Inl (-1)
      | Some v \<Rightarrow> if is_type J v json_type_int
          then (case get_int64 J v of None \<Rightarrow> Inl (-1) | Some i \<Rightarrow> Inr i) else Inl (-1))"
  by (auto simp: jsonrpc_request_get_param_int_def param_def libjson_get_int_def
      libjson_get_alt split: option.splits)

lemma own_request_create:
  "jsonc_ok J \<Longrightarrow> own_request J \<lparr>req_impl = request_object J i method\<rparr>"
  by (cases i) (auto simp: own_request_def valid_request_def valid_version_def valid_id_def
      request_object_def Let_def jsonc_okD)

lemma request_object_lookup:
  "jsonc_ok J \<Longrightarrow> object_get_ex J (request_object J i method) ''method'' = Some (new_string J method)"
  "jsonc_ok J \<Longrightarrow> object_get_ex J (request_object J i method) ''id'' = map_option (new_int64 J) i"
  "jsonc_ok J \<Longrightarrow> object_get_ex J (request_object J i method) ''params'' = None"
  by (cases i; simp add: request_object_def Let_def jsonc_okD)+

lemma own_request_with_param:
  assumes "jsonc_ok J" "own_request J request"
  shows "own_request J (with_param J request name v)"
    and "param J (with_param J request name v) other =
      (if other = name then Some v else param J request other)"
    and "k \<noteq> ''params'' \<Longrightarrow> object_get_ex J (req_impl (with_param J request name v)) k =
      object_get_ex J (req_impl request) k"
  using assms(2)
  by (auto simp: with_param_def update_params_def params_of_def own_request_def valid_request_def
      valid_version_def param_def jsonc_okD [OF assms(1)] split: option.splits)

section \<open>Responses that are built\<close>

text \<open>
  A response carries the request's id and exactly one of \<open>result\<close> and \<open>error\<close>, and owns the
  value it was given. A notification has no id, so no response can be made for it.
\<close>

definition owned :: "'j option \<Rightarrow> resource list" where
  "owned p = (case p of None \<Rightarrow> [] | Some _ \<Rightarrow> [Json])"

definition response_object :: "'j jsonc \<Rightarrow> 'j \<Rightarrow> 'j option \<Rightarrow> 'j option \<Rightarrow> 'j" where
  "response_object J i result error =
     (let o2 = object_add_ex J (object_add_ex J (new_object J) ''jsonrpc'' (new_string J ''2.0''))
                 ''id'' (deep_copy J i)
      in if error \<noteq> None then object_add_ex J o2 ''error'' (pointee J error)
         else object_add_ex J o2 ''result'' (pointee J result))"

definition error_object :: "'j jsonc \<Rightarrow> int \<Rightarrow> string \<Rightarrow> 'j" where
  "error_object J code msg =
     object_add_ex J (object_add_ex J (new_object J) ''code'' (new_int64 J code))
       ''message'' (new_string J msg)"

lemma bindE_assoc: "bindE (bindE f g) h = bindE f (\<lambda>x. bindE (g x) h)"
  by (rule ext) (auto simp: bindE_def split: prod.splits sum.splits)

lemma jsonrpc_response_create_internal_yields:
  assumes i: "object_get_ex J (req_impl request) ''id'' = Some i"
  shows "yields (jsonrpc_response_create_internal J request result error)
    (owned (if error \<noteq> None then error else result)) [Response, Json]
    \<lparr>resp_impl = response_object J i result error\<rparr>"
proof -
  let ?o1 = "object_add_ex J (new_object J) ''jsonrpc'' (new_string J ''2.0'')"
  let ?o2 = "object_add_ex J ?o1 ''id'' (deep_copy J i)"
  let ?cs = "owned (if error \<noteq> None then error else result)"
  have version: "yields (jsonrpc_set_version J (new_object J)) [] [] ?o1"
    unfolding jsonrpc_set_version_def by (rule libjson_yields)
  have clone: "yields (bindE (libjson_clone J (req_impl request) ''id'')
      (\<lambda>i. onErr (libjson_set J ?o1 ''id'' (Some i)) (libjson_free i))) [] [] ?o2"
    by (rule yields_cancel [of _ Json],
        rule yields_bind_onErr [where qs = "[Json]" and rs = "[]", simplified],
        rule libjson_clone_yields [OF i]) (use libjson_yields(4) [of J ?o1 _ "Some _"] in simp_all)
  have payload: "yields (bindE (if error \<noteq> None then libjson_set_const_key J ?o2 ''error'' error
        else libjson_set_const_key J ?o2 ''result'' result) (\<lambda>impl3. ok \<lparr>resp_impl = impl3\<rparr>)) ?cs []
      \<lparr>resp_impl = response_object J i result error\<rparr>"
    using yields_then_ok [OF libjson_yields(5) [of J ?o2 "''error''" error],
        of "\<lambda>v. \<lparr>resp_impl = v\<rparr>"]
      yields_then_ok [OF libjson_yields(5) [of J ?o2 "''result''" result],
        of "\<lambda>v. \<lparr>resp_impl = v\<rparr>"]
    by (cases "error = None") (simp_all add: response_object_def owned_def)
  have body: "yields (bindE (jsonrpc_set_version J (new_object J)) (\<lambda>impl1.
      bindE (libjson_clone J (req_impl request) ''id'') (\<lambda>i.
      bindE (onErr (libjson_set J impl1 ''id'' (Some i)) (libjson_free i)) (\<lambda>impl2.
      bindE (if error \<noteq> None then libjson_set_const_key J impl2 ''error'' error
        else libjson_set_const_key J impl2 ''result'' result) (\<lambda>impl3. ok \<lparr>resp_impl = impl3\<rparr>)))))
      ?cs [] \<lparr>resp_impl = response_object J i result error\<rparr>"
    by (rule yields_bind, rule version, subst bindE_assoc [symmetric], rule yields_bind, rule clone,
        rule payload)
  show ?thesis
    unfolding jsonrpc_response_create_internal_def
    by (rule yields_bind_onErr [where qs = "[Response]" and rs = "[Json]", simplified],
        rule yields_alloc,
        rule yields_bind_onErr [where qs = "[Json]" and rs = "[]", simplified],
        rule libjson_new_object_yields, rule body) simp_all
qed

lemma jsonrpc_error_create_yields:
  assumes i: "object_get_ex J (req_impl request) ''id'' = Some i"
  shows "yields (jsonrpc_error_create J request code msg) [] [Response, Json]
    \<lparr>resp_impl = response_object J i None (Some (error_object J code msg))\<rparr>"
proof -
  let ?e1 = "object_add_ex J (new_object J) ''code'' (new_int64 J code)"
  have body: "yields (bindE (libjson_set_int_const_key J (new_object J) ''code'' code) (\<lambda>error1.
      bindE (libjson_set_string_const_key J error1 ''message'' msg) (\<lambda>error2.
      jsonrpc_response_create_internal J request None (Some error2)))) [Json] [Response, Json]
      \<lparr>resp_impl = response_object J i None (Some (error_object J code msg))\<rparr>"
    by (rule yields_bind, rule libjson_yields(9), rule yields_bind, rule libjson_yields(7))
      (use jsonrpc_response_create_internal_yields [OF i, of None "Some (error_object J code msg)"]
       in \<open>simp add: error_object_def owned_def\<close>)
  have "yields (jsonrpc_error_create J request code msg) [Json] ([Json] @ [Response, Json])
    \<lparr>resp_impl = response_object J i None (Some (error_object J code msg))\<rparr>"
    unfolding jsonrpc_error_create_def
    by (rule yields_bind_onErr, rule libjson_new_object_yields, rule body) simp
  then show ?thesis by (rule yields_cancel [of _ Json, OF yields_mset]) simp_all
qed

text \<open>A function that always fails, calmly.\<close>

definition refuses :: "('z world_scheme, 'a) cfun \<Rightarrow> bool" where
  "refuses f \<longleftrightarrow> (\<forall>w r t. f w = (r, t) \<longrightarrow> still w t \<and> calm w t \<and> (\<exists>e. r = Inl e \<and> e < 0))"

lemma refusesD: "refuses f \<Longrightarrow> f w = (r, t) \<Longrightarrow> still w t \<and> calm w t \<and> (\<exists>e. r = Inl e \<and> e < 0)"
  by (simp add: refuses_def)

lemma refuses_bind:
  assumes f: "yields f [] [] x" and g: "refuses (g x)"
  shows "refuses (bindE f g)"
  unfolding refuses_def
proof (intro allI impI)
  fix w r t
  assume run: "bindE f g w = (r, t)"
  obtain a u where fu: "f w = (a, u)" by (cases "f w")
  show "still w t \<and> calm w t \<and> (\<exists>e. r = Inl e \<and> e < 0)"
  proof (cases a)
    case (Inl e)
    with run fu yieldsD [OF f fu] show ?thesis by (auto simp: bindE_def)
  next
    case (Inr b)
    with yieldsD [OF f fu] have u: "b = x" "calm w u" "still w u" by (auto simp: swaps_takes)
    with run fu Inr have "g x u = (r, t)" by (simp add: bindE_def)
    from refusesD [OF g this] u show ?thesis by (auto intro: still_trans calm_trans)
  qed
qed

lemma refuses_bind_onErr:
  assumes f: "yields f [] qs x" and g: "refuses (g x)" and c: "gives_back (c x) qs"
  shows "refuses (bindE f (\<lambda>z. onErr (g z) (c z)))"
  unfolding refuses_def
proof (intro allI impI)
  fix w r t
  assume run: "bindE f (\<lambda>z. onErr (g z) (c z)) w = (r, t)"
  obtain a u where fu: "f w = (a, u)" by (cases "f w")
  show "still w t \<and> calm w t \<and> (\<exists>e. r = Inl e \<and> e < 0)"
  proof (cases a)
    case (Inl e)
    with run fu yieldsD [OF f fu] show ?thesis by (auto simp: bindE_def)
  next
    case (Inr b)
    with yieldsD [OF f fu] have u: "b = x" "takes w u qs" "still w u" by (auto simp: swaps_takes)
    obtain d v where gu: "g x u = (d, v)" by (cases "g x u")
    from refusesD [OF g gu] obtain e where v: "still u v" "calm u v" "d = Inl e" "e < 0" by auto
    with run fu Inr u gu have "r = Inl e" "t = c x v" by (auto simp: bindE_def onErr_def)
    with u v gives_backD [OF c, of v] show ?thesis
      by (auto simp: takes_def swaps_def still_def)
  qed
qed

lemma jsonrpc_response_create_internal_refuses:
  assumes "object_get_ex J (req_impl request) ''id'' = None"
  shows "refuses (jsonrpc_response_create_internal J request result error)"
  unfolding jsonrpc_response_create_internal_def jsonrpc_set_version_def
  by (rule refuses_bind_onErr, rule yields_alloc, rule refuses_bind_onErr,
      rule libjson_new_object_yields, rule refuses_bind, rule libjson_yields(7))
    (use assms in \<open>simp_all add: refuses_def libjson_clone_def libjson_get_alt bindE_def failing_def\<close>)

lemma jsonrpc_error_create_refuses:
  assumes "object_get_ex J (req_impl request) ''id'' = None"
  shows "refuses (jsonrpc_error_create J request code msg)"
  unfolding jsonrpc_error_create_def
  by (rule refuses_bind_onErr, rule libjson_new_object_yields, rule refuses_bind,
      rule libjson_yields(9), rule refuses_bind, rule libjson_yields(7))
    (simp_all add: jsonrpc_response_create_internal_refuses assms)

lemma response_object_lookup:
  assumes "jsonc_ok J"
  shows "object_get_ex J (response_object J i result error) ''id'' = Some i"
    "object_get_ex J (response_object J i result error) ''jsonrpc'' = Some (new_string J ''2.0'')"
    "object_get_ex J (response_object J i result error) ''error'' = error"
    "object_get_ex J (response_object J i result error) ''result'' =
       (if error = None then Some (pointee J result) else None)"
    "is_type J (response_object J i result error) json_type_object"
  using assms by (auto simp: response_object_def Let_def jsonc_okD)

lemma error_object_valid: "jsonc_ok J \<Longrightarrow> in_int64 code \<Longrightarrow> valid_error J (error_object J code msg)"
  by (auto simp: error_object_def valid_error_def jsonc_okD)

lemma response_object_valid:
  assumes "jsonc_ok J" "valid_id J i" "error = None \<or> (\<exists>e. error = Some e \<and> valid_error J e)"
  shows "valid_response J (response_object J i result error)"
  using assms by (auto simp: valid_response_def valid_version_def response_object_lookup jsonc_okD)

end
