(* ===== verification/Protocol.thy ===== *)
theory Protocol
  imports JsonRpc Queues
begin

text \<open>
  \<open>src/protocol.c\<close>, with what it is built from: \<open>src/base64.c\<close>, the process output of
  \<open>src/process.c\<close> and the JSON view of runs of \<open>src/run_queue.c\<close>. Each message has a function
  that builds it and one that reads it; the lemmas show that reading undoes building.
\<close>

section \<open>Base64\<close>

text \<open>
  libsodium is not part of the sources: \<open>bin2base64\<close> encodes, \<open>base642bin m\<close> decodes into a
  buffer of \<open>m\<close> bytes. \<open>sodium_ok\<close> is the documented behaviour: an encoding has four
  characters per three bytes or part thereof, and decodes if the buffer is big enough.
\<close>

record sodium =
  bin2base64 :: "char list \<Rightarrow> string"
  base642bin :: "nat \<Rightarrow> string \<Rightarrow> char list option"

definition sodium_ok :: "sodium \<Rightarrow> bool" where
  "sodium_ok S \<longleftrightarrow>
     (\<forall>bs. length (bin2base64 S bs) = (length bs + 2) div 3 * 4) \<and>
     (\<forall>bs m. length bs \<le> m \<longrightarrow> base642bin S m (bin2base64 S bs) = Some bs)"

definition base64_encode :: "sodium \<Rightarrow> char list \<Rightarrow> ('z world_scheme, string) cfun" where
  "base64_encode S src = bindE (alloc (Mem ''base64'')) (\<lambda>_. ok (bin2base64 S src))"

text \<open>The decoded block becomes an output's data, so it is named \<open>contents\<close>, as in \<open>file_read\<close>.\<close>

definition base64_decode :: "sodium \<Rightarrow> string \<Rightarrow> ('z world_scheme, char list) cfun" where
  "base64_decode S src =
     (let dst_max_len = length src div 4 * 3
      in bindE (alloc (Mem ''contents'')) (\<lambda>_.
           onErr
             (case base642bin S dst_max_len src of None \<Rightarrow> failing (-1) | Some dst \<Rightarrow> ok dst)
             (release (Mem ''contents''))))"

lemma base64_encode_yields: "yields (base64_encode S bs) [] [Mem ''base64''] (bin2base64 S bs)"
  unfolding base64_encode_def by (rule yields_alloc_ok)

lemma base64_decode_yields:
  assumes "sodium_ok S"
  shows "yields (base64_decode S (bin2base64 S bs)) [] [Mem ''contents''] bs"
proof -
  have "length bs \<le> (length bs + 2) div 3 * 3" by presburger
  with assms have "base642bin S (length (bin2base64 S bs) div 4 * 3) (bin2base64 S bs) = Some bs"
    by (simp add: sodium_ok_def)
  then show ?thesis
    unfolding base64_decode_def Let_def
    by (auto intro!: yields_bind_onErr [where rs = "[]", simplified] yields_alloc yields_ok)
qed

section \<open>Process output\<close>

text \<open>\<open>po_data\<close> is a null pointer until a block of output is stored.\<close>

record process_output =
  po_ec :: int
  po_data :: "char list option"
  po_data_size :: nat

definition process_output_create :: "('z world_scheme, process_output) cfun" where
  "process_output_create =
     bindE (alloc (Mem ''process_output'')) (\<lambda>_.
       ok \<lparr>po_ec = 0, po_data = None, po_data_size = 0\<rparr>)"

definition process_output_destroy :: "process_output \<Rightarrow> 'z world_scheme \<Rightarrow> 'z world_scheme" where
  "process_output_destroy output w =
     release (Mem ''process_output'')
       (case po_data output of None \<Rightarrow> w | Some _ \<Rightarrow> release (Mem ''contents'') w)"

text \<open>The bytes \<open>data[0 .. data_size]\<close>.\<close>

definition output_bytes :: "process_output \<Rightarrow> char list" where
  "output_bytes output =
     take (po_data_size output) (case po_data output of None \<Rightarrow> [] | Some d \<Rightarrow> d)"

definition output_blocks :: "process_output \<Rightarrow> resource list" where
  "output_blocks output =
     Mem ''process_output'' # (case po_data output of None \<Rightarrow> [] | Some _ \<Rightarrow> [Mem ''contents''])"

lemma process_output_create_yields:
  "yields process_output_create [] [Mem ''process_output'']
     \<lparr>po_ec = 0, po_data = None, po_data_size = 0\<rparr>"
  unfolding process_output_create_def by (rule yields_alloc_ok)

lemma gives_back_output: "gives_back (process_output_destroy output) (output_blocks output)"
  by (cases "po_data output")
    (auto simp: gives_back_def process_output_destroy_def output_blocks_def swaps_def still_def)

section \<open>Runs as JSON\<close>

definition run_to_json :: "'j jsonc \<Rightarrow> run \<Rightarrow> ('z world_scheme, 'j) cfun" where
  "run_to_json J entry =
     bindE (libjson_new_object J) (\<lambda>json.
       onErr
         (bindE (libjson_set_int_const_key J json ''id'' (run_id entry)) (\<lambda>json1.
          bindE (libjson_set_int_const_key J json1 ''exit_code'' (run_exit_code entry)) (\<lambda>json2.
          bindE (libjson_set_string_const_key J json2 ''repo_url'' (repo_url entry)) (\<lambda>json3.
          libjson_set_string_const_key J json3 ''repo_rev'' (repo_rev entry)))))
         (libjson_free json))"

fun run_queue_to_json_loop :: "'j jsonc \<Rightarrow> 'j \<Rightarrow> run_queue \<Rightarrow> ('z world_scheme, 'j) cfun" where
  "run_queue_to_json_loop J json [] = ok json"
| "run_queue_to_json_loop J json (entry # rest) =
     bindE (run_to_json J entry) (\<lambda>entry_json.
     bindE (onErr (libjson_append J json entry_json) (libjson_free entry_json)) (\<lambda>json1.
     run_queue_to_json_loop J json1 rest))"

definition run_queue_to_json :: "'j jsonc \<Rightarrow> run_queue \<Rightarrow> ('z world_scheme, 'j) cfun" where
  "run_queue_to_json J queue =
     bindE (libjson_new_array J) (\<lambda>json.
       onErr (run_queue_to_json_loop J json queue) (libjson_free json))"

definition run_object :: "'j jsonc \<Rightarrow> run \<Rightarrow> 'j" where
  "run_object J x =
     object_add_ex J (object_add_ex J (object_add_ex J (object_add_ex J (new_object J)
       ''id'' (new_int64 J (run_id x))) ''exit_code'' (new_int64 J (run_exit_code x)))
       ''repo_url'' (new_string J (repo_url x))) ''repo_rev'' (new_string J (repo_rev x))"

lemma run_to_json_yields: "yields (run_to_json J x) [] [Json] (run_object J x)"
  unfolding run_to_json_def
  by (rule yields_bind_onErr [where rs = "[]", simplified], rule libjson_new_object_yields,
      rule yields_bind, rule libjson_yields(9), rule yields_bind, rule libjson_yields(9),
      rule yields_bind, rule libjson_yields(7))
    (use libjson_yields(7) in \<open>auto simp: run_object_def\<close>)

lemma run_queue_to_json_loop_yields:
  "yields (run_queue_to_json_loop J json q) [] [] (foldl (array_add J) json (map (run_object J) q))"
proof (induction q arbitrary: json)
  case Nil
  show ?case by (simp add: yields_ok)
next
  case (Cons x q)
  have "yields (bindE (run_to_json J x)
      (\<lambda>e. onErr (libjson_append J json e) (libjson_free e))) [] [] (array_add J json (run_object J x))"
    by (rule yields_cancel [of _ Json],
        rule yields_bind_onErr [where qs = "[Json]" and rs = "[]", simplified],
        rule run_to_json_yields, rule libjson_yields(3)) simp
  from yields_bind [where g = "\<lambda>j. run_queue_to_json_loop J j q", OF this Cons.IH]
  show ?case by (simp add: bindE_assoc)
qed

lemma run_queue_to_json_yields:
  "yields (run_queue_to_json J q) [] [Json]
     (foldl (array_add J) (new_array J) (map (run_object J) q))"
  unfolding run_queue_to_json_def
  by (rule yields_bind_onErr [where rs = "[]", simplified], rule libjson_new_array_yields,
      rule run_queue_to_json_loop_yields) simp

lemma array_elems_foldl:
  assumes J: "jsonc_ok J" and a: "is_type J a json_type_array"
  shows "array_elems J (foldl (array_add J) a vs) = array_elems J a @ vs"
  using a by (induction vs arbitrary: a) (simp_all add: jsonc_okD [OF J])

lemma run_object_lookup:
  assumes "jsonc_ok J"
  shows "object_get_ex J (run_object J x) ''id'' = Some (new_int64 J (run_id x))"
    "object_get_ex J (run_object J x) ''exit_code'' = Some (new_int64 J (run_exit_code x))"
    "object_get_ex J (run_object J x) ''repo_url'' = Some (new_string J (repo_url x))"
    "object_get_ex J (run_object J x) ''repo_rev'' = Some (new_string J (repo_rev x))"
  using assms by (simp_all add: run_object_def jsonc_okD)

section \<open>Messages\<close>

abbreviation CMD_QUEUE_RUN :: string where "CMD_QUEUE_RUN \<equiv> ''queue-run''"
abbreviation CMD_NEW_WORKER :: string where "CMD_NEW_WORKER \<equiv> ''new-worker''"
abbreviation CMD_START_RUN :: string where "CMD_START_RUN \<equiv> ''start-run''"
abbreviation CMD_FINISHED_RUN :: string where "CMD_FINISHED_RUN \<equiv> ''finished-run''"
abbreviation CMD_GET_RUNS :: string where "CMD_GET_RUNS \<equiv> ''get-runs''"

abbreviation run_key_id :: string where "run_key_id \<equiv> ''id''"
abbreviation run_key_url :: string where "run_key_url \<equiv> ''url''"
abbreviation run_key_rev :: string where "run_key_rev \<equiv> ''rev''"
abbreviation finished_key_run_id :: string where "finished_key_run_id \<equiv> ''run_id''"
abbreviation finished_key_ec :: string where "finished_key_ec \<equiv> ''exit_code''"
abbreviation finished_key_data :: string where "finished_key_data \<equiv> ''output''"

definition request_create_queue_run ::
  "'j jsonc \<Rightarrow> run \<Rightarrow> ('z world_scheme, 'j jsonrpc_request) cfun" where
  "request_create_queue_run J x =
     bindE jsonrpc_generate_request_id (\<lambda>i.
     bindE (jsonrpc_request_create J i CMD_QUEUE_RUN None) (\<lambda>request.
       onErr
         (bindE (jsonrpc_request_set_param_string J request run_key_url (run_get_repo_url x))
            (\<lambda>request1.
          jsonrpc_request_set_param_string J request1 run_key_rev (run_get_repo_rev x)))
         (jsonrpc_request_destroy request)))"

definition request_parse_queue_run ::
  "'j jsonc \<Rightarrow> 'j jsonrpc_request \<Rightarrow> ('z world_scheme, run) cfun" where
  "request_parse_queue_run J request =
     bindE (pureE (jsonrpc_request_get_param_string J request run_key_url)) (\<lambda>url.
     bindE (pureE (jsonrpc_request_get_param_string J request run_key_rev)) (\<lambda>rv.
     run_queued url rv))"

definition request_create_new_worker :: "'j jsonc \<Rightarrow> ('z world_scheme, 'j jsonrpc_request) cfun" where
  "request_create_new_worker J = jsonrpc_notification_create J CMD_NEW_WORKER None"

definition request_parse_new_worker :: "'j jsonrpc_request \<Rightarrow> ('z world_scheme, unit) cfun" where
  "request_parse_new_worker request = ok ()"

definition request_create_start_run ::
  "'j jsonc \<Rightarrow> run \<Rightarrow> ('z world_scheme, 'j jsonrpc_request) cfun" where
  "request_create_start_run J x =
     bindE (jsonrpc_notification_create J CMD_START_RUN None) (\<lambda>request.
       onErr
         (bindE (jsonrpc_request_set_param_int J request run_key_id (run_get_id x)) (\<lambda>request1.
          bindE (jsonrpc_request_set_param_string J request1 run_key_url (run_get_repo_url x))
            (\<lambda>request2.
          jsonrpc_request_set_param_string J request2 run_key_rev (run_get_repo_rev x))))
         (jsonrpc_request_destroy request))"

definition request_parse_start_run ::
  "'j jsonc \<Rightarrow> 'j jsonrpc_request \<Rightarrow> ('z world_scheme, run) cfun" where
  "request_parse_start_run J request =
     bindE (pureE (jsonrpc_request_get_param_int J request run_key_id)) (\<lambda>i.
     bindE (pureE (jsonrpc_request_get_param_string J request run_key_url)) (\<lambda>url.
     bindE (pureE (jsonrpc_request_get_param_string J request run_key_rev)) (\<lambda>rv.
     run_created (int32 i) url rv)))"

definition request_create_finished_run ::
  "'j jsonc \<Rightarrow> sodium \<Rightarrow> int \<Rightarrow> process_output \<Rightarrow> ('z world_scheme, 'j jsonrpc_request) cfun" where
  "request_create_finished_run J S i output =
     bindE (jsonrpc_notification_create J CMD_FINISHED_RUN None) (\<lambda>request.
       onErr
         (bindE (jsonrpc_request_set_param_int J request finished_key_run_id i) (\<lambda>request1.
          bindE (jsonrpc_request_set_param_int J request1 finished_key_ec (po_ec output)) (\<lambda>request2.
          bindE (base64_encode S (output_bytes output)) (\<lambda>b64data.
          after (jsonrpc_request_set_param_string J request2 finished_key_data b64data)
            (release (Mem ''base64''))))))
         (jsonrpc_request_destroy request))"

definition request_parse_finished_run ::
  "'j jsonc \<Rightarrow> sodium \<Rightarrow> 'j jsonrpc_request \<Rightarrow> ('z world_scheme, int \<times> process_output) cfun" where
  "request_parse_finished_run J S request =
     bindE process_output_create (\<lambda>output.
       onErr
         (bindE (pureE (jsonrpc_request_get_param_int J request finished_key_run_id)) (\<lambda>i.
          bindE (pureE (jsonrpc_request_get_param_int J request finished_key_ec)) (\<lambda>ec.
          let output1 = output\<lparr>po_ec := int32 ec\<rparr>
          in bindE (pureE (jsonrpc_request_get_param_string J request finished_key_data)) (\<lambda>b64data.
             bindE (base64_decode S b64data) (\<lambda>dst.
             ok (int32 i, output1\<lparr>po_data := Some dst, po_data_size := length dst\<rparr>))))))
         (process_output_destroy output))"

definition request_create_get_runs :: "'j jsonc \<Rightarrow> ('z world_scheme, 'j jsonrpc_request) cfun" where
  "request_create_get_runs J =
     bindE jsonrpc_generate_request_id (\<lambda>i. jsonrpc_request_create J i CMD_GET_RUNS None)"

definition request_parse_get_runs :: "'j jsonrpc_request \<Rightarrow> ('z world_scheme, unit) cfun" where
  "request_parse_get_runs request = ok ()"

definition response_create_get_runs ::
  "'j jsonc \<Rightarrow> 'j jsonrpc_request \<Rightarrow> run_queue \<Rightarrow> ('z world_scheme, 'j jsonrpc_response) cfun" where
  "response_create_get_runs J request runs =
     bindE (run_queue_to_json J runs) (\<lambda>runs_json.
       onErr (jsonrpc_response_create J request (Some runs_json)) (libjson_free runs_json))"

section \<open>Building\<close>

text \<open>The requests that the builders yield.\<close>

definition queue_run_request :: "'j jsonc \<Rightarrow> int \<Rightarrow> run \<Rightarrow> 'j jsonrpc_request" where
  "queue_run_request J i x =
     with_param J (with_param J \<lparr>req_impl = request_object J (Some i) CMD_QUEUE_RUN\<rparr>
       ''url'' (new_string J (repo_url x))) ''rev'' (new_string J (repo_rev x))"

definition start_run_request :: "'j jsonc \<Rightarrow> run \<Rightarrow> 'j jsonrpc_request" where
  "start_run_request J x =
     with_param J (with_param J (with_param J \<lparr>req_impl = request_object J None CMD_START_RUN\<rparr>
       ''id'' (new_int64 J (run_id x))) ''url'' (new_string J (repo_url x)))
       ''rev'' (new_string J (repo_rev x))"

definition finished_run_request ::
  "'j jsonc \<Rightarrow> sodium \<Rightarrow> int \<Rightarrow> process_output \<Rightarrow> 'j jsonrpc_request" where
  "finished_run_request J S i output =
     with_param J (with_param J (with_param J \<lparr>req_impl = request_object J None CMD_FINISHED_RUN\<rparr>
       ''run_id'' (new_int64 J i)) ''exit_code'' (new_int64 J (po_ec output)))
       ''output'' (new_string J (bin2base64 S (output_bytes output)))"

lemma yields_bind_after:
  assumes f: "yields f [] qs x" and g: "yields (g x) [] [] y" and c: "gives_back (c x) qs"
  shows "yields (bindE f (\<lambda>z. after (g z) (c z))) [] [] y"
proof (rule yieldsI)
  fix w r t
  assume run: "bindE f (\<lambda>z. after (g z) (c z)) w = (r, t)"
  obtain a u where fu: "f w = (a, u)" by (cases "f w")
  show "outcome [] [] y w r t"
  proof (cases a)
    case (Inl e)
    with run fu yieldsD [OF f fu] show ?thesis by (auto simp: bindE_def)
  next
    case (Inr b)
    with yieldsD [OF f fu] have u: "b = x" "takes w u qs" "still w u" by (auto simp: swaps_takes)
    obtain d v where gu: "g x u = (d, v)" by (cases "g x u")
    with run fu Inr u have "r = d" "t = c x v" by (auto simp: bindE_def after_def)
    with u yieldsD [OF g gu] gives_backD [OF c, of v] show ?thesis
      by (cases d) (auto simp: takes_def swaps_def still_def)
  qed
qed

lemma built_request:
  assumes "yields f [] [Request, Json] q" and "yields (g q) [] [] y"
  shows "yields (bindE f (\<lambda>q. onErr (g q) (jsonrpc_request_destroy q))) [] [Request, Json] y"
  by (rule yields_bind_onErr [where rs = "[]", simplified]) (use assms gives_back_request in auto)

lemma generated_id:
  "bindE jsonrpc_generate_request_id g w = g (rpc_id w) (w\<lparr>rpc_id := int32 (rpc_id w + 1)\<rparr>)"
  by (simp add: bindE_def jsonrpc_generate_request_id_def)

lemma queue_run_request_yields:
  "yields (bindE (jsonrpc_request_create J i CMD_QUEUE_RUN None) (\<lambda>request.
       onErr
         (bindE (jsonrpc_request_set_param_string J request run_key_url (run_get_repo_url x))
            (\<lambda>request1.
          jsonrpc_request_set_param_string J request1 run_key_rev (run_get_repo_rev x)))
         (jsonrpc_request_destroy request))) [] [Request, Json] (queue_run_request J i x)"
  unfolding queue_run_request_def run_accessors
  by (rule built_request, rule jsonrpc_request_create_yields, rule yields_bind,
      rule jsonrpc_request_set_param_string_yields, rule jsonrpc_request_set_param_string_yields)

lemma start_run_request_yields:
  "yields (request_create_start_run J x) [] [Request, Json] (start_run_request J x)"
  unfolding request_create_start_run_def start_run_request_def run_accessors
  by (rule built_request, rule jsonrpc_notification_create_yields, rule yields_bind,
      rule jsonrpc_request_set_param_int_yields, rule yields_bind,
      rule jsonrpc_request_set_param_string_yields, rule jsonrpc_request_set_param_string_yields)

lemma finished_run_request_yields:
  "yields (request_create_finished_run J S i output) [] [Request, Json]
     (finished_run_request J S i output)"
  unfolding request_create_finished_run_def finished_run_request_def
  by (rule built_request, rule jsonrpc_notification_create_yields, rule yields_bind,
      rule jsonrpc_request_set_param_int_yields, rule yields_bind,
      rule jsonrpc_request_set_param_int_yields, rule yields_bind_after, rule base64_encode_yields,
      rule jsonrpc_request_set_param_string_yields) simp

lemma new_worker_request_yields:
  "yields (request_create_new_worker J) [] [Request, Json]
     \<lparr>req_impl = request_object J None CMD_NEW_WORKER\<rparr>"
  unfolding request_create_new_worker_def by (rule jsonrpc_notification_create_yields)

lemmas built_lookup = own_request_with_param own_request_create request_object_lookup

lemma built_own:
  assumes "jsonc_ok J"
  shows "own_request J (queue_run_request J i x)" "own_request J (start_run_request J x)"
    "own_request J (finished_run_request J S i output)"
  using assms
  by (simp_all add: queue_run_request_def start_run_request_def finished_run_request_def built_lookup)

section \<open>Reading back\<close>

lemma yields_pure: "c = Inr x \<Longrightarrow> yields (g x) cs rs y \<Longrightarrow> yields (bindE (pureE c) g) cs rs y"
  by (auto simp: yields_def bindE_def pureE_def)

lemma read_queue_run:
  assumes J: "jsonc_ok J"
  shows "yields (request_parse_queue_run J (queue_run_request J i x)) [] run_blocks
    \<lparr>run_id = -1, repo_url = repo_url x, repo_rev = repo_rev x, run_status = RUN_STATUS_CREATED,
     run_exit_code = -1\<rparr>"
  unfolding request_parse_queue_run_def run_queued_def
  by (rule yields_pure, use J in \<open>simp add: queue_run_request_def get_param_string_alt built_lookup jsonc_okD\<close>)+
    (rule run_new_yields)

lemma read_start_run:
  assumes J: "jsonc_ok J" and i: "in_int32 (run_id x)"
  shows "yields (request_parse_start_run J (start_run_request J x)) [] run_blocks
    \<lparr>run_id = run_id x, repo_url = repo_url x, repo_rev = repo_rev x,
     run_status = RUN_STATUS_CREATED, run_exit_code = -1\<rparr>"
  unfolding request_parse_start_run_def run_created_def
  by ((rule yields_pure, use J i in \<open>simp add: start_run_request_def get_param_string_alt
          get_param_int_alt built_lookup jsonc_okD in_int64_of_int32\<close>)+,
      use run_new_yields [of "run_id x"] i in \<open>simp add: int32_id\<close>)

lemma read_finished_run:
  assumes J: "jsonc_ok J" and S: "sodium_ok S" and i: "in_int32 i" "in_int32 (po_ec output)"
  shows "yields (request_parse_finished_run J S (finished_run_request J S i output)) []
    [Mem ''process_output'', Mem ''contents'']
    (i, \<lparr>po_ec = po_ec output, po_data = Some (output_bytes output),
         po_data_size = length (output_bytes output)\<rparr>)"
  unfolding request_parse_finished_run_def Let_def
  by (rule yields_bind_onErr [where qs = "[Mem ''process_output'']" and rs = "[Mem ''contents'']",
          simplified], rule process_output_create_yields,
      (rule yields_pure, use J i in \<open>simp add: finished_run_request_def get_param_string_alt
          get_param_int_alt built_lookup jsonc_okD in_int64_of_int32\<close>)+,
      use i in \<open>simp add: int32_id\<close>, rule yields_take, rule base64_decode_yields [OF S])
    (simp add: gives_back_def process_output_destroy_def swaps_def still_def)

lemma response_create_get_runs_yields:
  assumes i: "object_get_ex J (req_impl request) ''id'' = Some i"
  shows "yields (response_create_get_runs J request runs) [] [Response, Json]
    \<lparr>resp_impl = response_object J i
       (Some (foldl (array_add J) (new_array J) (map (run_object J) runs))) None\<rparr>"
proof -
  have "yields (response_create_get_runs J request runs) [Json] ([Json] @ [Response, Json])
    \<lparr>resp_impl = response_object J i
       (Some (foldl (array_add J) (new_array J) (map (run_object J) runs))) None\<rparr>"
    unfolding response_create_get_runs_def jsonrpc_response_create_def
    by (rule yields_bind_onErr, rule run_queue_to_json_yields)
      (use jsonrpc_response_create_internal_yields [OF i, of "Some _" None]
        in \<open>simp_all add: owned_def\<close>)
  then show ?thesis by (intro yields_cancel [of _ Json "[]"]) simp
qed

section \<open>Reading any request\<close>

lemma pure_then:
  assumes "bindE (pureE c) g w = (r, t)" "\<And>e. c = Inl e \<Longrightarrow> e < 0"
    and "\<And>x. c = Inr x \<Longrightarrow> g x w = (r, t) \<Longrightarrow> P r t" and "\<And>e. e < 0 \<Longrightarrow> P (Inl e) w"
  shows "P r t"
  using assms by (cases c) (auto simp: bindE_def pureE_def)

lemma get_param_negative:
  "jsonrpc_request_get_param_string J request name = Inl e \<Longrightarrow> e < 0"
  "jsonrpc_request_get_param_int J request name = Inl e \<Longrightarrow> e < 0"
  by (auto simp: get_param_string_alt get_param_int_alt split: option.splits if_splits)

end
