(* ===== verification/Command.thy ===== *)
theory Command
  imports Protocol
begin

text \<open>
  \<open>src/command.c\<close>: the table of commands, finding the handler of a request, and serving one
  message of a connection: receive, run the handler, answer. A handler is given the request
  and an argument; its \<open>int\<close> result and the response it may have stored are returned as a
  pair. \<open>command_set\<close> is the contract between the dispatcher and a table of commands.
\<close>

section \<open>Command tables\<close>

type_synonym ('j, 'a, 's) handler =
  "'j jsonrpc_request \<Rightarrow> 'a \<Rightarrow> 's \<Rightarrow> ((int + unit) \<times> 'j jsonrpc_response option) \<times> 's"

record ('j, 'a, 's) cmd_desc =
  cmd_name :: string
  cmd_handler :: "('j, 'a, 's) handler"

record ('j, 'a, 's, 'c) cmd_dispatcher =
  disp_cmds :: "('j, 'a, 's) cmd_desc list"
  disp_ctx :: 'c

record 'c cmd_conn_ctx =
  ctx_fd :: int
  ctx_arg :: 'c

definition copy_cmd ::
  "('j, 'a, 's) cmd_desc \<Rightarrow> ('z world_scheme, ('j, 'a, 's) cmd_desc) cfun" where
  "copy_cmd src =
     bindE (alloc (Mem ''cmd_name'')) (\<lambda>_.
       ok \<lparr>cmd_name = cmd_name src, cmd_handler = cmd_handler src\<rparr>)"

text \<open>\<open>free_cmd\<close> gets the \<open>name\<close> pointer, which is null where \<open>strdup\<close> failed.\<close>

definition free_cmd :: "string option \<Rightarrow> 'z world_scheme \<Rightarrow> 'z world_scheme" where
  "free_cmd name w = (case name of None \<Rightarrow> w | Some _ \<Rightarrow> release (Mem ''cmd_name'') w)"

text \<open>
  When the copy at \<open>numof_copied\<close> fails, the clean-up loop runs \<open>numof_copied\<close> times but
  frees the failed entry each time, whose name is null.
\<close>

fun copy_cmds_loop ::
  "('j, 'a, 's) cmd_desc list \<Rightarrow> ('j, 'a, 's) cmd_desc list \<Rightarrow>
     ('z world_scheme, ('j, 'a, 's) cmd_desc list) cfun" where
  "copy_cmds_loop dest [] w = (Inr dest, w)"
| "copy_cmds_loop dest (src # rest) w =
     (case copy_cmd src w of
        (Inl _, w1) \<Rightarrow> (Inl (-1), (free_cmd None ^^ length dest) w1)
      | (Inr c, w1) \<Rightarrow> copy_cmds_loop (dest @ [c]) rest w1)"

definition copy_cmds ::
  "('j, 'a, 's) cmd_desc list \<Rightarrow> ('z world_scheme, ('j, 'a, 's) cmd_desc list) cfun" where
  "copy_cmds src = copy_cmds_loop [] src"

fun free_cmds :: "('j, 'a, 's) cmd_desc list \<Rightarrow> 'z world_scheme \<Rightarrow> 'z world_scheme" where
  "free_cmds [] w = w"
| "free_cmds (c # cs) w = free_cmds cs (free_cmd (Some (cmd_name c)) w)"

definition cmd_dispatcher_create ::
  "('j, 'a, 's) cmd_desc list \<Rightarrow> 'c \<Rightarrow> ('z world_scheme, ('j, 'a, 's, 'c) cmd_dispatcher) cfun" where
  "cmd_dispatcher_create cmds ctx =
     bindE (alloc (Mem ''cmd_dispatcher'')) (\<lambda>_.
       onErr
         (bindE (alloc (Mem ''cmds'')) (\<lambda>_.
            onErr
              (bindE (copy_cmds cmds) (\<lambda>copied. ok \<lparr>disp_cmds = copied, disp_ctx = ctx\<rparr>))
              (release (Mem ''cmds''))))
         (release (Mem ''cmd_dispatcher'')))"

definition cmd_dispatcher_destroy ::
  "('j, 'a, 's, 'c) cmd_dispatcher \<Rightarrow> 'z world_scheme \<Rightarrow> 'z world_scheme" where
  "cmd_dispatcher_destroy dispatcher w =
     release (Mem ''cmd_dispatcher'') (release (Mem ''cmds'') (free_cmds (disp_cmds dispatcher) w))"

section \<open>Dispatch\<close>

fun dispatch_loop ::
  "('j, 'a, 'z world_scheme) cmd_desc list \<Rightarrow> string \<Rightarrow> ('j, 'a, 'z world_scheme) handler" where
  "dispatch_loop [] actual_cmd request arg w = ((Inl (-1), None), w)"
| "dispatch_loop (cmd # rest) actual_cmd request arg w =
     (if cmd_name cmd \<noteq> actual_cmd then dispatch_loop rest actual_cmd request arg w
      else cmd_handler cmd request arg w)"

text \<open>A request without a method string would hand a null pointer to \<open>strcmp\<close>.\<close>

definition cmd_dispatcher_handle_internal ::
  "'j jsonc \<Rightarrow> ('j, 'a, 'z world_scheme, 'c) cmd_dispatcher \<Rightarrow> ('j, 'a, 'z world_scheme) handler" where
  "cmd_dispatcher_handle_internal J dispatcher request arg w =
     (case jsonrpc_request_get_method J request of
        None \<Rightarrow>
          ((Inl (-1), None),
           if disp_cmds dispatcher = [] then w
           else undefined_behaviour ''cmd_dispatcher_handle_internal: null method'' w)
      | Some actual_cmd \<Rightarrow> dispatch_loop (disp_cmds dispatcher) actual_cmd request arg w)"

definition cmd_dispatcher_handle ::
  "'j jsonc \<Rightarrow> ('j, 'c, 'z world_scheme, 'c) cmd_dispatcher \<Rightarrow> 'j jsonrpc_request \<Rightarrow>
     'z world_scheme \<Rightarrow> ((int + unit) \<times> 'j jsonrpc_response option) \<times> 'z world_scheme" where
  "cmd_dispatcher_handle J dispatcher command w =
     cmd_dispatcher_handle_internal J dispatcher command (disp_ctx dispatcher) w"

definition make_conn_ctx :: "int \<Rightarrow> 'c \<Rightarrow> ('z world_scheme, 'c cmd_conn_ctx) cfun" where
  "make_conn_ctx fd arg =
     bindE (alloc (Mem ''cmd_conn_ctx'')) (\<lambda>_. ok \<lparr>ctx_fd = fd, ctx_arg = arg\<rparr>)"

section \<open>Serving a connection\<close>

definition destroy_response ::
  "'j jsonrpc_response option \<Rightarrow> 'z world_scheme \<Rightarrow> 'z world_scheme" where
  "destroy_response p w = (case p of None \<Rightarrow> w | Some x \<Rightarrow> jsonrpc_response_destroy x w)"

definition choose_response ::
  "'j jsonc \<Rightarrow> int + unit \<Rightarrow> 'j jsonrpc_response option \<Rightarrow> 'j jsonrpc_response option \<Rightarrow>
     'j jsonrpc_response option \<Rightarrow> 'j jsonrpc_response option" where
  "choose_response J ret response default_response default_error =
     (let actual = (case response of
                      None \<Rightarrow> if \<not> is_ok ret then default_error else default_response
                    | Some x \<Rightarrow> Some x)
      in case actual of
           None \<Rightarrow> None
         | Some x \<Rightarrow>
             if \<not> is_ok ret \<and> \<not> jsonrpc_response_is_error J x then default_error else Some x)"

text \<open>The part after the two default responses exist, up to \<open>free_default_response\<close>.\<close>

definition conn_respond ::
  "'j jsonc \<Rightarrow> ('j, 'c cmd_conn_ctx, 'z world_scheme, 'c) cmd_dispatcher \<Rightarrow> 'c cmd_conn_ctx \<Rightarrow>
     int \<Rightarrow> 'j jsonrpc_request \<Rightarrow> bool \<Rightarrow> 'j jsonrpc_response option \<Rightarrow>
     'j jsonrpc_response option \<Rightarrow> ('z world_scheme, unit) cfun" where
  "conn_respond J dispatcher new_ctx conn_fd request requires_response default_response
      default_error w =
     (case cmd_dispatcher_handle_internal J dispatcher request new_ctx w of
        ((ret, response), w1) \<Rightarrow>
          after
            (if requires_response then
               (\<lambda>v. case choose_response J ret response default_response default_error of
                  None \<Rightarrow> (Inl (-1), undefined_behaviour ''jsonrpc_response_send: null'' v)
                | Some actual_response \<Rightarrow>
                    (case jsonrpc_response_send J actual_response conn_fd v of
                       (Inl _, v1) \<Rightarrow> (Inl (-1), v1)
                     | (Inr _, v1) \<Rightarrow> (ret, v1)))
             else pureE ret)
            (\<lambda>v. destroy_response default_error (destroy_response response v))
            w1)"

definition when_required ::
  "bool \<Rightarrow> ('z world_scheme, 'a) cfun \<Rightarrow> ('z world_scheme, 'a option) cfun" where
  "when_required b f = (if b then bindE f (\<lambda>x. ok (Some x)) else ok None)"

definition cmd_dispatcher_handle_conn_internal ::
  "'j jsonc \<Rightarrow> int \<Rightarrow> ('j, 'c cmd_conn_ctx, 'z world_scheme, 'c) cmd_dispatcher \<Rightarrow>
     ('z world_scheme, unit) cfun" where
  "cmd_dispatcher_handle_conn_internal J conn_fd dispatcher =
     bindE (make_conn_ctx conn_fd (disp_ctx dispatcher)) (\<lambda>new_ctx.
       after
         (bindE (jsonrpc_request_recv J conn_fd) (\<lambda>request.
            let requires_response = \<not> jsonrpc_request_is_notification J request
            in after
                 (bindE (when_required requires_response (jsonrpc_response_create J request None))
                    (\<lambda>default_response.
                      after
                        (bindE
                           (when_required requires_response
                              (jsonrpc_error_create J request (-1) ''An error occured''))
                           (\<lambda>default_error.
                              conn_respond J dispatcher new_ctx conn_fd request requires_response
                                default_response default_error))
                        (destroy_response default_response)))
                 (jsonrpc_request_destroy request)))
         (release (Mem ''cmd_conn_ctx'')))"

definition cmd_dispatcher_handle_conn ::
  "'j jsonc \<Rightarrow> int \<Rightarrow> ('j, 'c cmd_conn_ctx, 'z world_scheme, 'c) cmd_dispatcher \<Rightarrow>
     ('z world_scheme, unit) cfun" where
  "cmd_dispatcher_handle_conn J conn_fd dispatcher =
     cmd_dispatcher_handle_conn_internal J conn_fd dispatcher"

text \<open>\<open>revents\<close> is the set of poll flags; only \<open>POLLIN\<close> matters here.\<close>

definition cmd_dispatcher_handle_event ::
  "'j jsonc \<Rightarrow> int \<Rightarrow> bool \<Rightarrow> ('j, 'c cmd_conn_ctx, 'z world_scheme, 'c) cmd_dispatcher \<Rightarrow>
     ('z world_scheme, unit) cfun" where
  "cmd_dispatcher_handle_event J fd pollin dispatcher =
     (if \<not> pollin then failing (-1) else cmd_dispatcher_handle_conn_internal J fd dispatcher)"

section \<open>What the dispatcher asks of its handlers\<close>

text \<open>The extension of a world as a world of its own.\<close>

definition as_world :: "'z \<Rightarrow> 'z world_scheme" where
  "as_world m = world.extend \<lparr>answers = [], trace = [], rx = (\<lambda>_. []), rpc_id = 0\<rparr> m"

text \<open>
  \<open>holds\<close> is what the component behind the handlers owns in a given state, so \<open>ledger\<close> is
  what a run owns beside it. A descriptor is left out: \<open>heap\<close> resources are blocks, library
  objects and children.
\<close>

definition heap :: "resource \<Rightarrow> bool" where
  "heap q \<longleftrightarrow> (\<forall>d. q \<noteq> Desc d)"

definition ledger :: "('z \<Rightarrow> resource \<Rightarrow> int) \<Rightarrow> 'z world_scheme \<Rightarrow> resource \<Rightarrow> int" where
  "ledger holds w q = bal (trace w) q - holds (world.more w) q"

definition accounts ::
  "('z \<Rightarrow> resource \<Rightarrow> int) \<Rightarrow> 'z world_scheme \<Rightarrow> 'z world_scheme \<Rightarrow> resource list \<Rightarrow>
     resource list \<Rightarrow> bool" where
  "accounts holds w t cs rs \<longleftrightarrow> undef (trace t) = undef (trace w) \<and> (reliable w \<longrightarrow> reliable t) \<and>
     (\<forall>q. heap q \<longrightarrow> ledger holds t q + int (count_list cs q) = ledger holds w q + int (count_list rs q))"

definition reply_to :: "'j jsonc \<Rightarrow> 'j \<Rightarrow> 'j jsonrpc_response \<Rightarrow> bool" where
  "reply_to J i p \<longleftrightarrow> (\<exists>result error. p = \<lparr>resp_impl = response_object J i result error\<rparr> \<and>
     (error = None \<or> (\<exists>e. error = Some e \<and> valid_error J e)))"

lemma accounts_swaps:
  "swaps w t cs rs \<Longrightarrow> accounts holds w t cs rs"
  by (auto simp: swaps_def accounts_def ledger_def)

lemma accounts_takes: "takes w t rs \<Longrightarrow> accounts holds w t [] rs"
  by (rule accounts_swaps) (simp add: swaps_takes)

lemma accountsD:
  "accounts holds w t cs rs \<Longrightarrow> undef (trace t) = undef (trace w)"
  "accounts holds w t cs rs \<Longrightarrow> reliable w \<Longrightarrow> reliable t"
  "accounts holds w t cs rs \<Longrightarrow> heap q \<Longrightarrow>
     ledger holds t q = ledger holds w q + int (count_list rs q) - int (count_list cs q)"
  by (simp_all add: accounts_def eq_diff_eq)

lemma accountsI:
  assumes "undef (trace t) = undef (trace w)" "reliable w \<Longrightarrow> reliable t"
    and "\<And>q. heap q \<Longrightarrow>
      ledger holds t q = ledger holds w q + int (count_list rs q) - int (count_list cs q)"
  shows "accounts holds w t cs rs"
  using assms by (simp add: accounts_def)

lemma accounts_trans:
  assumes "accounts holds w u cs rs" "accounts holds u t ds qs"
  shows "accounts holds w t (cs @ ds) (rs @ qs)"
  by (rule accountsI) (simp_all add: assms [THEN accountsD(1)] assms [THEN accountsD(2)]
      assms [THEN accountsD(3)])

lemma accounts_cancel:
  assumes "accounts holds w t cs rs" "mset (cs @ qs) = mset (rs @ ds)"
  shows "accounts holds w t ds qs"
proof (rule accountsI)
  fix q
  assume "heap q"
  have "count_list cs q + count_list qs q = count_list rs q + count_list ds q"
    using assms(2) by (metis count_list_append count_mset)
  with accountsD(3) [OF assms(1) \<open>heap q\<close>]
  show "ledger holds t q = ledger holds w q + int (count_list qs q) - int (count_list ds q)"
    by linarith
qed (use accountsD [OF assms(1)] in simp_all)

text \<open>The two responses that are prepared before the handler runs.\<close>

definition default_reply :: "'j jsonc \<Rightarrow> 'j \<Rightarrow> 'j jsonrpc_response" where
  "default_reply J i = \<lparr>resp_impl = response_object J i None None\<rparr>"

definition default_error_reply :: "'j jsonc \<Rightarrow> 'j \<Rightarrow> 'j jsonrpc_response" where
  "default_error_reply J i =
     \<lparr>resp_impl = response_object J i None (Some (error_object J (-1) ''An error occured''))\<rparr>"

lemma default_replies:
  assumes "jsonc_ok J"
  shows "reply_to J i (default_reply J i)" "reply_to J i (default_error_reply J i)"
    "\<not> jsonrpc_response_is_error J (default_reply J i)"
    "jsonrpc_response_is_error J (default_error_reply J i)"
  using assms error_object_valid [of J "-1"]
  by (auto simp: reply_to_def default_reply_def default_error_reply_def in_int64_def
      jsonrpc_response_is_error_def libjson_has_def response_object_lookup)

lemma choose_response_reply:
  assumes "jsonc_ok J" "\<And>p. resp = Some p \<Longrightarrow> reply_to J i p"
  shows "\<exists>p. choose_response J ret resp (Some (default_reply J i)) (Some (default_error_reply J i)) = Some p \<and>
    reply_to J i p \<and> (\<not> is_ok ret \<longrightarrow> jsonrpc_response_is_error J p) \<and>
    (resp = None \<longrightarrow> p = (if is_ok ret then default_reply J i else default_error_reply J i))"
  using assms default_replies [OF assms(1), of i]
  by (cases resp; cases "is_ok ret") (auto simp: choose_response_def)

lemma destroy_response_swaps:
  "swaps w (destroy_response p w) (if p = None then [] else [Response, Json]) [] \<and>
   still w (destroy_response p w)"
  using gives_backD [OF gives_back_response]
  by (cases p) (auto simp only: destroy_response_def option.case swaps_takes calm_refl still_refl
      simp_thms option.distinct if_True if_False)

lemma swaps_more: "swaps w t cs rs \<Longrightarrow> world.more t = world.more w"
  by (simp add: swaps_def)

text \<open>The two responses are there, or something failed and nothing happened.\<close>

lemma conn_defaults:
  assumes "bindE (when_required b (jsonrpc_response_create J request None)) k w = (r, t)"
    and b: "b \<longleftrightarrow> object_get_ex J (req_impl request) ''id'' \<noteq> None"
  shows "(\<not> reliable w \<and> calm w t \<and> still w t \<and> (\<exists>e. r = Inl e \<and> e < 0)) \<or>
    (\<exists>u. takes w u (if b then [Response, Json] else []) \<and> still w u \<and>
      k (map_option (default_reply J) (object_get_ex J (req_impl request) ''id'')) u = (r, t))"
proof (cases "object_get_ex J (req_impl request) ''id''")
  case None
  with assms show ?thesis by (auto simp: when_required_def bindE_def ok_def)
next
  case (Some i)
  have y: "yields (when_required True (jsonrpc_response_create J request None)) [] [Response, Json]
      (Some (default_reply J i))"
    using jsonrpc_response_create_internal_yields [OF Some, of None None]
    by (auto simp: when_required_def jsonrpc_response_create_def default_reply_def owned_def
        intro: yields_then_ok)
  obtain a u where f: "when_required True (jsonrpc_response_create J request None) w = (a, u)"
    by (cases "when_required True (jsonrpc_response_create J request None) w")
  from yieldsD [OF y f] assms Some f show ?thesis
    by (cases a) (auto simp: bindE_def swaps_takes)
qed

lemma conn_default_errors:
  assumes "bindE (when_required b (jsonrpc_error_create J request (-1) ''An error occured'')) k w = (r, t)"
    and b: "b \<longleftrightarrow> object_get_ex J (req_impl request) ''id'' \<noteq> None"
  shows "(\<not> reliable w \<and> calm w t \<and> still w t \<and> (\<exists>e. r = Inl e \<and> e < 0)) \<or>
    (\<exists>u. takes w u (if b then [Response, Json] else []) \<and> still w u \<and>
      k (map_option (default_error_reply J) (object_get_ex J (req_impl request) ''id'')) u = (r, t))"
proof (cases "object_get_ex J (req_impl request) ''id''")
  case None
  with assms show ?thesis by (auto simp: when_required_def bindE_def ok_def)
next
  case (Some i)
  have y: "yields (when_required True (jsonrpc_error_create J request (-1) ''An error occured''))
      [] [Response, Json] (Some (default_error_reply J i))"
    using jsonrpc_error_create_yields [OF Some, of "-1" "''An error occured''"]
    by (auto simp: when_required_def default_error_reply_def intro: yields_then_ok)
  obtain a u where
    f: "when_required True (jsonrpc_error_create J request (-1) ''An error occured'') w = (a, u)"
    by (cases "when_required True (jsonrpc_error_create J request (-1) ''An error occured'') w")
  from yieldsD [OF y f] assms Some f show ?thesis
    by (cases a) (auto simp: bindE_def swaps_takes)
qed

lemma after_run: "after f c w = (r, t) \<Longrightarrow> \<exists>u. f w = (r, u) \<and> t = c u"
  by (auto simp: after_def split: prod.splits)

locale command_set =
  fixes J :: "'j jsonc"
    and cmds :: "('j, 'c cmd_conn_ctx, 'z world_scheme) cmd_desc list"
    and good :: "'z \<Rightarrow> bool"
    and holds :: "'z \<Rightarrow> resource \<Rightarrow> int"
  assumes handler: "cmd \<in> set cmds \<Longrightarrow> good (world.more w) \<Longrightarrow> valid_request J (req_impl request) \<Longrightarrow>
      cmd_handler cmd request ctx w = ((ret, resp), t) \<Longrightarrow>
      good (world.more t) \<and> rx t = rx w \<and> (\<forall>d. sent d (trace t) = sent d (trace w)) \<and>
      accounts holds w t [] (if resp = None then [] else [Response, Json]) \<and>
      (\<forall>e. ret = Inl e \<longrightarrow> e < 0) \<and>
      (\<forall>p. resp = Some p \<longrightarrow>
         (\<exists>i. object_get_ex J (req_impl request) ''id'' = Some i \<and> reply_to J i p))"
begin

lemma dispatch:
  assumes "set cs \<subseteq> set cmds" "good (world.more w)" "valid_request J (req_impl request)"
    and "dispatch_loop cs m request ctx w = ((ret, resp), t)"
  shows "good (world.more t) \<and> rx t = rx w \<and> (\<forall>d. sent d (trace t) = sent d (trace w)) \<and>
    accounts holds w t [] (if resp = None then [] else [Response, Json]) \<and>
    (\<forall>e. ret = Inl e \<longrightarrow> e < 0) \<and>
    (\<forall>p. resp = Some p \<longrightarrow>
       (\<exists>i. object_get_ex J (req_impl request) ''id'' = Some i \<and> reply_to J i p))"
  using assms
proof (induction cs)
  case Nil
  then show ?case by (auto simp: accounts_def)
next
  case (Cons c cs)
  show ?case
  proof (cases "cmd_name c = m")
    case True
    with Cons.prems handler [of c w request ctx ret resp t] show ?thesis by simp
  next
    case False
    with Cons show ?thesis by simp
  qed
qed

definition respond_post where
  "respond_post request conn_fd w r t \<longleftrightarrow>
     good (world.more t) \<and> rx t = rx w \<and> (\<forall>e. r = Inl e \<longrightarrow> e < 0) \<and>
     (\<forall>d. d \<noteq> conn_fd \<longrightarrow> sent d (trace t) = sent d (trace w)) \<and>
     (case object_get_ex J (req_impl request) ''id'' of
        None \<Rightarrow> sent conn_fd (trace t) = sent conn_fd (trace w)
      | Some i \<Rightarrow> \<exists>p bs rest. reply_to J i p \<and> message J (resp_impl p) = bs @ rest \<and>
          sent conn_fd (trace t) = sent conn_fd (trace w) @ bs \<and>
          (is_ok r \<or> reliable w \<longrightarrow> rest = []) \<and>
          (reliable w \<and> \<not> is_ok r \<longrightarrow> jsonrpc_response_is_error J p))"

lemma conn_respond_post:
  assumes run: "conn_respond J \<lparr>disp_cmds = cmds, disp_ctx = c\<rparr> ctx conn_fd request b dr de w = (r, t)"
    and w: "good (world.more w)" "valid_request J (req_impl request)"
    and b: "b \<longleftrightarrow> object_get_ex J (req_impl request) ''id'' \<noteq> None"
    and dr: "dr = map_option (default_reply J) (object_get_ex J (req_impl request) ''id'')"
    and de: "de = map_option (default_error_reply J) (object_get_ex J (req_impl request) ''id'')"
    and json: "jsonc_ok J"
  shows "respond_post request conn_fd w r t \<and>
    accounts holds w t (if b then [Response, Json] else []) []"
proof -
  obtain m where m: "jsonrpc_request_get_method J request = Some m"
    using valid_request_method [OF w(2)] by (cases request) auto
  obtain ret resp w1 where d: "dispatch_loop cmds m request ctx w = ((ret, resp), w1)"
    by (metis surj_pair)
  note h = dispatch [OF subset_refl w d]
  show ?thesis
  proof (cases "object_get_ex J (req_impl request) ''id''")
    case None
    with h have "resp = None" by auto
    with run m d None b de have "r = ret" "t = w1"
      by (auto simp: conn_respond_def cmd_dispatcher_handle_internal_def after_def pureE_def
          destroy_response_def)
    with h \<open>resp = None\<close> None b show ?thesis by (auto simp: respond_post_def)
  next
    case (Some i)
    with h have "\<And>p. resp = Some p \<Longrightarrow> reply_to J i p" by auto
    from choose_response_reply [where ret = ret, OF json this] obtain p where p:
      "choose_response J ret resp (Some (default_reply J i)) (Some (default_error_reply J i)) = Some p"
      "reply_to J i p" "\<not> is_ok ret \<longrightarrow> jsonrpc_response_is_error J p" by blast
    obtain x v where s: "jsonrpc_response_send J p conn_fd w1 = (x, v)"
      by (cases "jsonrpc_response_send J p conn_fd w1")
    note ss = libjson_send_spec [OF s [unfolded jsonrpc_response_send_def]]
    have rt: "r = (if is_ok x then ret else Inl (-1))"
      "t = destroy_response de (destroy_response resp v)"
      using run m d p(1) s Some b dr de
      by (auto simp: conn_respond_def cmd_dispatcher_handle_internal_def after_def
          split: sum.splits)
    note dst = destroy_response_swaps [of v resp] destroy_response_swaps [of "destroy_response resp v" de]
    have "accounts holds w t (([] @ [] @ (if resp = None then [] else [Response, Json])) @
        (if de = None then [] else [Response, Json]))
      (((if resp = None then [] else [Response, Json]) @ [] @ []) @ [])"
      unfolding rt(2)
      by (intro accounts_trans) (use h ss dst accounts_swaps accounts_takes in blast)+
    then have "accounts holds w t [Response, Json] []"
      by (rule accounts_cancel) (simp add: de Some)
    moreover have "world.more t = world.more w1" "rx t = rx w1"
      "sent d (trace t) = sent d (trace v)" for d
      using ss dst [THEN conjunct1, THEN swaps_more] dst [THEN conjunct2]
      by (auto simp: rt(2) takes_def still_def)
    moreover have "reliable w \<longrightarrow> is_ok x"
      using ss h by (simp add: accounts_def)
    moreover obtain bs rest where "message J (resp_impl p) = bs @ rest"
      "sent conn_fd (trace v) = sent conn_fd (trace w1) @ bs" "is_ok x \<longrightarrow> rest = []"
      using ss by (cases x) auto
    ultimately show ?thesis
      using h ss rt(1) p(2,3) Some b
      unfolding respond_post_def by (cases "is_ok x") auto
  qed
qed

text \<open>
  What serving one message amounts to: either no valid request was received, and nothing is
  sent; or one was, and then the handler's table decides. In every case the run owns nothing
  afterwards that it did not own before.
\<close>

definition conn_post where
  "conn_post request conn_fd w r t \<longleftrightarrow>
     respond_post request conn_fd w r t \<or>
     (\<not> reliable w \<and> good (world.more t) \<and> still w t \<and> (\<exists>e. r = Inl e \<and> e < 0))"

lemma conn_post_before:
  assumes "conn_post request conn_fd u r t" "still w u" "reliable w \<longrightarrow> reliable u"
  shows "conn_post request conn_fd w r t"
  using assms unfolding conn_post_def respond_post_def still_def
  by (auto split: option.splits)

lemma conn_post_after:
  assumes "conn_post request conn_fd w r u" "still u t" "world.more t = world.more u"
  shows "conn_post request conn_fd w r t"
  using assms unfolding conn_post_def respond_post_def still_def
  by (auto split: option.splits)

lemma good_calm: "calm w t \<Longrightarrow> good (world.more w) \<Longrightarrow> good (world.more t)"
  by (simp add: takes_def)

lemma conn_served_post:
  assumes run: "bindE (when_required b (jsonrpc_response_create J request None)) (\<lambda>dr.
      after
        (bindE (when_required b (jsonrpc_error_create J request (-1) ''An error occured''))
           (\<lambda>de. conn_respond J \<lparr>disp_cmds = cmds, disp_ctx = c\<rparr> ctx conn_fd request b dr de))
        (destroy_response dr)) w = (r, t)"
    and w: "good (world.more w)" "valid_request J (req_impl request)"
    and b: "b \<longleftrightarrow> object_get_ex J (req_impl request) ''id'' \<noteq> None" and json: "jsonc_ok J"
  shows "conn_post request conn_fd w r t \<and> accounts holds w t [] []"
  using conn_defaults [OF run b]
proof (elim disjE exE conjE)
  fix e
  assume "\<not> reliable w" "calm w t" "still w t" "r = Inl e" "e < 0"
  with w(1) show ?thesis by (auto simp: conn_post_def good_calm intro: accounts_takes)
next
  fix u
  let ?rs = "if b then [Response, Json] else []"
  let ?dr = "map_option (default_reply J) (object_get_ex J (req_impl request) ''id'')"
  assume u: "takes w u ?rs" "still w u"
    and k: "after
        (bindE (when_required b (jsonrpc_error_create J request (-1) ''An error occured''))
           (\<lambda>de. conn_respond J \<lparr>disp_cmds = cmds, disp_ctx = c\<rparr> ctx conn_fd request b ?dr de))
        (destroy_response ?dr) u = (r, t)"
  from u w(1) have gu: "good (world.more u)" "reliable w \<longrightarrow> reliable u" by (simp_all add: takes_def)
  obtain v where v: "bindE (when_required b (jsonrpc_error_create J request (-1) ''An error occured''))
      (\<lambda>de. conn_respond J \<lparr>disp_cmds = cmds, disp_ctx = c\<rparr> ctx conn_fd request b ?dr de) u = (r, v)"
    and t: "t = destroy_response ?dr v" using after_run [OF k] by blast
  have post: "conn_post request conn_fd u r v \<and> accounts holds u v [] []"
    using conn_default_errors [OF v b]
  proof (elim disjE exE conjE)
    fix e
    assume "\<not> reliable u" "calm u v" "still u v" "r = Inl e" "e < 0"
    with gu show ?thesis by (auto simp: conn_post_def good_calm intro: accounts_takes)
  next
    fix x
    let ?de = "map_option (default_error_reply J) (object_get_ex J (req_impl request) ''id'')"
    assume x: "takes u x ?rs" "still u x"
      and y: "conn_respond J \<lparr>disp_cmds = cmds, disp_ctx = c\<rparr> ctx conn_fd request b ?dr ?de x = (r, v)"
    from x gu have gx: "good (world.more x)" "reliable u \<longrightarrow> reliable x" by (simp_all add: takes_def)
    note p = conn_respond_post [OF y gx(1) w(2) b refl refl json]
    from p have "conn_post request conn_fd x r v" by (simp add: conn_post_def)
    moreover have "accounts holds u v [] []"
      by (rule accounts_cancel [OF accounts_trans [OF accounts_takes [OF x(1)] p [THEN conjunct2]]]) simp
    ultimately show ?thesis using conn_post_before x(2) gx(2) by blast
  qed
  note ds = destroy_response_swaps [of v ?dr]
  have "accounts holds w t [] []"
    unfolding t
    by (rule accounts_cancel [OF accounts_trans [OF accounts_trans [OF accounts_takes [OF u(1)]
            post [THEN conjunct2]] accounts_swaps [OF ds [THEN conjunct1]]]]) (auto simp: b)
  moreover have "conn_post request conn_fd w r t"
    using conn_post_after [OF conn_post_before [OF _ u(2) gu(2)]] post ds swaps_more t by blast
  ultimately show ?thesis by blast
qed

text \<open>The whole of \<open>cmd_dispatcher_handle_conn\<close>.\<close>

lemma handle_conn_spec:
  assumes run: "cmd_dispatcher_handle_conn J conn_fd \<lparr>disp_cmds = cmds, disp_ctx = c\<rparr> w = (r, t)"
    and w: "good (world.more w)" and safe: "\<not> unterminated w conn_fd" and json: "jsonc_ok J"
  shows "good (world.more t) \<and> accounts holds w t [] [] \<and>
    (\<forall>d. d \<noteq> conn_fd \<longrightarrow> rx t d = rx w d \<and> sent d (trace t) = sent d (trace w)) \<and>
    (((\<forall>d. sent d (trace t) = sent d (trace w)) \<and> (\<exists>e. r = Inl e \<and> e < 0) \<and>
        (reliable w \<longrightarrow> (\<exists>e u. jsonrpc_request_recv J conn_fd
           (emit (Acquire (Mem ''cmd_conn_ctx'')) (used w)) = (Inl e, u)))) \<or>
     (\<exists>request u. jsonrpc_request_recv J conn_fd (emit (Acquire (Mem ''cmd_conn_ctx'')) (used w)) =
           (Inr request, u) \<and> arrives J w conn_fd t (req_impl request) \<and>
        valid_request J (req_impl request) \<and> respond_post request conn_fd u r t))"
proof (cases "answer w < 0")
  case True
  with run w show ?thesis
    by (auto simp: cmd_dispatcher_handle_conn_def cmd_dispatcher_handle_conn_internal_def
        make_conn_ctx_def bindE_def alloc_def intro!: accounts_takes)
next
  case False
  define w1 where "w1 = emit (Acquire (Mem ''cmd_conn_ctx'')) (used w)"
  have w1: "takes w w1 [Mem ''cmd_conn_ctx'']" "still w w1"
    by (auto simp: w1_def takes_def still_def)
  obtain a w2 where rec: "jsonrpc_request_recv J conn_fd w1 = (a, w2)"
    by (cases "jsonrpc_request_recv J conn_fd w1")
  have "\<not> unterminated w1 conn_fd" using safe by (simp add: unterminated_def w1_def)
  note rs = jsonrpc_request_recv_takes [OF rec this]
  have free: "swaps v (release (Mem ''cmd_conn_ctx'') v) [Mem ''cmd_conn_ctx''] []" for v :: "'z world_scheme"
    using gives_backD(1) [OF gives_back_release] .
  have flat: "(\<forall>d. d \<noteq> conn_fd \<longrightarrow> rx w2 d = rx w d) \<and> (\<forall>d. sent d (trace w2) = sent d (trace w))"
    using rs w1 by (simp add: still_def)
  have ctx: "make_conn_ctx conn_fd c w = (Inr \<lparr>ctx_fd = conn_fd, ctx_arg = c\<rparr>, w1)"
    using False by (simp add: make_conn_ctx_def bindE_def alloc_def ok_def w1_def)
  show ?thesis
  proof (cases a)
    case (Inl e)
    with run rec False have "r = Inl e" "t = release (Mem ''cmd_conn_ctx'') w2"
      by (auto simp: cmd_dispatcher_handle_conn_def cmd_dispatcher_handle_conn_internal_def
          make_conn_ctx_def bindE_def alloc_def ok_def after_def w1_def split: prod.splits)
    moreover have "accounts holds w (release (Mem ''cmd_conn_ctx'') w2) [] []"
      using rs(1) Inl
      by (intro accounts_cancel [OF accounts_trans [OF accounts_trans [OF accounts_takes [OF w1(1)]
              accounts_takes [OF rs(1)]] accounts_swaps [OF free]]]) simp
    ultimately show ?thesis
      using rs(1,4) Inl flat w w1 rec by (auto simp: takes_def simp flip: w1_def)
  next
    case (Inr request)
    define b where "b \<longleftrightarrow> \<not> jsonrpc_request_is_notification J request"
    have b: "b \<longleftrightarrow> object_get_ex J (req_impl request) ''id'' \<noteq> None"
      by (simp add: b_def jsonrpc_request_is_notification_def libjson_has_def)
    obtain v where v: "bindE (when_required b (jsonrpc_response_create J request None)) (\<lambda>dr. after
        (bindE (when_required b (jsonrpc_error_create J request (-1) ''An error occured''))
           (\<lambda>de. conn_respond J \<lparr>disp_cmds = cmds, disp_ctx = c\<rparr> \<lparr>ctx_fd = conn_fd, ctx_arg = c\<rparr>
              conn_fd request b dr de)) (destroy_response dr)) w2 = (r, v)"
      and t: "t = release (Mem ''cmd_conn_ctx'') (jsonrpc_request_destroy request v)"
      using run
      by (auto simp: cmd_dispatcher_handle_conn_def cmd_dispatcher_handle_conn_internal_def
          bindE_run(1) [where f = "make_conn_ctx conn_fd c", OF ctx] Let_def b_def
          bindE_run(1) [where f = "jsonrpc_request_recv J conn_fd", OF rec [unfolded Inr]]
          dest!: after_run)
    have ok: "arrives J w1 conn_fd w2 (req_impl request)" "valid_request J (req_impl request)"
      using rs(5) Inr by auto
    have g2: "good (world.more w2)" using rs(1) w1 w by (simp add: takes_def)
    note p = conn_served_post [OF v g2 ok(2) b json]
    have d: "swaps v (jsonrpc_request_destroy request v) [Request, Json] []"
      "still v (jsonrpc_request_destroy request v)"
      using gives_backD [OF gives_back_request] by auto
    have acc: "accounts holds w t [] []"
      unfolding t
      by (rule accounts_cancel [OF accounts_trans [OF accounts_trans [OF accounts_trans [OF
              accounts_trans [OF accounts_takes [OF w1(1)] accounts_takes [OF rs(1)]]
              p [THEN conjunct2]] accounts_swaps [OF d(1)]] accounts_swaps [OF free]]])
        (simp add: Inr)
    have post: "conn_post request conn_fd w2 r t"
      by (rule conn_post_after [where u = v])
        (use p d swaps_more [OF d(1)] in \<open>simp_all add: t still_def\<close>)
    have arr: "arrives J w conn_fd t (req_impl request)"
      using ok(1) post w1(2) by (auto simp: arrives_def conn_post_def respond_post_def still_def)
    show ?thesis
      using post unfolding conn_post_def
    proof
      assume "respond_post request conn_fd w2 r t"
      with acc flat rec Inr ok(2) arr show ?thesis
        unfolding w1_def [symmetric] by (auto simp: respond_post_def)
    next
      assume "\<not> reliable w2 \<and> good (world.more t) \<and> still w2 t \<and> (\<exists>e. r = Inl e \<and> e < 0)"
      moreover have "reliable w \<longrightarrow> reliable w2" using rs(1) w1 by (simp add: takes_def)
      ultimately show ?thesis using acc flat by (auto simp: still_def)
    qed
  qed
qed

text \<open>When nothing fails, a valid request is served, and a request with an id is answered once.\<close>

lemma handle_conn_delivered:
  assumes run: "cmd_dispatcher_handle_conn J conn_fd \<lparr>disp_cmds = cmds, disp_ctx = c\<rparr> w = (r, t)"
    and w: "good (world.more w)" "reliable w"
    and v: "wire_ok J v" "valid_request J v" "rx w conn_fd = message J v @ rest"
    and json: "jsonc_ok J"
  shows "rx t conn_fd = rest \<and>
    (case object_get_ex J v ''id'' of
       None \<Rightarrow> sent conn_fd (trace t) = sent conn_fd (trace w)
     | Some i \<Rightarrow> \<exists>p. reply_to J i p \<and> (\<not> is_ok r \<longrightarrow> jsonrpc_response_is_error J p) \<and>
         sent conn_fd (trace t) = sent conn_fd (trace w) @ message J (resp_impl p))"
proof -
  define w1 where "w1 = emit (Acquire (Mem ''cmd_conn_ctx'')) (used w)"
  have w1: "reliable w1" "rx w1 conn_fd = message J v @ rest" using w v by (simp_all add: w1_def)
  obtain a u where rec: "jsonrpc_request_recv J conn_fd w1 = (a, u)"
    by (cases "jsonrpc_request_recv J conn_fd w1")
  note ms = jsonrpc_request_recv_message [OF rec v(1) w1(2)]
  from ms(2) [OF w1(1) v(2)] have a: "a = Inr \<lparr>req_impl = v\<rparr>" .
  have "\<not> unterminated w1 conn_fd" by (rule message_terminated [OF v(1) w1(2)])
  note rs = jsonrpc_request_recv_takes [OF rec this]
  have "respond_post \<lparr>req_impl = v\<rparr> conn_fd u r t"
    using handle_conn_spec [OF run w(1) message_terminated [OF v(1,3)] json] rec a w(2)
    unfolding w1_def [symmetric] by auto
  moreover have "reliable u" "sent conn_fd (trace u) = sent conn_fd (trace w)" "rx u conn_fd = rest"
    using rs(1,3) w1(1) ms(1) [OF a] by (auto simp: takes_def w1_def)
  ultimately show ?thesis
    unfolding respond_post_def by (auto split: option.splits)
qed

end

section \<open>The table of commands\<close>

lemma dispatch_unknown:
  "actual_cmd \<notin> cmd_name ` set cs \<Longrightarrow> dispatch_loop cs actual_cmd request arg w = ((Inl (-1), None), w)"
  by (induction cs) auto

lemma dispatch_known:
  "c \<in> set cs \<Longrightarrow> distinct (map cmd_name cs) \<Longrightarrow>
     dispatch_loop cs (cmd_name c) request arg w = cmd_handler c request arg w"
  by (induction cs) force+

lemma copy_cmds_loop_spec:
  "copy_cmds_loop dest src w = (r, t) \<Longrightarrow>
     (r = Inr (dest @ src) \<and> takes w t (replicate (length src) (Mem ''cmd_name''))) \<or>
     (\<exists>n < length src. r = Inl (-1) \<and> \<not> reliable w \<and>
        takes w t (replicate n (Mem ''cmd_name'')))"
proof (induction src arbitrary: dest w)
  case Nil
  then show ?case by simp
next
  case (Cons c src)
  have null: "(free_cmd None ^^ n) v = v" for n :: nat and v :: "'z world_scheme"
    by (induction n) (simp_all add: free_cmd_def)
  show ?case
  proof (cases "answer w < 0")
    case True
    with Cons.prems have "r = Inl (-1)" "t = used w"
      by (auto simp: copy_cmd_def bindE_def alloc_def null)
    with True show ?thesis by (intro disjI2 exI [of _ 0]) (auto simp: takes_def)
  next
    case False
    let ?u = "emit (Acquire (Mem ''cmd_name'')) (used w)"
    have u: "takes w ?u [Mem ''cmd_name'']" by (auto simp: takes_def)
    from False Cons.prems have "copy_cmds_loop (dest @ [c]) src ?u = (r, t)"
      by (cases c) (simp add: copy_cmd_def bindE_def alloc_def ok_def)
    from Cons.IH [OF this] show ?thesis
    proof (elim disjE exE conjE)
      assume "r = Inr ((dest @ [c]) @ src)" "takes ?u t (replicate (length src) (Mem ''cmd_name''))"
      then show ?thesis using takes_trans [OF u] by force
    next
      fix n
      assume n: "n < length src" "r = Inl (-1)" "\<not> reliable ?u"
        "takes ?u t (replicate n (Mem ''cmd_name''))"
      with takes_trans [OF u n(4)] show ?thesis
        by (intro disjI2 exI [of _ "Suc n"]) auto
    qed
  qed
qed

section \<open>One message, one command\<close>

lemma choose_none_more:
  assumes "(if b then
       (\<lambda>v. case choose_response J ret resp dr de of
          None \<Rightarrow> (Inl (-1), undefined_behaviour msg v)
        | Some p \<Rightarrow>
            (case jsonrpc_response_send J p fd v of (Inl _, v1) \<Rightarrow> (Inl (-1), v1) | (Inr _, v1) \<Rightarrow> (ret, v1)))
     else pureE ret) w = (r, t)"
  shows "world.more t = world.more w \<and> (is_ok r \<longrightarrow> is_ok ret) \<and> (\<not> b \<longrightarrow> r = ret \<and> t = w) \<and>
    (\<forall>p. reliable w \<longrightarrow> b \<longrightarrow> choose_response J ret resp dr de = Some p \<longrightarrow>
       r = ret \<and> sent fd (trace t) = sent fd (trace w) @ message J (resp_impl p))"
proof (cases b)
  case False
  with assms show ?thesis by (simp add: pureE_def)
next
  case True
  show ?thesis
  proof (cases "choose_response J ret resp dr de")
    case None
    with True assms show ?thesis by auto
  next
    case (Some p)
    obtain x v where x: "jsonrpc_response_send J p fd w = (x, v)" by (cases "jsonrpc_response_send J p fd w")
    note ss = libjson_send_spec [OF x [unfolded jsonrpc_response_send_def]]
    then have "world.more v = world.more w" by (simp add: takes_def)
    with True Some assms x ss show ?thesis by (cases x) (auto simp: is_ok_def split: sum.splits)
  qed
qed

lemma destroy_response_more:
  "world.more (destroy_response p w) = world.more w"
  "sent fd (trace (destroy_response p w)) = sent fd (trace w)"
  using destroy_response_swaps [of w p] by (simp_all add: swaps_def still_def)

text \<open>A message reaches a handler at most once, and nothing else touches the component's state.\<close>

lemma handle_conn_once:
  assumes run: "cmd_dispatcher_handle_conn J fd \<lparr>disp_cmds = cmds, disp_ctx = c\<rparr> w = (r, t)"
    and safe: "\<not> unterminated w fd"
  shows "(\<not> is_ok r \<and> world.more t = world.more w \<and>
      (reliable w \<longrightarrow> (\<exists>e u. jsonrpc_request_recv J fd (emit (Acquire (Mem ''cmd_conn_ctx'')) (used w)) = (Inl e, u)))) \<or>
    (\<exists>request u0 m u ret resp v.
      jsonrpc_request_recv J fd (emit (Acquire (Mem ''cmd_conn_ctx'')) (used w)) = (Inr request, u0) \<and>
      valid_request J (req_impl request) \<and> jsonrpc_request_get_method J request = Some m \<and>
      dispatch_loop cmds m request \<lparr>ctx_fd = fd, ctx_arg = c\<rparr> u = ((ret, resp), v) \<and>
      (reliable w \<longrightarrow> reliable u) \<and> (lucky w \<longrightarrow> lucky u) \<and> world.more u = world.more w \<and> world.more t = world.more v \<and>
      (\<forall>d. sent d (trace u) = sent d (trace w)) \<and>
      (is_ok r \<longrightarrow> is_ok ret) \<and> (object_get_ex J (req_impl request) ''id'' = None \<longrightarrow> r = ret) \<and>
      (\<forall>i p. reliable v \<longrightarrow> object_get_ex J (req_impl request) ''id'' = Some i \<longrightarrow>
         choose_response J ret resp (Some (default_reply J i)) (Some (default_error_reply J i)) = Some p \<longrightarrow>
         r = ret \<and> sent fd (trace t) = sent fd (trace v) @ message J (resp_impl p)))"
proof (cases "answer w < 0")
  case True
  with run show ?thesis
    by (auto simp: cmd_dispatcher_handle_conn_def cmd_dispatcher_handle_conn_internal_def
        make_conn_ctx_def bindE_def alloc_def)
next
  case False
  define w1 where "w1 = emit (Acquire (Mem ''cmd_conn_ctx'')) (used w)"
  obtain a w2 where rec: "jsonrpc_request_recv J fd w1 = (a, w2)" by (cases "jsonrpc_request_recv J fd w1")
  have "\<not> unterminated w1 fd" using safe by (simp add: unterminated_def w1_def)
  note rs = jsonrpc_request_recv_takes [OF rec this]
  have w2: "world.more w2 = world.more w" "reliable w \<longrightarrow> reliable w2" "lucky w \<longrightarrow> lucky w2"
    "sent d (trace w2) = sent d (trace w)" for d
    using rs(1,3) by (simp_all add: takes_def w1_def)
  have ctx: "make_conn_ctx fd c w = (Inr \<lparr>ctx_fd = fd, ctx_arg = c\<rparr>, w1)"
    using False by (simp add: make_conn_ctx_def bindE_def alloc_def ok_def w1_def)
  show ?thesis
  proof (cases a)
    case (Inl e)
    with run rec False have "r = Inl e" "t = release (Mem ''cmd_conn_ctx'') w2"
      by (auto simp: cmd_dispatcher_handle_conn_def cmd_dispatcher_handle_conn_internal_def
          make_conn_ctx_def bindE_def alloc_def ok_def after_def w1_def split: prod.splits)
    with w2 rec Inl show ?thesis by (auto simp: w1_def)
  next
    case (Inr request)
    define b where "b \<longleftrightarrow> \<not> jsonrpc_request_is_notification J request"
    have b: "b \<longleftrightarrow> object_get_ex J (req_impl request) ''id'' \<noteq> None"
      by (simp add: b_def jsonrpc_request_is_notification_def libjson_has_def)
    obtain v where v: "bindE (when_required b (jsonrpc_response_create J request None)) (\<lambda>dr. after
        (bindE (when_required b (jsonrpc_error_create J request (-1) ''An error occured''))
           (\<lambda>de. conn_respond J \<lparr>disp_cmds = cmds, disp_ctx = c\<rparr> \<lparr>ctx_fd = fd, ctx_arg = c\<rparr>
              fd request b dr de)) (destroy_response dr)) w2 = (r, v)"
      and t: "t = release (Mem ''cmd_conn_ctx'') (jsonrpc_request_destroy request v)"
      using run
      by (auto simp: cmd_dispatcher_handle_conn_def cmd_dispatcher_handle_conn_internal_def
          bindE_run(1) [where f = "make_conn_ctx fd c", OF ctx] Let_def b_def
          bindE_run(1) [where f = "jsonrpc_request_recv J fd", OF rec [unfolded Inr]]
          dest!: after_run)
    have tv: "world.more t = world.more v" "sent d (trace t) = sent d (trace v)" for d
      using gives_backD [OF gives_back_request, of v request] by (simp_all add: t swaps_def still_def)
    have rec': "jsonrpc_request_recv J fd (emit (Acquire (Mem ''cmd_conn_ctx'')) (used w)) = (Inr request, w2)"
      using rec Inr by (simp add: w1_def)
    have valid: "valid_request J (req_impl request)" using rs(5) Inr by simp
    obtain m where m: "jsonrpc_request_get_method J request = Some m"
      using valid_request_method [OF valid] by (cases request) auto
    consider (bad) "\<not> reliable w2" "world.more v = world.more w2" "\<not> is_ok r"
      | (go) dr de u v' where "world.more u = world.more w2" "reliable w2 \<longrightarrow> reliable u" "lucky w2 \<longrightarrow> lucky u" "world.more v = world.more v'"
        "dr = map_option (default_reply J) (object_get_ex J (req_impl request) ''id'')"
        "de = map_option (default_error_reply J) (object_get_ex J (req_impl request) ''id'')"
        "\<And>d. sent d (trace u) = sent d (trace w2)" "\<And>d. sent d (trace v) = sent d (trace v')"
        "conn_respond J \<lparr>disp_cmds = cmds, disp_ctx = c\<rparr> \<lparr>ctx_fd = fd, ctx_arg = c\<rparr> fd request b dr de u = (r, v')"
      using conn_defaults [OF v b]
    proof (elim disjE exE conjE)
      fix e
      assume "\<not> reliable w2" "calm w2 v" "r = Inl e"
      then show thesis using bad by (simp add: takes_def)
    next
      fix u
      let ?dr = "map_option (default_reply J) (object_get_ex J (req_impl request) ''id'')"
      assume u: "takes w2 u (if b then [Response, Json] else [])" "still w2 u"
        and k: "after (bindE (when_required b (jsonrpc_error_create J request (-1) ''An error occured''))
           (\<lambda>de. conn_respond J \<lparr>disp_cmds = cmds, disp_ctx = c\<rparr> \<lparr>ctx_fd = fd, ctx_arg = c\<rparr> fd request b ?dr de))
        (destroy_response ?dr) u = (r, v)"
      obtain y where y: "bindE (when_required b (jsonrpc_error_create J request (-1) ''An error occured''))
         (\<lambda>de. conn_respond J \<lparr>disp_cmds = cmds, disp_ctx = c\<rparr> \<lparr>ctx_fd = fd, ctx_arg = c\<rparr> fd request b ?dr de) u = (r, y)"
        and vy: "world.more v = world.more y" "\<And>d. sent d (trace v) = sent d (trace y)"
        using after_run [OF k] by (auto simp: destroy_response_more)
      from conn_default_errors [OF y b] show thesis
      proof (elim disjE exE conjE)
        fix e
        assume "\<not> reliable u" "calm u y" "r = Inl e"
        then show thesis using bad u vy by (simp add: takes_def)
      next
        fix x
        assume "takes u x (if b then [Response, Json] else [])" "still u x"
          "conn_respond J \<lparr>disp_cmds = cmds, disp_ctx = c\<rparr> \<lparr>ctx_fd = fd, ctx_arg = c\<rparr> fd request b ?dr
            (map_option (default_error_reply J) (object_get_ex J (req_impl request) ''id'')) x = (r, y)"
        then show thesis using go [of x y] u vy by (simp add: takes_def still_def)
      qed
    qed
    then show ?thesis
    proof cases
      case bad
      with tv w2 show ?thesis by auto
    next
      case go
      obtain ret resp v1 where d: "dispatch_loop cmds m request \<lparr>ctx_fd = fd, ctx_arg = c\<rparr> u = ((ret, resp), v1)"
        by (metis surj_pair)
      with go(9) m obtain v2 where
        "(if b then (\<lambda>v. case choose_response J ret resp dr de of
            None \<Rightarrow> (Inl (-1), undefined_behaviour ''jsonrpc_response_send: null'' v)
          | Some p \<Rightarrow>
              (case jsonrpc_response_send J p fd v of (Inl _, v1) \<Rightarrow> (Inl (-1), v1) | (Inr _, v1) \<Rightarrow> (ret, v1)))
         else pureE ret) v1 = (r, v2)" "v' = destroy_response de (destroy_response resp v2)"
        by (auto simp: conn_respond_def cmd_dispatcher_handle_internal_def dest!: after_run)
      note cn = choose_none_more [OF this(1)] and v' = this(2)
      have "\<forall>i p. reliable v1 \<longrightarrow> object_get_ex J (req_impl request) ''id'' = Some i \<longrightarrow>
          choose_response J ret resp (Some (default_reply J i)) (Some (default_error_reply J i)) = Some p \<longrightarrow>
          r = ret \<and> sent fd (trace t) = sent fd (trace v1) @ message J (resp_impl p)"
        using cn go(5,6,8) tv(2) b by (auto simp: destroy_response_more v')
      with cn v' d go(1-4,7) m rec' valid w2 tv(1) b show ?thesis
        by (intro disjI2 exI [of _ request] exI [of _ w2] exI [of _ m] exI [of _ u] exI [of _ ret] exI [of _ resp]
            exI [of _ v1]) (simp add: destroy_response_more)
    qed
  qed
qed

end
