(* ===== verification/Transitions.thy ===== *)
theory Transitions
  imports Main
begin

text \<open>
  Transition systems: the states a step relation reaches from its initial states, and the one way
  in which the development proves something of all of them.
\<close>

inductive reachable :: "('s \<Rightarrow> bool) \<Rightarrow> ('s \<Rightarrow> 's \<Rightarrow> bool) \<Rightarrow> 's \<Rightarrow> bool"
  for init :: "'s \<Rightarrow> bool" and step :: "'s \<Rightarrow> 's \<Rightarrow> bool" where
  start: "init s \<Longrightarrow> reachable init step s"
| further: "reachable init step s \<Longrightarrow> step s t \<Longrightarrow> reachable init step t"

locale inductive_invariant =
  fixes init :: "'s \<Rightarrow> bool" and step :: "'s \<Rightarrow> 's \<Rightarrow> bool" and I :: "'s \<Rightarrow> bool"
  assumes base: "init s \<Longrightarrow> I s"
    and preserved: "I s \<Longrightarrow> step s t \<Longrightarrow> I t"
begin

lemma holds: "reachable init step s \<Longrightarrow> I s"
  by (induction rule: reachable.induct) (auto intro: base preserved)

lemma holds_from: "I s \<Longrightarrow> reachable (\<lambda>u. u = s) step t \<Longrightarrow> I t"
proof -
  assume "I s"
  show "reachable (\<lambda>u. u = s) step t \<Longrightarrow> I t"
    by (induction rule: reachable.induct) (auto intro: preserved \<open>I s\<close>)
qed

end

end
