(* ===== verification/Log.thy ===== *)
theory Log
  imports Prelude Transitions
begin

text \<open>
  \<open>src/log.c\<close> and \<open>src/log.h\<close>: what a log entry looks like, which entries are written at all, and
  how the entries of threads that log at the same time end up in a stream. The other components do
  not mention their log entries, which change nothing they work on. A use of a macro is the list
  of its operations on a stream; \<open>fprintf\<close> is one operation, with the text it formats.
\<close>

section \<open>Numbers and names\<close>

text \<open>\<open>%d\<close> and its relatives.\<close>

fun nat_decimal :: "nat \<Rightarrow> string" where
  "nat_decimal n =
     (if n < 10 then [char_of (48 + n)] else nat_decimal (n div 10) @ [char_of (48 + n mod 10)])"

declare nat_decimal.simps [simp del]

definition decimal :: "int \<Rightarrow> string" where
  "decimal i = (if i < 0 then CHR ''-'' # nat_decimal (nat (- i)) else nat_decimal (nat i))"

text \<open>\<open>%02d\<close> and \<open>%03lld\<close> of a number that is not negative.\<close>

definition pad :: "nat \<Rightarrow> string \<Rightarrow> string" where
  "pad k s = replicate (k - length s) CHR ''0'' @ s"

abbreviation newline :: string where "newline \<equiv> [CHR 0x0A]"

definition basename :: "string \<Rightarrow> string" where
  "basename path = rev (takeWhile (\<lambda>c. c \<noteq> CHR ''/'') (rev path))"

section \<open>Time\<close>

text \<open>
  \<open>gmtime_r\<close> of the C library: the date is counted from the first of January 1970, and the
  calendar repeats itself after 400 years, which are 146097 days.
\<close>

definition leap_year :: "int \<Rightarrow> bool" where
  "leap_year y \<longleftrightarrow> y mod 4 = 0 \<and> (y mod 100 \<noteq> 0 \<or> y mod 400 = 0)"

definition year_days :: "int \<Rightarrow> int" where
  "year_days y = (if leap_year y then 366 else 365)"

definition month_lengths :: "int \<Rightarrow> int list" where
  "month_lengths y = [31, if leap_year y then 29 else 28, 31, 30, 31, 30, 31, 31, 30, 31, 30, 31]"

function year_and_day :: "int \<Rightarrow> int \<Rightarrow> int \<times> int" where
  "year_and_day y d = (if d < year_days y then (y, d) else year_and_day (y + 1) (d - year_days y))"
  by pat_completeness auto
termination
  by (relation "measure (\<lambda>(y, d). nat d)") (auto simp: year_days_def split: if_splits)

declare year_and_day.simps [simp del]

fun month_and_day :: "int \<Rightarrow> int list \<Rightarrow> int \<Rightarrow> int \<times> int" where
  "month_and_day m [] d = (m, d)"
| "month_and_day m (n # ns) d = (if d < n then (m, d) else month_and_day (m + 1) ns (d - n))"

record tm =
  tm_year :: int
  tm_mon :: int
  tm_mday :: int
  tm_hour :: int
  tm_min :: int
  tm_sec :: int

text \<open>It fails if the year does not fit into an \<open>int\<close>.\<close>

definition gmtime_r :: "int \<Rightarrow> tm option" where
  "gmtime_r t =
     (case year_and_day (1970 + 400 * (t div 86400 div 146097)) (t div 86400 mod 146097) of (y, yday) \<Rightarrow>
      case month_and_day 0 (month_lengths y) yday of (mon, mday) \<Rightarrow>
        if in_int32 (y - 1900)
        then Some \<lparr>tm_year = y - 1900, tm_mon = mon, tm_mday = mday + 1, tm_hour = t mod 86400 div 3600,
               tm_min = t mod 86400 mod 3600 div 60, tm_sec = t mod 86400 mod 60\<rparr>
        else None)"

text \<open>The format \<open>%F %T\<close>; \<open>strftime\<close> writes it only if it fits with its terminating NUL.\<close>

definition date_time :: "tm \<Rightarrow> string" where
  "date_time x =
     decimal (tm_year x + 1900) @ ''-'' @ pad 2 (decimal (tm_mon x + 1)) @ ''-'' @
     pad 2 (decimal (tm_mday x)) @ '' '' @ pad 2 (decimal (tm_hour x)) @ '':'' @
     pad 2 (decimal (tm_min x)) @ '':'' @ pad 2 (decimal (tm_sec x))"

definition strftime :: "nat \<Rightarrow> tm \<Rightarrow> string" where
  "strftime sz x = (if length (date_time x) < sz then date_time x else [])"

definition snprintf :: "nat \<Rightarrow> string \<Rightarrow> string" where
  "snprintf sz text = take (sz - 1) text"

section \<open>Entries\<close>

text \<open>The three levels, in the order of their numbers.\<close>

datatype log_lvl = LOG_LVL_DEBUG | LOG_LVL_INFO | LOG_LVL_ERR

primrec lvl_number :: "log_lvl \<Rightarrow> nat" where
  "lvl_number LOG_LVL_DEBUG = 0"
| "lvl_number LOG_LVL_INFO = 1"
| "lvl_number LOG_LVL_ERR = 2"

lemma lvl_number_inject: "lvl_number a = lvl_number b \<Longrightarrow> a = b"
  by (cases a; cases b) simp_all

instantiation log_lvl :: linorder
begin

definition less_eq_log_lvl :: "log_lvl \<Rightarrow> log_lvl \<Rightarrow> bool" where
  "less_eq_log_lvl a b \<longleftrightarrow> lvl_number a \<le> lvl_number b"

definition less_log_lvl :: "log_lvl \<Rightarrow> log_lvl \<Rightarrow> bool" where
  "less_log_lvl a b \<longleftrightarrow> lvl_number a < lvl_number b"

instance
  by standard (auto simp: less_eq_log_lvl_def less_log_lvl_def intro: lvl_number_inject)

end

datatype stream = Stdout | Stderr

text \<open>What a macro does to a stream: \<open>flockfile\<close>, one \<open>fprintf\<close>, \<open>funlockfile\<close>.\<close>

datatype io = FLock stream | Put stream string | FUnlock stream

text \<open>
  \<open>now\<close> is what \<open>gettimeofday\<close> answers, seconds and microseconds, if it does. The buffer has 64
  bytes; \<open>used\<close> is what \<open>strftime\<close> returns.
\<close>

definition log_prefix_timestamp :: "(int \<times> int) option \<Rightarrow> stream \<Rightarrow> io list" where
  "log_prefix_timestamp now dest =
     (case now of
        None \<Rightarrow> []
      | Some (tv_sec, tv_usec) \<Rightarrow>
          (case gmtime_r tv_sec of
             None \<Rightarrow> []
           | Some x \<Rightarrow>
               let used = strftime 64 x; msec = tv_usec div 1000
               in [Put dest (used @ snprintf (64 - length used) (''.'' @ pad 3 (decimal msec) @ '' | ''))]))"

definition log_prefix_thread_id :: "int \<Rightarrow> stream \<Rightarrow> io list" where
  "log_prefix_thread_id tid dest = [Put dest (decimal tid @ '' | '')]"

text \<open>\<open>g\<close> is \<open>g_log_lvl\<close>, and the \<open>bool\<close> is what the function returns.\<close>

definition log_entry_start ::
  "log_lvl \<Rightarrow> (int \<times> int) option \<Rightarrow> int \<Rightarrow> log_lvl \<Rightarrow> stream \<Rightarrow> bool \<times> io list" where
  "log_entry_start g now tid lvl dest =
     (if lvl < g then (False, [])
      else (True, [FLock dest] @ log_prefix_timestamp now dest @ log_prefix_thread_id tid dest))"

definition log_entry_end :: "stream \<Rightarrow> io list" where
  "log_entry_end dest = [FUnlock dest]"

section \<open>Macros\<close>

text \<open>The common form of the macros, around the calls of \<open>fprintf\<close> and \<open>perror\<close> in their middle.\<close>

definition log_entry ::
  "log_lvl \<Rightarrow> (int \<times> int) option \<Rightarrow> int \<Rightarrow> log_lvl \<Rightarrow> stream \<Rightarrow> io list \<Rightarrow> io list" where
  "log_entry g now tid lvl dest middle =
     (case log_entry_start g now tid lvl dest of
        (False, ops) \<Rightarrow> ops
      | (True, ops) \<Rightarrow> ops @ middle @ log_entry_end dest)"

text \<open>Where a macro of the source is used: \<open>__FILE__\<close> and \<open>__LINE__\<close>.\<close>

type_synonym place = "string \<times> int"

definition log_err_file_loc :: "place \<Rightarrow> io list" where
  "log_err_file_loc at = [Put Stderr (basename (fst at) @ ''('' @ decimal (snd at) @ ''): '')]"

text \<open>\<open>perror\<close> prints the name of a function and the meaning of \<open>errno\<close>, here \<open>reason\<close>.\<close>

definition perror :: "string \<Rightarrow> string \<Rightarrow> io list" where
  "perror fn reason = [Put Stderr (fn @ '': '' @ reason @ newline)]"

text \<open>The macros in use, and a bare \<open>printf\<close> or \<open>fprintf\<close>, which locks the stream for itself.\<close>

datatype log_call =
    LogDebug string
  | LogInfo string
  | LogErr place string
  | LogErrno place string string
  | Printf stream string

fun call_ops :: "log_lvl \<Rightarrow> (int \<times> int) option \<Rightarrow> int \<Rightarrow> log_call \<Rightarrow> io list" where
  "call_ops g now tid (LogDebug text) = log_entry g now tid LOG_LVL_DEBUG Stdout [Put Stdout text]"
| "call_ops g now tid (LogInfo text) = log_entry g now tid LOG_LVL_INFO Stdout [Put Stdout text]"
| "call_ops g now tid (LogErr at text) =
     log_entry g now tid LOG_LVL_ERR Stderr (log_err_file_loc at @ [Put Stderr text])"
| "call_ops g now tid (LogErrno at fn reason) =
     log_entry g now tid LOG_LVL_ERR Stderr (log_err_file_loc at @ perror fn reason)"
| "call_ops g now tid (Printf dest text) = [Put dest text]"

text \<open>
  The macros that log a failure if there is one. \<open>pthread_errno\<close> turns the positive error number
  in \<open>var\<close> into a negative one.
\<close>

definition log_errno_if :: "place \<Rightarrow> string \<Rightarrow> int \<Rightarrow> string \<Rightarrow> log_call list" where
  "log_errno_if at reason expr fn = (if expr < 0 then [LogErrno at fn reason] else [])"

definition pthread_errno :: "place \<Rightarrow> (int \<Rightarrow> string) \<Rightarrow> int \<Rightarrow> string \<Rightarrow> log_call list \<times> int" where
  "pthread_errno at strerror var fn = ([LogErrno at fn (strerror var)], - var)"

definition pthread_errno_if :: "place \<Rightarrow> (int \<Rightarrow> string) \<Rightarrow> int \<Rightarrow> string \<Rightarrow> log_call list" where
  "pthread_errno_if at strerror expr fn =
     (if expr \<noteq> 0 then fst (pthread_errno at strerror expr fn) else [])"

text \<open>What \<open>lib\<close> returns on a failure is what \<open>pthread_errno\<close> leaves in its variable.\<close>

lemma lib_is_pthread_errno:
  "0 < answer w \<Longrightarrow> fst (lib w) = Inl (snd (pthread_errno at strerror (answer w) fn))"
  by (simp add: lib_def pthread_errno_def)

section \<open>The calendar\<close>

lemma year_and_day_bounds:
  "0 \<le> d \<Longrightarrow> year_and_day y d = (y', d') \<Longrightarrow> y \<le> y' \<and> 0 \<le> d' \<and> d' < year_days y'"
proof (induction y d rule: year_and_day.induct)
  case (1 y d)
  show ?case
  proof (cases "d < year_days y")
    case True
    with 1 show ?thesis by (simp add: year_and_day.simps [of y d])
  next
    case False
    with 1 show ?thesis by (simp add: year_and_day.simps [of y d])
  qed
qed

text \<open>The days of the years passed over and the day of the year add up.\<close>

lemma year_and_day_sum:
  "0 \<le> d \<Longrightarrow> year_and_day y d = (y', d') \<Longrightarrow> d = sum_list (map year_days [y..y' - 1]) + d'"
proof (induction y d rule: year_and_day.induct)
  case (1 y d)
  show ?case
  proof (cases "d < year_days y")
    case True
    with 1 show ?thesis by (simp add: year_and_day.simps [of y d])
  next
    case False
    with 1(3) have r: "year_and_day (y + 1) (d - year_days y) = (y', d')"
      by (simp add: year_and_day.simps [of y d])
    with False have "y + 1 \<le> y'" using year_and_day_bounds [OF _ r] by simp
    then have "[y..y' - 1] = y # [y + 1..y' - 1]" by (simp add: upto.simps [of y])
    with 1(1) [OF False _ r] False show ?thesis by simp
  qed
qed

lemma month_and_day_bounds:
  "0 \<le> d \<Longrightarrow> d < sum_list ns \<Longrightarrow> month_and_day m ns d = (m', d') \<Longrightarrow> \<forall>n \<in> set ns. n \<le> b \<Longrightarrow>
     m \<le> m' \<and> m' < m + int (length ns) \<and> 0 \<le> d' \<and> d' < b"
  by (induction m ns d rule: month_and_day.induct) (auto split: if_splits)

lemma sum_month_lengths: "sum_list (month_lengths y) = year_days y"
  by (simp add: month_lengths_def year_days_def)

lemma gmtime_r_fields:
  assumes "gmtime_r t = Some x"
  shows "in_int32 (tm_year x)" "0 \<le> tm_mon x \<and> tm_mon x < 12" "1 \<le> tm_mday x \<and> tm_mday x \<le> 31"
    "0 \<le> tm_hour x \<and> tm_hour x < 24" "0 \<le> tm_min x \<and> tm_min x < 60" "0 \<le> tm_sec x \<and> tm_sec x < 60"
proof -
  obtain y d where yd: "year_and_day (1970 + 400 * (t div 86400 div 146097)) (t div 86400 mod 146097) = (y, d)"
    by fastforce
  obtain m e where me: "month_and_day 0 (month_lengths y) d = (m, e)" by fastforce
  note b = year_and_day_bounds [OF _ yd, simplified]
  have "\<forall>n \<in> set (month_lengths y). n \<le> 31" by (simp add: month_lengths_def)
  moreover have "d < sum_list (month_lengths y)" using b by (simp add: sum_month_lengths)
  ultimately have "0 \<le> m \<and> m < int (length (month_lengths y)) \<and> 0 \<le> e \<and> e < 31"
    using month_and_day_bounds [OF _ _ me] b by simp
  moreover have "length (month_lengths y) = 12" by (simp add: month_lengths_def)
  ultimately have r: "0 \<le> m \<and> m < 12" "0 \<le> e \<and> e < 31" by simp_all
  define h where "h = t mod 86400 div 3600"
  define n where "n = t mod 86400 mod 3600 div 60"
  define s where "s = t mod 86400 mod 60"
  have "0 \<le> t mod 86400" "t mod 86400 < 86400" "0 \<le> t mod 86400 mod 3600" "t mod 86400 mod 3600 < 3600"
    by simp_all
  then have hns: "0 \<le> h \<and> h < 24" "0 \<le> n \<and> n < 60" "0 \<le> s \<and> s < 60"
    unfolding h_def n_def s_def by (auto simp only: intro: pos_mod_sign pos_mod_bound; linarith)+
  from assms have "in_int32 (y - 1900)"
    "x = \<lparr>tm_year = y - 1900, tm_mon = m, tm_mday = e + 1, tm_hour = h, tm_min = n, tm_sec = s\<rparr>"
    by (simp_all only: gmtime_r_def yd me prod.case h_def n_def s_def option.inject option.distinct split: if_splits)
  with r hns show "in_int32 (tm_year x)" "0 \<le> tm_mon x \<and> tm_mon x < 12" "1 \<le> tm_mday x \<and> tm_mday x \<le> 31"
    "0 \<le> tm_hour x \<and> tm_hour x < 24" "0 \<le> tm_min x \<and> tm_min x < 60" "0 \<le> tm_sec x \<and> tm_sec x < 60"
    by simp_all
qed

section \<open>The buffer of the timestamp\<close>

lemma nat_decimal_length: "n < 10 ^ k \<Longrightarrow> 0 < k \<Longrightarrow> length (nat_decimal n) \<le> k"
proof (induction n arbitrary: k rule: nat_decimal.induct)
  case (1 n)
  show ?case
  proof (cases "n < 10")
    case True
    with 1 show ?thesis by (simp add: nat_decimal.simps [of n])
  next
    case False
    with 1(2,3) obtain j where k: "k = Suc j" "0 < j" by (cases k; cases "k - 1") auto
    with 1(2) have "n div 10 < 10 ^ j" by (simp add: div_less_iff_less_mult mult.commute)
    with 1(1) [OF False _ k(2)] False k show ?thesis by (simp add: nat_decimal.simps [of n])
  qed
qed

lemma nat_decimal_pos: "0 < length (nat_decimal n)"
  by (simp add: nat_decimal.simps [of n])

lemma pad_length: "0 \<le> i \<Longrightarrow> i < 10 ^ k \<Longrightarrow> 0 < k \<Longrightarrow> length (pad k (decimal i)) = k"
  using nat_decimal_length [of "nat i" k] by (simp add: pad_def decimal_def nat_less_iff)

lemma decimal_length:
  assumes "\<bar>i\<bar> < 10 ^ k" "0 < k"
  shows "length (decimal i) \<le> Suc k"
proof -
  have "nat \<bar>i\<bar> < 10 ^ k" using assms(1) by (simp add: nat_less_iff)
  from nat_decimal_length [OF this assms(2)] show ?thesis
    by (cases "i < 0") (simp_all add: decimal_def)
qed

lemma date_time_length:
  assumes "gmtime_r t = Some x"
  shows "length (date_time x) \<le> 26"
proof -
  note f = gmtime_r_fields [OF assms]
  have "\<bar>tm_year x + 1900\<bar> < 10 ^ 10" using f(1) by (simp add: in_int32_def abs_less_iff)
  from decimal_length [OF this] have "length (decimal (tm_year x + 1900)) \<le> 11" by simp
  with f show ?thesis by (simp add: date_time_def pad_length)
qed

text \<open>Nothing is cut off: the date, the time and the milliseconds fit into the buffer.\<close>

lemma timestamp_fits:
  assumes "gmtime_r sec = Some x" "0 \<le> usec" "usec < 1000000"
  shows "log_prefix_timestamp (Some (sec, usec)) dest =
    [Put dest (date_time x @ ''.'' @ pad 3 (decimal (usec div 1000)) @ '' | '')]"
proof -
  have "usec div 1000 < 10 ^ 3" "0 \<le> usec div 1000" using assms(2,3) by auto
  then have "length (pad 3 (decimal (usec div 1000))) = 3" by (intro pad_length) simp_all
  with date_time_length [OF assms(1)] show ?thesis
    by (simp add: log_prefix_timestamp_def assms(1) strftime_def snprintf_def)
qed

end
