(* ===== verification/Sqlite.thy ===== *)
theory Sqlite
  imports Protocol Log
begin

text \<open>
  \<open>src/sqlite.c\<close>, and what the SQL of the program means: the schema \<open>src/sqlite/v01.sql\<close> and
  the six statements of \<open>src/storage_sqlite.c\<close> as functions on a \<open>database\<close> record. SQLite's
  own failures (I/O, a busy or full database) are answers of the environment; constraint
  violations are computed from the tables.
\<close>

unbundle bit_operations_syntax

section \<open>The database\<close>

record run_row =
  row_id :: int
  row_status :: int
  row_exit_code :: int
  row_output :: "char list"
  row_repo_id :: int
  row_repo_rev :: string

text \<open>
  \<open>db_objects\<close> are the tables, indices and views that exist; \<open>db_repos\<close> and \<open>db_statuses\<close> are
  rows of (id, text), in insertion order.
\<close>

record database =
  db_version :: int
  db_objects :: "string list"
  db_statuses :: "(int \<times> string) list"
  db_repos :: "(int \<times> string) list"
  db_runs :: "run_row list"

definition empty_database :: database where
  "empty_database =
     \<lparr>db_version = 0, db_objects = [], db_statuses = [], db_repos = [], db_runs = []\<rparr>"

record db_world = world +
  sqldb :: database

text \<open>A rowid for a new row is one more than the largest in use.\<close>

definition next_rowid :: "int list \<Rightarrow> int" where
  "next_rowid ids = foldr max ids 0 + 1"

section \<open>Scripts\<close>

datatype sql_stmt =
    CREATE string
  | INSERT_STATUS int string
  | SET_USER_VERSION int
  | BEGIN
  | COMMIT

fun exec_stmt :: "sql_stmt \<Rightarrow> database \<Rightarrow> database option" where
  "exec_stmt (CREATE obj) d =
     (if obj \<in> set (db_objects d) then None else Some (d\<lparr>db_objects := db_objects d @ [obj]\<rparr>))"
| "exec_stmt (INSERT_STATUS i label) d =
     (if i \<in> fst ` set (db_statuses d) \<or> label \<in> snd ` set (db_statuses d) then None
      else Some (d\<lparr>db_statuses := db_statuses d @ [(i, label)]\<rparr>))"
| "exec_stmt (SET_USER_VERSION v) d = Some (d\<lparr>db_version := v\<rparr>)"
| "exec_stmt BEGIN d = Some d"
| "exec_stmt COMMIT d = Some d"

text \<open>\<open>src/sqlite/v01.sql\<close>, statement by statement.\<close>

definition schema_v01 :: "sql_stmt list" where
  "schema_v01 =
     [CREATE ''cimple_repos'', CREATE ''cimple_repos_index_url'',
      CREATE ''cimple_run_status'', CREATE ''cimple_run_status_index_label'',
      INSERT_STATUS 1 ''created'', INSERT_STATUS 2 ''finished'',
      CREATE ''cimple_runs'', CREATE ''cimple_runs_index_status'',
      CREATE ''cimple_runs_index_repo_id'', CREATE ''cimple_runs_view'']"

definition sqlite_schemas :: "sql_stmt list list" where
  "sqlite_schemas = [schema_v01]"

section \<open>Statements\<close>

text \<open>\<open>SELECT id FROM cimple_repos WHERE url = ?\<close>\<close>

definition sql_repo_find :: "string \<Rightarrow> database \<Rightarrow> int list" where
  "sql_repo_find url d = map fst (filter (\<lambda>x. snd x = url) (db_repos d))"

text \<open>\<open>INSERT INTO cimple_repos(url) VALUES (?) ON CONFLICT(url) DO NOTHING\<close>\<close>

definition sql_repo_insert :: "string \<Rightarrow> database \<Rightarrow> database" where
  "sql_repo_insert url d =
     (if url \<in> snd ` set (db_repos d) then d
      else d\<lparr>db_repos := db_repos d @ [(next_rowid (map fst (db_repos d)), url)]\<rparr>)"

text \<open>
  \<open>INSERT INTO cimple_runs(status, exit_code, output, repo_id, repo_rev)
  VALUES (?, -1, x'', ?, ?) RETURNING id\<close>, with its two foreign keys.
\<close>

definition sql_run_insert :: "int \<Rightarrow> int \<Rightarrow> string \<Rightarrow> database \<Rightarrow> (database \<times> int) option" where
  "sql_run_insert status repo_id rv d =
     (if status \<notin> fst ` set (db_statuses d) \<or> repo_id \<notin> fst ` set (db_repos d) then None
      else
        (let i = next_rowid (map row_id (db_runs d))
         in Some (d\<lparr>db_runs := db_runs d @
                      [\<lparr>row_id = i, row_status = status, row_exit_code = -1, row_output = [],
                        row_repo_id = repo_id, row_repo_rev = rv\<rparr>]\<rparr>, i)))"

text \<open>
  \<open>UPDATE cimple_runs SET status = ?, exit_code = ?, output = ? WHERE id = ?\<close>: a null blob and
  an unknown status violate a constraint when there is a row to update.
\<close>

definition sql_run_finished ::
  "int \<Rightarrow> int \<Rightarrow> char list option \<Rightarrow> int \<Rightarrow> database \<Rightarrow> database option" where
  "sql_run_finished status ec output i d =
     (if i \<notin> row_id ` set (db_runs d) then Some d
      else if status \<notin> fst ` set (db_statuses d) then None
      else
        (case output of
           None \<Rightarrow> None
         | Some bs \<Rightarrow>
             Some (d\<lparr>db_runs :=
               map (\<lambda>x. if row_id x = i
                        then x\<lparr>row_status := status, row_exit_code := ec, row_output := bs\<rparr>
                        else x) (db_runs d)\<rparr>)))"

text \<open>\<open>cimple_runs_view\<close>: its column \<open>status\<close> is the label, a text.\<close>

record view_row =
  view_id :: int
  view_status :: string
  view_exit_code :: int
  view_output :: "char list"
  view_repo_url :: string
  view_repo_rev :: string

definition view_join :: "database \<Rightarrow> run_row \<Rightarrow> view_row list" where
  "view_join d x =
     concat (map (\<lambda>(s, label). concat (map (\<lambda>(i, url).
       if row_status x = s \<and> row_repo_id x = i
       then [\<lparr>view_id = row_id x, view_status = label, view_exit_code = row_exit_code x,
              view_output = row_output x, view_repo_url = url, view_repo_rev = row_repo_rev x\<rparr>]
       else []) (db_repos d))) (db_statuses d))"

definition sql_runs_view :: "database \<Rightarrow> view_row list" where
  "sql_runs_view d = concat (map (view_join d) (db_runs d))"

text \<open>\<open>SELECT id, status, exit_code, repo_url, repo_rev FROM cimple_runs_view ORDER BY id DESC\<close>\<close>

definition sql_get_runs :: "database \<Rightarrow> view_row list" where
  "sql_get_runs d = rev (sort_key view_id (sql_runs_view d))"

text \<open>
  \<open>... FROM cimple_runs_view WHERE status = ? ORDER BY id\<close>, with an integer bound to the
  parameter: SQLite compares a text column with a value of no affinity by first turning the
  value into text.
\<close>

definition sql_get_run_queue :: "int \<Rightarrow> database \<Rightarrow> view_row list" where
  "sql_get_run_queue status d =
     sort_key view_id (filter (\<lambda>x. view_status x = decimal status) (sql_runs_view d))"

text \<open>\<open>sqlite3_column_int\<close> on a text: the number its longest numeric prefix denotes, else 0.\<close>

definition is_digit :: "char \<Rightarrow> bool" where
  "is_digit c \<longleftrightarrow> of_char c \<in> {48..57 :: nat}"

definition digits_value :: "string \<Rightarrow> int" where
  "digits_value s = foldl (\<lambda>n c. 10 * n + (of_char c - 48)) 0 (takeWhile is_digit s)"

definition text_to_int :: "string \<Rightarrow> int" where
  "text_to_int s =
     (case dropWhile (\<lambda>c. c = CHR '' '') s of
        [] \<Rightarrow> 0
      | c # rest \<Rightarrow>
          if c = CHR ''-'' then - digits_value rest
          else if c = CHR ''+'' then digits_value rest else digits_value (c # rest))"

section \<open>The wrappers of sqlite.c\<close>

text \<open>
  \<open>sqlite_errno\<close> logs and negates an error code. \<open>sqlite_errno_if\<close> (and \<open>pthread_errno_if\<close>) only
  logs a failure: the call uses up an answer, and that is all.
\<close>

definition sqlite_errno :: "place \<Rightarrow> (int \<Rightarrow> string) \<Rightarrow> int \<Rightarrow> string \<Rightarrow> log_call list \<times> int" where
  "sqlite_errno at errstr var fn = ([LogErr at (fn @ '': '' @ errstr var @ newline)], - var)"

definition sqlite_errno_if :: "place \<Rightarrow> (int \<Rightarrow> string) \<Rightarrow> int \<Rightarrow> string \<Rightarrow> log_call list" where
  "sqlite_errno_if at errstr expr fn =
     (if expr \<noteq> 0 then fst (sqlite_errno at errstr expr fn) else [])"

definition sqlite_init :: "('z world_scheme, unit) cfun" where
  "sqlite_init = bindE lib (\<lambda>_. andThen (emit (Acquire (Lib ''sqlite''))) (ok ()))"

definition sqlite_destroy :: "'z world_scheme \<Rightarrow> 'z world_scheme" where
  "sqlite_destroy w = release (Lib ''sqlite'') (used w)"

text \<open>
  \<open>sqlite3_open_v2\<close> hands out a connection, to be closed, also when it fails. Whether the file can
  be opened with the flags is the environment's answer.
\<close>

abbreviation SQLITE_OPEN_READONLY :: int where "SQLITE_OPEN_READONLY \<equiv> 1"
abbreviation SQLITE_OPEN_READWRITE :: int where "SQLITE_OPEN_READWRITE \<equiv> 2"
abbreviation SQLITE_OPEN_CREATE :: int where "SQLITE_OPEN_CREATE \<equiv> 4"

definition sqlite_open :: "int \<Rightarrow> ('z world_scheme, unit) cfun" where
  "sqlite_open flags = andThen (emit (Acquire (Lib ''sqlite3''))) lib"

definition sqlite_open_rw :: "('z world_scheme, unit) cfun" where
  "sqlite_open_rw = sqlite_open (SQLITE_OPEN_CREATE OR SQLITE_OPEN_READWRITE)"

definition sqlite_open_ro :: "('z world_scheme, unit) cfun" where
  "sqlite_open_ro = sqlite_open SQLITE_OPEN_READONLY"

definition sqlite_close :: "'z world_scheme \<Rightarrow> 'z world_scheme" where
  "sqlite_close w = release (Lib ''sqlite3'') (used w)"

text \<open>\<open>sqlite3_exec\<close> runs the statements of a script in order and stops at the first failure.\<close>

fun sqlite_exec :: "sql_stmt list \<Rightarrow> ('z db_world_scheme, unit) cfun" where
  "sqlite_exec [] w = (Inr (), w)"
| "sqlite_exec (s # rest) w =
     (if 0 < answer w then (Inl (- answer w), used w)
      else (case exec_stmt s (sqldb w) of
              None \<Rightarrow> (Inl (-1), used w)
            | Some d \<Rightarrow> sqlite_exec rest ((used w)\<lparr>sqldb := d\<rparr>)))"

text \<open>
  A callback for \<open>sqlite3_exec\<close>: a row is logged with one entry per column, and a null value would
  be printed through a null pointer.
\<close>

definition sqlite_exec_log_result ::
  "string option list \<Rightarrow> string list \<Rightarrow> 'z world_scheme \<Rightarrow> (log_call list \<times> int) \<times> 'z world_scheme" where
  "sqlite_exec_log_result vals column_names w =
     ((LogInfo (''Row:'' @ newline) #
         map (\<lambda>(c, v). LogInfo ([CHR 0x09] @ c @ '': '' @ (case v of None \<Rightarrow> [] | Some s \<Rightarrow> s) @ newline))
           (zip column_names vals),
       0),
      if None \<in> set vals then undefined_behaviour ''sqlite_exec_log_result: null value'' w else w)"

definition sqlite_prepare :: "string \<Rightarrow> ('z world_scheme, unit) cfun" where
  "sqlite_prepare stmt = bindE lib (\<lambda>_. andThen (emit (Acquire (Lib stmt))) (ok ()))"

definition sqlite_reset :: "'z world_scheme \<Rightarrow> 'z world_scheme" where
  "sqlite_reset w = used (used w)"

definition sqlite_finalize :: "string \<Rightarrow> 'z world_scheme \<Rightarrow> 'z world_scheme" where
  "sqlite_finalize stmt w = release (Lib stmt) (used w)"

text \<open>
  One step of a statement that changes tables: it fails with the environment's error code or
  with 19 (\<open>SQLITE_CONSTRAINT\<close>), and otherwise has the effect and the rows of \<open>f\<close>.
\<close>

definition sqlite_step ::
  "(database \<Rightarrow> (database \<times> 'r) option) \<Rightarrow> ('z db_world_scheme, 'r) cfun" where
  "sqlite_step f w =
     (if 0 < answer w then (Inl (- answer w), used w)
      else (case f (sqldb w) of
              None \<Rightarrow> (Inl (-19), used w)
            | Some (d, rows) \<Rightarrow> (Inr rows, (used w)\<lparr>sqldb := d\<rparr>)))"

definition sqlite_column_int :: "int \<Rightarrow> int" where
  "sqlite_column_int v = int32 v"

text \<open>
  A null value without an error code is passed on as a null pointer; a null pointer with one
  is an error.
\<close>

definition sqlite_column_text :: "string option \<Rightarrow> ('z world_scheme, string option) cfun" where
  "sqlite_column_text v =
     bindE lib (\<lambda>_.
       case v of
         None \<Rightarrow> ok None
       | Some s \<Rightarrow> bindE (alloc (Mem ''column_text'')) (\<lambda>_. ok (Some s)))"

text \<open>The same for a blob, but SQLite has no pointer to an empty one.\<close>

definition sqlite_column_blob ::
  "char list option \<Rightarrow> ('z world_scheme, char list option) cfun" where
  "sqlite_column_blob v =
     bindE lib (\<lambda>_.
       case v of
         None \<Rightarrow> ok None
       | Some bs \<Rightarrow>
           if bs = [] then ok None
           else bindE (alloc (Mem ''column_blob'')) (\<lambda>_. ok (Some bs)))"

definition sqlite_bind :: "('z world_scheme, unit) cfun" where
  "sqlite_bind = lib"

text \<open>
  The function builds the text \<open>BEGIN; ... COMMIT;\<close> but passes \<open>stmt\<close>, not \<open>full_stmt\<close>, to
  \<open>sqlite_exec\<close>.
\<close>

definition sqlite_exec_as_transaction :: "sql_stmt list \<Rightarrow> ('z db_world_scheme, unit) cfun" where
  "sqlite_exec_as_transaction stmt =
     bindE (alloc (Mem ''full_stmt'')) (\<lambda>_.
       after (sqlite_exec stmt) (release (Mem ''full_stmt'')))"

definition sqlite_get_user_version :: "('z db_world_scheme, int) cfun" where
  "sqlite_get_user_version =
     bindE (sqlite_prepare ''user_version'') (\<lambda>_.
       after
         (bindE (sqlite_step (\<lambda>d. Some (d, [db_version d]))) (\<lambda>rows.
            case rows of
              [] \<Rightarrow> failing (-1)
            | v # _ \<Rightarrow>
                (let result = sqlite_column_int v in if result < 0 then failing (-1) else ok result)))
         (sqlite_finalize ''user_version''))"

definition sqlite_set_foreign_keys :: "('z world_scheme, unit) cfun" where
  "sqlite_set_foreign_keys = lib"

end
