(* ===== verification/Storage.thy ===== *)
theory Storage
  imports Sqlite
begin

text \<open>
  \<open>src/storage_sqlite.c\<close> and the dispatch table of \<open>src/storage.c\<close>: setting the database up,
  creating a run, recording that it finished, and listing runs. A prepared statement is
  guarded by its own mutex, which is the resource \<open>Lib stmt\<close> while it is held.
\<close>

section \<open>Settings\<close>

definition storage_sqlite_settings_create :: "string \<Rightarrow> ('z world_scheme, string) cfun" where
  "storage_sqlite_settings_create path =
     bindE (alloc (Mem ''storage_sqlite_settings'')) (\<lambda>_.
       onErr
         (bindE (alloc (Mem ''settings_path'')) (\<lambda>_. ok path))
         (release (Mem ''storage_sqlite_settings'')))"

definition storage_sqlite_settings_destroy :: "'z world_scheme \<Rightarrow> 'z world_scheme" where
  "storage_sqlite_settings_destroy w =
     release (Mem ''storage_sqlite_settings'') (release (Mem ''settings_path'') w)"

section \<open>Prepared statements\<close>

definition prepared_stmt_init :: "string \<Rightarrow> ('z world_scheme, unit) cfun" where
  "prepared_stmt_init stmt =
     bindE (bindE lib (\<lambda>_. andThen (emit (Acquire (Lib ''mtx''))) (ok ()))) (\<lambda>_.
       onErr (sqlite_prepare stmt) (\<lambda>w. release (Lib ''mtx'') (used w)))"

definition prepared_stmt_destroy :: "string \<Rightarrow> 'z world_scheme \<Rightarrow> 'z world_scheme" where
  "prepared_stmt_destroy stmt w = sqlite_finalize stmt (release (Lib ''mtx'') (used w))"

definition prepared_stmt_lock :: "string \<Rightarrow> ('z world_scheme, unit) cfun" where
  "prepared_stmt_lock stmt =
     bindE lib (\<lambda>_. andThen (emit (Acquire (Lib (stmt @ ''.mtx'')))) (ok ()))"

definition prepared_stmt_unlock :: "string \<Rightarrow> 'z world_scheme \<Rightarrow> 'z world_scheme" where
  "prepared_stmt_unlock stmt w = release (Lib (stmt @ ''.mtx'')) (used w)"

text \<open>The label \<open>reset\<close> that ends every function below.\<close>

definition reset_stmt :: "string \<Rightarrow> 'z world_scheme \<Rightarrow> 'z world_scheme" where
  "reset_stmt stmt w = prepared_stmt_unlock stmt (sqlite_reset w)"

section \<open>Setting up\<close>

definition storage_sqlite_upgrade_to :: "nat \<Rightarrow> ('z db_world_scheme, unit) cfun" where
  "storage_sqlite_upgrade_to version =
     (let full_script = (sqlite_schemas ! version) @ [SET_USER_VERSION (int version + 1)]
      in bindE (alloc (Mem ''full_script'')) (\<lambda>_.
           after (sqlite_exec_as_transaction full_script) (release (Mem ''full_script''))))"

fun upgrade_versions :: "nat list \<Rightarrow> ('z db_world_scheme, unit) cfun" where
  "upgrade_versions [] = ok ()"
| "upgrade_versions (i # rest) =
     bindE (storage_sqlite_upgrade_to i) (\<lambda>_. upgrade_versions rest)"

definition storage_sqlite_upgrade_from_to :: "nat \<Rightarrow> nat \<Rightarrow> ('z db_world_scheme, unit) cfun" where
  "storage_sqlite_upgrade_from_to from_v to_v = upgrade_versions [from_v ..< to_v]"

definition storage_sqlite_upgrade :: "('z db_world_scheme, unit) cfun" where
  "storage_sqlite_upgrade =
     bindE sqlite_get_user_version (\<lambda>current_version.
       let newest_version = length sqlite_schemas
       in if nat current_version > newest_version then failing (-1)
          else if nat current_version = newest_version then ok ()
          else storage_sqlite_upgrade_from_to (nat current_version) newest_version)"

definition storage_sqlite_setup :: "('z db_world_scheme, unit) cfun" where
  "storage_sqlite_setup = bindE sqlite_set_foreign_keys (\<lambda>_. storage_sqlite_upgrade)"

definition storage_sqlite_prepare_statements :: "('z world_scheme, unit) cfun" where
  "storage_sqlite_prepare_statements =
     bindE (prepared_stmt_init ''repo_find'') (\<lambda>_. onErr
      (bindE (prepared_stmt_init ''repo_insert'') (\<lambda>_. onErr
       (bindE (prepared_stmt_init ''run_insert'') (\<lambda>_. onErr
        (bindE (prepared_stmt_init ''run_finished'') (\<lambda>_. onErr
         (bindE (prepared_stmt_init ''get_runs'') (\<lambda>_. onErr
          (prepared_stmt_init ''get_run_queue'')
          (prepared_stmt_destroy ''get_runs'')))
         (prepared_stmt_destroy ''run_finished'')))
        (prepared_stmt_destroy ''run_insert'')))
       (prepared_stmt_destroy ''repo_insert'')))
      (prepared_stmt_destroy ''repo_find''))"

definition storage_sqlite_finalize_statements :: "'z world_scheme \<Rightarrow> 'z world_scheme" where
  "storage_sqlite_finalize_statements w =
     prepared_stmt_destroy ''repo_find'' (prepared_stmt_destroy ''repo_insert''
       (prepared_stmt_destroy ''run_insert'' (prepared_stmt_destroy ''run_finished''
         (prepared_stmt_destroy ''get_runs'' (prepared_stmt_destroy ''get_run_queue'' w)))))"

text \<open>
  The label \<open>close\<close> closes \<open>storage->sqlite->db\<close>, but \<open>storage->sqlite\<close> is only assigned on
  success.
\<close>

definition storage_sqlite_create :: "('z db_world_scheme, unit) cfun" where
  "storage_sqlite_create =
     bindE (alloc (Mem ''storage_sqlite'')) (\<lambda>_. onErr
       (bindE sqlite_init (\<lambda>_. onErr
         (bindE sqlite_open_rw (\<lambda>_. onErr
           (bindE storage_sqlite_setup (\<lambda>_. storage_sqlite_prepare_statements))
           (undefined_behaviour ''storage_sqlite_create: storage->sqlite unset'')))
         sqlite_destroy))
       (release (Mem ''storage_sqlite'')))"

definition storage_sqlite_destroy :: "'z world_scheme \<Rightarrow> 'z world_scheme" where
  "storage_sqlite_destroy w =
     release (Mem ''storage_sqlite'')
       (sqlite_destroy (sqlite_close (storage_sqlite_finalize_statements w)))"

section \<open>Runs\<close>

text \<open>An \<open>int\<close> that is both a result and an error indication.\<close>

definition ret_int :: "int \<Rightarrow> ('s, int) cfun" where
  "ret_int i = (if i < 0 then failing i else ok i)"

definition storage_sqlite_find_repo :: "string \<Rightarrow> ('z db_world_scheme, int) cfun" where
  "storage_sqlite_find_repo url =
     bindE (prepared_stmt_lock ''repo_find'') (\<lambda>_.
       after
         (bindE sqlite_bind (\<lambda>_.
          bindE (sqlite_step (\<lambda>d. Some (d, sql_repo_find url d))) (\<lambda>rows.
          case rows of [] \<Rightarrow> ok 0 | i # _ \<Rightarrow> ret_int (sqlite_column_int i))))
         (reset_stmt ''repo_find''))"

definition storage_sqlite_insert_repo :: "string \<Rightarrow> ('z db_world_scheme, int) cfun" where
  "storage_sqlite_insert_repo url =
     bindE
       (bindE (prepared_stmt_lock ''repo_insert'') (\<lambda>_.
          after
            (bindE sqlite_bind (\<lambda>_. sqlite_step (\<lambda>d. Some (sql_repo_insert url d, ()))))
            (reset_stmt ''repo_insert'')))
       (\<lambda>_. storage_sqlite_find_repo url)"

definition storage_sqlite_insert_run :: "int \<Rightarrow> string \<Rightarrow> ('z db_world_scheme, int) cfun" where
  "storage_sqlite_insert_run repo_id rv =
     bindE (prepared_stmt_lock ''run_insert'') (\<lambda>_.
       after
         (bindE sqlite_bind (\<lambda>_. bindE sqlite_bind (\<lambda>_. bindE sqlite_bind (\<lambda>_.
          bindE (sqlite_step (sql_run_insert RUN_STATUS_CREATED repo_id rv)) (\<lambda>i.
          ret_int (sqlite_column_int i))))))
         (reset_stmt ''run_insert''))"

definition storage_sqlite_run_create :: "string \<Rightarrow> string \<Rightarrow> ('z db_world_scheme, int) cfun" where
  "storage_sqlite_run_create url rv =
     bindE (storage_sqlite_insert_repo url) (\<lambda>repo_id. storage_sqlite_insert_run repo_id rv)"

definition storage_sqlite_run_finished ::
  "int \<Rightarrow> process_output \<Rightarrow> ('z db_world_scheme, unit) cfun" where
  "storage_sqlite_run_finished i output =
     bindE (prepared_stmt_lock ''run_finished'') (\<lambda>_.
       after
         (bindE sqlite_bind (\<lambda>_. bindE sqlite_bind (\<lambda>_. bindE sqlite_bind (\<lambda>_.
          bindE sqlite_bind (\<lambda>_.
          sqlite_step (\<lambda>d.
            map_option (\<lambda>d'. (d', ()))
              (sql_run_finished RUN_STATUS_FINISHED (po_ec output)
                 (case po_data output of None \<Rightarrow> None | Some _ \<Rightarrow> Some (output_bytes output)) i d)))))))
         (reset_stmt ''run_finished''))"

section \<open>Listings\<close>

definition free_text :: "string option \<Rightarrow> 'z world_scheme \<Rightarrow> 'z world_scheme" where
  "free_text v w = (case v of None \<Rightarrow> w | Some _ \<Rightarrow> release (Mem ''column_text'') w)"

text \<open>Both text columns are \<open>NOT NULL\<close>; a null text would reach \<open>strdup\<close>.\<close>

definition storage_sqlite_row_to_run :: "view_row \<Rightarrow> ('z world_scheme, run) cfun" where
  "storage_sqlite_row_to_run row =
     (let i = sqlite_column_int (view_id row);
          status = sqlite_column_int (text_to_int (view_status row));
          exit_code = sqlite_column_int (view_exit_code row)
      in bindE (sqlite_column_text (Some (view_repo_url row))) (\<lambda>url.
           after
             (bindE (sqlite_column_text (Some (view_repo_rev row))) (\<lambda>rv.
               after
                 (case (url, rv) of
                    (Some u, Some r) \<Rightarrow> run_new i u r status exit_code
                  | _ \<Rightarrow> andThen (undefined_behaviour ''storage_sqlite_row_to_run: null text'') (failing (-1)))
                 (free_text rv)))
             (free_text url)))"

fun rows_to_runs_loop :: "view_row list \<Rightarrow> run_queue \<Rightarrow> ('z db_world_scheme, run_queue) cfun" where
  "rows_to_runs_loop [] queue w =
     (case lib w of
        (Inl e, w1) \<Rightarrow> (Inl e, run_queue_destroy queue w1)
      | (Inr _, w1) \<Rightarrow> (Inr queue, w1))"
| "rows_to_runs_loop (row # rest) queue w =
     (case lib w of
        (Inl e, w1) \<Rightarrow> (Inl e, run_queue_destroy queue w1)
      | (Inr _, w1) \<Rightarrow>
          (case storage_sqlite_row_to_run row w1 of
             (Inl e, w2) \<Rightarrow> (Inl e, run_queue_destroy queue w2)
           | (Inr x, w2) \<Rightarrow> rows_to_runs_loop rest (run_queue_add_last queue x) w2))"

text \<open>The rows are those of the database at the first step.\<close>

definition storage_sqlite_rows_to_runs ::
  "(database \<Rightarrow> view_row list) \<Rightarrow> ('z db_world_scheme, run_queue) cfun" where
  "storage_sqlite_rows_to_runs stmt w = rows_to_runs_loop (stmt (sqldb w)) run_queue_create w"

definition storage_sqlite_get_runs :: "('z db_world_scheme, run_queue) cfun" where
  "storage_sqlite_get_runs =
     bindE (prepared_stmt_lock ''get_runs'') (\<lambda>_.
       after (storage_sqlite_rows_to_runs sql_get_runs) (reset_stmt ''get_runs''))"

definition storage_sqlite_get_run_queue :: "('z db_world_scheme, run_queue) cfun" where
  "storage_sqlite_get_run_queue =
     bindE (prepared_stmt_lock ''get_run_queue'') (\<lambda>_.
       after
         (bindE sqlite_bind (\<lambda>_.
            storage_sqlite_rows_to_runs (sql_get_run_queue RUN_STATUS_CREATED)))
         (reset_stmt ''get_run_queue''))"

section \<open>The storage interface\<close>

text \<open>
  \<open>apis\<close> has one entry, for \<open>STORAGE_TYPE_SQLITE\<close> (0); \<open>get_api\<close> lets every type up to and
  including the number of entries through.
\<close>

definition numof_apis :: nat where "numof_apis = 1"

datatype api = NoApi | SqliteApi | BeyondTable

definition get_api :: "int \<Rightarrow> api" where
  "get_api type =
     (if type < 0 then NoApi
      else if nat type > numof_apis then NoApi
      else if nat type < numof_apis then SqliteApi else BeyondTable)"

definition via_api :: "int \<Rightarrow> ('z world_scheme, 'a) cfun \<Rightarrow> ('z world_scheme, 'a) cfun" where
  "via_api type f =
     (case get_api type of
        NoApi \<Rightarrow> failing (-1)
      | SqliteApi \<Rightarrow> f
      | BeyondTable \<Rightarrow> andThen (undefined_behaviour ''get_api: past the table'') (failing (-1)))"

definition storage_create :: "int \<Rightarrow> ('z db_world_scheme, int) cfun" where
  "storage_create type = bindE (via_api type storage_sqlite_create) (\<lambda>_. ok type)"

definition storage_settings_destroy :: "int \<Rightarrow> 'z world_scheme \<Rightarrow> 'z world_scheme" where
  "storage_settings_destroy type w =
     snd (via_api type (andThen storage_sqlite_settings_destroy (ok ())) w)"

definition storage_destroy :: "int \<Rightarrow> 'z world_scheme \<Rightarrow> 'z world_scheme" where
  "storage_destroy type w =
     snd (via_api type (andThen storage_sqlite_destroy (ok ())) w)"

definition storage_run_create :: "int \<Rightarrow> string \<Rightarrow> string \<Rightarrow> ('z db_world_scheme, int) cfun" where
  "storage_run_create type url rv = via_api type (storage_sqlite_run_create url rv)"

definition storage_run_finished ::
  "int \<Rightarrow> int \<Rightarrow> process_output \<Rightarrow> ('z db_world_scheme, unit) cfun" where
  "storage_run_finished type i output = via_api type (storage_sqlite_run_finished i output)"

definition storage_get_runs :: "int \<Rightarrow> ('z db_world_scheme, run_queue) cfun" where
  "storage_get_runs type = via_api type storage_sqlite_get_runs"

definition storage_get_run_queue :: "int \<Rightarrow> ('z db_world_scheme, run_queue) cfun" where
  "storage_get_run_queue type = via_api type storage_sqlite_get_run_queue"

section \<open>What the operations do to the world\<close>

text \<open>
  \<open>db_moves w t rs\<close>: beside the
  database, a run from \<open>w\<close> to \<open>t\<close> took exactly \<open>rs\<close> and changed nothing; in particular it
  gave back every statement mutex it locked.
\<close>

lemma lucky_sqldb [simp]: "lucky (v\<lparr>sqldb := d\<rparr>) = lucky v"
  by (simp add: lucky_def)

lemma sqldb_simps [simp]:
  "sqldb (emit e w) = sqldb w" "sqldb (used w) = sqldb w"
  "db_world.more (emit e w) = db_world.more w" "db_world.more (used w) = db_world.more w"
  "answer (w\<lparr>sqldb := d\<rparr>) = answer w" "trace (w\<lparr>sqldb := d\<rparr>) = trace w"
  by (simp_all add: emit_def used_def answer_def)

definition db_moves ::
  "'z db_world_scheme \<Rightarrow> 'z db_world_scheme \<Rightarrow> resource list \<Rightarrow> bool" where
  "db_moves w t rs \<longleftrightarrow> still w t \<and> undef (trace t) = undef (trace w) \<and>
     (\<forall>q. bal (trace t) q = bal (trace w) q + int (count_list rs q)) \<and>
     (reliable w \<longrightarrow> reliable t) \<and> (lucky w \<longrightarrow> lucky t) \<and> db_world.more t = db_world.more w"

lemma reliable_sqldb [simp]: "reliable (w\<lparr>sqldb := d\<rparr>) = reliable w"
  by (simp add: reliable_def)

lemma used_sqldb [simp]: "used (w\<lparr>sqldb := d\<rparr>) = (used w)\<lparr>sqldb := d\<rparr>"
  "emit e (w\<lparr>sqldb := d\<rparr>) = (emit e w)\<lparr>sqldb := d\<rparr>"
  by (simp_all add: used_def emit_def)

lemma wp_sqlite_step [run_simps]:
  "wp (sqlite_step f) Q w =
     (if 0 < answer w then Q (Inl (- answer w)) (used w)
      else (case f (sqldb w) of
              None \<Rightarrow> Q (Inl (-19)) (used w)
            | Some (d, x) \<Rightarrow> Q (Inr x) ((used w)\<lparr>sqldb := d\<rparr>)))"
  by (auto simp: wp_def sqlite_step_def split: option.splits prod.splits)

lemma wp_ret_int [run_simps]:
  "wp (ret_int i) Q w = (if i < 0 then Q (Inl i) w else Q (Inr i) w)"
  by (simp add: ret_int_def run_simps)

lemmas storage_call_defs =
  prepared_stmt_lock_def prepared_stmt_unlock_def sqlite_bind_def reset_stmt_def sqlite_reset_def

definition repo_id_of :: "string \<Rightarrow> database \<Rightarrow> int" where
  "repo_id_of url d = (case sql_repo_find url d of [] \<Rightarrow> 0 | k # _ \<Rightarrow> int32 k)"

text \<open>One statement under its mutex, symbolically executed along each of its exits.\<close>

lemma find_repo_spec:
  assumes "storage_sqlite_find_repo url w = (r, t)"
  shows "db_moves w t [] \<and> sqldb t = sqldb w \<and>
    (case r of
       Inl e \<Rightarrow> e < 0 \<and> (lucky w \<longrightarrow> repo_id_of url (sqldb w) < 0)
     | Inr i \<Rightarrow> i = repo_id_of url (sqldb w))"
proof -
  have "wp (storage_sqlite_find_repo url) (\<lambda>r t. db_moves w t [] \<and> sqldb t = sqldb w \<and>
    (case r of
       Inl e \<Rightarrow> e < 0 \<and> (lucky w \<longrightarrow> repo_id_of url (sqldb w) < 0)
     | Inr i \<Rightarrow> i = repo_id_of url (sqldb w))) w"
    by (cases "lucky w"; simp add: storage_sqlite_find_repo_def storage_call_defs
        sqlite_column_int_def run_simps db_moves_def still_def repo_id_of_def split: list.split)
  from wpD [OF this assms] show ?thesis .
qed

lemma insert_repo_spec:
  assumes "storage_sqlite_insert_repo url w = (r, t)"
  shows "db_moves w t [] \<and> (sqldb t = sqldb w \<or> sqldb t = sql_repo_insert url (sqldb w)) \<and>
    (case r of
       Inl e \<Rightarrow> e < 0 \<and> (lucky w \<longrightarrow> repo_id_of url (sql_repo_insert url (sqldb w)) < 0)
     | Inr i \<Rightarrow> sqldb t = sql_repo_insert url (sqldb w) \<and> i = repo_id_of url (sqldb t))"
proof -
  have "wp (storage_sqlite_insert_repo url) (\<lambda>r t.
    db_moves w t [] \<and> (sqldb t = sqldb w \<or> sqldb t = sql_repo_insert url (sqldb w)) \<and>
    (case r of
       Inl e \<Rightarrow> e < 0 \<and> (lucky w \<longrightarrow> repo_id_of url (sql_repo_insert url (sqldb w)) < 0)
     | Inr i \<Rightarrow> sqldb t = sql_repo_insert url (sqldb w) \<and> i = repo_id_of url (sqldb t))) w"
    unfolding storage_sqlite_insert_repo_def
    by (cases "lucky w"; simp add: storage_call_defs run_simps db_moves_def still_def)
      (intro conjI impI wpI; drule find_repo_spec;
        force simp: db_moves_def still_def split: sum.splits)+
  from wpD [OF this assms] show ?thesis .
qed

lemma insert_run_spec:
  assumes "storage_sqlite_insert_run repo rv w = (r, t)"
  shows "db_moves w t [] \<and>
    (case sql_run_insert RUN_STATUS_CREATED repo rv (sqldb w) of
       None \<Rightarrow> sqldb t = sqldb w \<and> (\<exists>e. r = Inl e \<and> e < 0)
     | Some (d, i) \<Rightarrow>
         (sqldb t = sqldb w \<and> \<not> lucky w \<and> (\<exists>e. r = Inl e \<and> e < 0)) \<or>
         (sqldb t = d \<and> r = (if int32 i < 0 then Inl (int32 i) else Inr (int32 i))))"
proof -
  have "wp (storage_sqlite_insert_run repo rv) (\<lambda>r t. db_moves w t [] \<and>
    (case sql_run_insert RUN_STATUS_CREATED repo rv (sqldb w) of
       None \<Rightarrow> sqldb t = sqldb w \<and> (\<exists>e. r = Inl e \<and> e < 0)
     | Some (d, i) \<Rightarrow>
         (sqldb t = sqldb w \<and> \<not> lucky w \<and> (\<exists>e. r = Inl e \<and> e < 0)) \<or>
         (sqldb t = d \<and> r = (if int32 i < 0 then Inl (int32 i) else Inr (int32 i))))) w"
    by (cases "sql_run_insert RUN_STATUS_CREATED repo rv (sqldb w)"; cases "lucky w")
      (auto simp: storage_sqlite_insert_run_def storage_call_defs sqlite_column_int_def run_simps
        db_moves_def still_def)
  from wpD [OF this assms] show ?thesis .
qed

lemma run_finished_spec:
  assumes "storage_sqlite_run_finished i output w = (r, t)"
  shows "db_moves w t [] \<and>
    (case sql_run_finished RUN_STATUS_FINISHED (po_ec output)
            (case po_data output of None \<Rightarrow> None | Some _ \<Rightarrow> Some (output_bytes output)) i (sqldb w) of
       None \<Rightarrow> sqldb t = sqldb w \<and> (\<exists>e. r = Inl e \<and> e < 0)
     | Some d \<Rightarrow>
         (sqldb t = sqldb w \<and> \<not> lucky w \<and> (\<exists>e. r = Inl e \<and> e < 0)) \<or>
         (sqldb t = d \<and> r = Inr ()))"
proof -
  let ?out = "case po_data output of None \<Rightarrow> None | Some _ \<Rightarrow> Some (output_bytes output)"
  have "wp (storage_sqlite_run_finished i output) (\<lambda>r t. db_moves w t [] \<and>
    (case sql_run_finished RUN_STATUS_FINISHED (po_ec output) ?out i (sqldb w) of
       None \<Rightarrow> sqldb t = sqldb w \<and> (\<exists>e. r = Inl e \<and> e < 0)
     | Some d \<Rightarrow>
         (sqldb t = sqldb w \<and> \<not> lucky w \<and> (\<exists>e. r = Inl e \<and> e < 0)) \<or>
         (sqldb t = d \<and> r = Inr ()))) w"
    by (cases "lucky w"; cases "sql_run_finished RUN_STATUS_FINISHED (po_ec output) ?out i (sqldb w)";
        simp add: storage_sqlite_run_finished_def storage_call_defs run_simps db_moves_def still_def)
  from wpD [OF this assms] show ?thesis .
qed

text \<open>Listings: the runs in the order of the rows, or nothing and every run freed again.\<close>

definition run_of_row :: "view_row \<Rightarrow> run" where
  "run_of_row row =
     \<lparr>run_id = int32 (view_id row), repo_url = view_repo_url row, repo_rev = view_repo_rev row,
      run_status = int32 (text_to_int (view_status row)), run_exit_code = int32 (view_exit_code row)\<rparr>"

lemma column_text_run:
  assumes "sqlite_column_text (Some s) w = (a, u)"
  shows "(\<exists>e. a = Inl e \<and> e < 0 \<and> calm w u \<and> \<not> lucky w) \<or>
    (a = Inr (Some s) \<and> takes w u [Mem ''column_text''])"
    and "still w u" "lucky w \<Longrightarrow> lucky u"
  using assms
  by (cases "lucky w"; auto simp: sqlite_column_text_def bindE_def lib_def alloc_def ok_def takes_def
      still_def split: if_splits)+

lemma run_new_run:
  assumes "run_new i url rv status ec w = (a, u)"
  shows "(\<exists>e. a = Inl e \<and> e < 0 \<and> calm w u \<and> \<not> lucky w) \<or>
    (a = Inr \<lparr>run_id = i, repo_url = url, repo_rev = rv, run_status = status, run_exit_code = ec\<rparr> \<and>
       takes w u run_blocks)"
    and "still w u" "lucky w \<Longrightarrow> lucky u"
  using yieldsD [OF run_new_yields assms]
  by (cases a; auto simp: swaps_takes takes_def dest: lucky_reliable)+

lemma row_to_run_spec:
  assumes run: "storage_sqlite_row_to_run row w = (r, t)"
  shows "still w t \<and> (lucky w \<longrightarrow> lucky t \<and> is_ok r) \<and>
    (case r of
       Inl e \<Rightarrow> e < 0 \<and> calm w t
     | Inr x \<Rightarrow> x = run_of_row row \<and> takes w t run_blocks)"
proof -
  obtain a u where c1: "sqlite_column_text (Some (view_repo_url row)) w = (a, u)"
    by (cases "sqlite_column_text (Some (view_repo_url row)) w")
  note s1 = column_text_run [OF c1]
  obtain b v where c2: "sqlite_column_text (Some (view_repo_rev row)) u = (b, v)"
    by (cases "sqlite_column_text (Some (view_repo_rev row)) u")
  note s2 = column_text_run [OF c2]
  let ?n = "run_new (int32 (view_id row)) (view_repo_url row) (view_repo_rev row)
     (int32 (text_to_int (view_status row))) (int32 (view_exit_code row))"
  obtain c x where c3: "?n v = (c, x)" by (cases "?n v")
  note s3 = run_new_run [OF c3]
  from s1(1) show ?thesis
  proof (elim disjE exE conjE)
    fix e
    assume "a = Inl e" "e < 0" "calm w u" "\<not> lucky w"
    with run c1 s1 show ?thesis
      by (auto simp: storage_sqlite_row_to_run_def Let_def bindE_def)
  next
    assume a: "a = Inr (Some (view_repo_url row))" "takes w u [Mem ''column_text'']"
    from s2(1) show ?thesis
    proof (elim disjE exE conjE)
      fix e
      assume b: "b = Inl e" "e < 0" "calm u v" "\<not> lucky u"
      with run c1 c2 a have "r = Inl e" "t = release (Mem ''column_text'') v"
        by (auto simp: storage_sqlite_row_to_run_def Let_def bindE_def after_def free_text_def)
      with b a s1 s2 show ?thesis
        using takes_emit(2) [OF calm_trans [OF a(2) b(3)], of "Mem ''column_text''"]
        by (auto simp: still_def)
    next
      assume b: "b = Inr (Some (view_repo_rev row))" "takes u v [Mem ''column_text'']"
      have rt: "r = c" "t = release (Mem ''column_text'') (release (Mem ''column_text'') x)"
        using run c1 c2 c3 a b
        by (auto simp: storage_sqlite_row_to_run_def Let_def bindE_def after_def free_text_def
            sqlite_column_int_def)
      from s3(1) show ?thesis
        using a b s1 s2 s3 rt
        by (elim disjE) (auto simp: takes_def still_def run_of_row_def)
    qed
  qed
qed

lemma db_moves_takes:
  "takes w t rs \<Longrightarrow> still w t \<Longrightarrow> (lucky w \<longrightarrow> lucky t) \<Longrightarrow> db_moves w t rs \<and> sqldb t = sqldb w"
  for w t :: "'z db_world_scheme"
  by (cases w; cases t) (simp add: takes_def db_moves_def)

definition queue_blocks :: "run_queue \<Rightarrow> resource list" where
  "queue_blocks q = concat (map (\<lambda>_. run_blocks) q)"

lemma count_queue_blocks: "count_list (queue_blocks rs) q = length rs * count_list run_blocks q"
  by (induction rs) (simp_all add: queue_blocks_def)

lemma queue_blocks_simps [simp]:
  "queue_blocks [] = []" "queue_blocks (rs @ [x]) = queue_blocks rs @ run_blocks"
  by (simp_all add: queue_blocks_def)

lemma still_run_queue_destroy [simp]: "still w (run_queue_destroy q w)"
  by (induction q arbitrary: w) (auto simp: still_def run_destroy_def)

lemma lucky_run_queue_destroy [simp]: "lucky (run_queue_destroy q w) = lucky w"
  by (induction q arbitrary: w) (simp_all add: run_destroy_def)

lemma run_queue_destroy_db [simp]:
  "sqldb (run_queue_destroy q w) = sqldb w" "db_world.more (run_queue_destroy q w) = db_world.more w"
  by (induction q arbitrary: w) (simp_all add: run_destroy_def)

lemma rows_to_runs_loop_spec:
  assumes "rows_to_runs_loop rows queue w = (r, t)"
  shows "still w t \<and> undef (trace t) = undef (trace w) \<and> sqldb t = sqldb w \<and>
    db_world.more t = db_world.more w \<and> (reliable w \<longrightarrow> reliable t) \<and> (lucky w \<longrightarrow> lucky t \<and> is_ok r) \<and>
    (case r of
       Inl e \<Rightarrow> e < 0 \<and>
         (\<forall>q. bal (trace t) q = bal (trace w) q - int (length queue * count_list run_blocks q))
     | Inr out \<Rightarrow> out = queue @ map run_of_row rows \<and>
         (\<forall>q. bal (trace t) q = bal (trace w) q + int (length rows * count_list run_blocks q)))"
  using assms
proof (induction rows arbitrary: queue w)
  case Nil
  then show ?case
    using still_run_queue_destroy [of "used w" queue]
    by (cases "lucky w") (auto simp: lib_def still_def split: if_splits)
next
  case (Cons row rows)
  show ?case
  proof (cases "0 < answer w")
    case True
    with Cons.prems have "r = Inl (- answer w)" "t = run_queue_destroy queue (used w)"
      by (auto simp: lib_def)
    with True show ?thesis
      using still_run_queue_destroy [of "used w" queue]
      by (cases "lucky w") (auto simp: still_def)
  next
    case False
    obtain a u where s: "storage_sqlite_row_to_run row (used w) = (a, u)"
      by (cases "storage_sqlite_row_to_run row (used w)")
    note ss = row_to_run_spec [OF s]
    show ?thesis
    proof (cases a)
      case (Inl e)
      with Cons.prems False s have "r = Inl e" "t = run_queue_destroy queue u"
        by (auto simp: lib_def)
      with ss Inl show ?thesis
        using still_run_queue_destroy [of u queue] db_moves_takes [of "used w" u "[]"]
        by (auto simp: db_moves_def still_def takes_def)
    next
      case (Inr x)
      with Cons.prems False s have rec: "rows_to_runs_loop rows (run_queue_add_last queue x) u = (r, t)"
        by (simp add: lib_def)
      have u: "db_moves (used w) u run_blocks" "sqldb u = sqldb (used w)" "x = run_of_row row"
        using ss Inr db_moves_takes [of "used w" u run_blocks] by auto
      from Cons.IH [OF rec] u show ?thesis
        by (cases r)
          (auto simp: db_moves_def still_def run_queue_add_last_def algebra_simps)
    qed
  qed
qed

lemma rows_to_runs_spec:
  assumes "storage_sqlite_rows_to_runs stmt w = (r, t)"
  shows "sqldb t = sqldb w \<and> db_moves w t (case r of Inl _ \<Rightarrow> [] | Inr q \<Rightarrow> queue_blocks q) \<and>
    (lucky w \<longrightarrow> is_ok r) \<and>
    (case r of Inl e \<Rightarrow> e < 0 | Inr q \<Rightarrow> q = map run_of_row (stmt (sqldb w)))"
  using rows_to_runs_loop_spec [OF assms [unfolded storage_sqlite_rows_to_runs_def]]
  by (cases r) (auto simp: db_moves_def run_queue_create_def count_queue_blocks)

lemma listing_spec:
  assumes run: "bindE (prepared_stmt_lock st) (\<lambda>_. after f (reset_stmt st)) w = (r, t)"
    and f: "\<And>w a u. f w = (a, u) \<Longrightarrow>
      sqldb u = sqldb w \<and> db_moves w u (case a of Inl _ \<Rightarrow> [] | Inr q \<Rightarrow> queue_blocks q) \<and>
      (lucky w \<longrightarrow> is_ok a) \<and> (case a of Inl e \<Rightarrow> e < 0 | Inr q \<Rightarrow> q = g (sqldb w))"
  shows "sqldb t = sqldb w \<and> db_moves w t (case r of Inl _ \<Rightarrow> [] | Inr q \<Rightarrow> queue_blocks q) \<and>
    (lucky w \<longrightarrow> is_ok r) \<and> (case r of Inl e \<Rightarrow> e < 0 | Inr q \<Rightarrow> q = g (sqldb w))"
proof (cases "0 < answer w")
  case True
  with run show ?thesis
    by (cases "lucky w")
      (auto simp: bindE_def prepared_stmt_lock_def lib_def db_moves_def still_def)
next
  case False
  let ?v = "emit (Acquire (Lib (st @ ''.mtx''))) (used w)"
  obtain a u where fa: "f ?v = (a, u)" by (cases "f ?v")
  with run False have "r = a" "t = reset_stmt st u"
    by (auto simp: bindE_def prepared_stmt_lock_def lib_def andThen_def ok_def after_def)
  with f [OF fa] show ?thesis
    by (cases a) (auto simp: db_moves_def still_def storage_call_defs)
qed

lemma get_runs_spec:
  assumes "storage_sqlite_get_runs w = (r, t)"
  shows "sqldb t = sqldb w \<and> db_moves w t (case r of Inl _ \<Rightarrow> [] | Inr q \<Rightarrow> queue_blocks q) \<and>
    (lucky w \<longrightarrow> is_ok r) \<and>
    (case r of Inl e \<Rightarrow> e < 0 | Inr q \<Rightarrow> q = map run_of_row (sql_get_runs (sqldb w)))"
  by (rule listing_spec [OF assms [unfolded storage_sqlite_get_runs_def] rows_to_runs_spec])

lemma get_run_queue_spec:
  assumes "storage_sqlite_get_run_queue w = (r, t)"
  shows "sqldb t = sqldb w \<and> db_moves w t (case r of Inl _ \<Rightarrow> [] | Inr q \<Rightarrow> queue_blocks q) \<and>
    (lucky w \<longrightarrow> is_ok r) \<and>
    (case r of Inl e \<Rightarrow> e < 0
     | Inr q \<Rightarrow> q = map run_of_row (sql_get_run_queue RUN_STATUS_CREATED (sqldb w)))"
proof (rule listing_spec [OF assms [unfolded storage_sqlite_get_run_queue_def]])
  fix w a and u :: "'z db_world_scheme"
  assume run: "bindE sqlite_bind (\<lambda>_. storage_sqlite_rows_to_runs
      (sql_get_run_queue RUN_STATUS_CREATED)) w = (a, u)"
  show "sqldb u = sqldb w \<and> db_moves w u (case a of Inl _ \<Rightarrow> [] | Inr q \<Rightarrow> queue_blocks q) \<and>
    (lucky w \<longrightarrow> is_ok a) \<and> (case a of Inl e \<Rightarrow> e < 0
     | Inr q \<Rightarrow> q = map run_of_row (sql_get_run_queue RUN_STATUS_CREATED (sqldb w)))"
  proof (cases "0 < answer w")
    case True
    with run show ?thesis
      by (cases "lucky w") (auto simp: bindE_def sqlite_bind_def lib_def db_moves_def still_def)
  next
    case False
    with run have "storage_sqlite_rows_to_runs (sql_get_run_queue RUN_STATUS_CREATED) (used w) = (a, u)"
      by (simp add: bindE_def sqlite_bind_def lib_def)
    from rows_to_runs_spec [OF this] show ?thesis
      by (cases a) (auto simp: db_moves_def still_def)
  qed
qed

section \<open>Set-up\<close>

lemma next_rowid_gt: "i \<in> set ids \<Longrightarrow> i < next_rowid ids"
  by (induction ids) (auto simp: next_rowid_def)

lemma next_rowid_pos: "0 < next_rowid ids"
  by (induction ids) (auto simp: next_rowid_def)

text \<open>The database right after the first set-up.\<close>

definition fresh_database :: database where
  "fresh_database =
     \<lparr>db_version = 1,
      db_objects = [''cimple_repos'', ''cimple_repos_index_url'', ''cimple_run_status'',
        ''cimple_run_status_index_label'', ''cimple_runs'', ''cimple_runs_index_status'',
        ''cimple_runs_index_repo_id'', ''cimple_runs_view''],
      db_statuses = [(1, ''created''), (2, ''finished'')], db_repos = [], db_runs = []\<rparr>"

lemma setup_fresh:
  "lucky w \<Longrightarrow> sqldb w = empty_database \<Longrightarrow> storage_sqlite_setup w = (r, t) \<Longrightarrow>
     r = Inr () \<and> sqldb t = fresh_database"
  by (auto simp: storage_sqlite_setup_def sqlite_set_foreign_keys_def storage_sqlite_upgrade_def
      sqlite_get_user_version_def sqlite_prepare_def sqlite_finalize_def sqlite_step_def
      storage_sqlite_upgrade_from_to_def storage_sqlite_upgrade_to_def sqlite_schemas_def
      schema_v01_def sqlite_exec_as_transaction_def empty_database_def fresh_database_def
      sqlite_column_int_def int32_def alloc_def lib_def bindE_def after_def andThen_def ok_def
      Let_def)

end
