(* ===== verification/RunStore.thy ===== *)
theory RunStore
  imports Queues
begin

text \<open>
  What the storage promises its users: a list of runs, in the order of their creation, of which
  nothing is lost. \<open>run_store\<close> is the contract; the database of the program implements it.
\<close>

record stored_run =
  sr_id :: int
  sr_url :: string
  sr_rev :: string
  sr_status :: int
  sr_exit_code :: int
  sr_output :: "char list"

definition created_run :: "int \<Rightarrow> string \<Rightarrow> string \<Rightarrow> stored_run" where
  "created_run i url rv =
     \<lparr>sr_id = i, sr_url = url, sr_rev = rv, sr_status = RUN_STATUS_CREATED,
      sr_exit_code = -1, sr_output = []\<rparr>"

definition finished_run :: "int \<Rightarrow> char list \<Rightarrow> stored_run \<Rightarrow> stored_run" where
  "finished_run ec out x =
     x\<lparr>sr_status := RUN_STATUS_FINISHED, sr_exit_code := ec, sr_output := out\<rparr>"

definition finish_in :: "int \<Rightarrow> int \<Rightarrow> char list \<Rightarrow> stored_run list \<Rightarrow> stored_run list" where
  "finish_in i ec out = map (\<lambda>x. if sr_id x = i then finished_run ec out x else x)"

lemma finish_in_fields:
  "map sr_id (finish_in i ec out xs) = map sr_id xs"
  "map (\<lambda>x. (sr_url x, sr_rev x)) (finish_in i ec out xs) = map (\<lambda>x. (sr_url x, sr_rev x)) xs"
  by (auto simp: finish_in_def finished_run_def)

datatype store_op =
    Create string string
  | Finish int int "char list"

text \<open>A sequence of operations on a store; \<open>None\<close> as soon as one of them fails.\<close>

fun run_ops ::
  "('d \<Rightarrow> string \<Rightarrow> string \<Rightarrow> ('d \<times> int) option) \<Rightarrow> ('d \<Rightarrow> int \<Rightarrow> int \<Rightarrow> char list \<Rightarrow> 'd option) \<Rightarrow>
     store_op list \<Rightarrow> 'd \<Rightarrow> 'd option" where
  "run_ops create finish [] d = Some d"
| "run_ops create finish (Create url rv # ops) d =
     (case create d url rv of None \<Rightarrow> None | Some (d', i) \<Rightarrow> run_ops create finish ops d')"
| "run_ops create finish (Finish i ec out # ops) d =
     (case finish d i ec out of None \<Rightarrow> None | Some d' \<Rightarrow> run_ops create finish ops d')"

fun creations :: "store_op list \<Rightarrow> (string \<times> string) list" where
  "creations [] = []"
| "creations (Create url rv # ops) = (url, rv) # creations ops"
| "creations (Finish i ec out # ops) = creations ops"

section \<open>The contract\<close>

locale run_store =
  fixes entries :: "'d \<Rightarrow> stored_run list"
    and inv :: "'d \<Rightarrow> bool"
    and create :: "'d \<Rightarrow> string \<Rightarrow> string \<Rightarrow> ('d \<times> int) option"
    and finish :: "'d \<Rightarrow> int \<Rightarrow> int \<Rightarrow> char list \<Rightarrow> 'd option"
  assumes created: "inv d \<Longrightarrow> create d url rv = Some (d', i) \<Longrightarrow>
      inv d' \<and> entries d' = entries d @ [created_run i url rv] \<and> (\<forall>x \<in> set (entries d). sr_id x < i)"
    and finished: "inv d \<Longrightarrow> finish d i ec out = Some d' \<Longrightarrow>
      inv d' \<and> entries d' = finish_in i ec out (entries d)"
begin

text \<open>The start of every induction below: what one operation leads to.\<close>

lemma ops_CreateE:
  assumes "inv d" "run_ops create finish (Create url rv # ops) d = Some d'"
  obtains m i where "run_ops create finish ops m = Some d'" "inv m"
    "entries m = entries d @ [created_run i url rv]" "\<forall>x \<in> set (entries d). sr_id x < i"
proof -
  from assms(2) obtain m i where m: "create d url rv = Some (m, i)" "run_ops create finish ops m = Some d'"
    by (auto split: option.splits)
  with created [OF assms(1) m(1)] that show ?thesis by simp
qed

lemma ops_FinishE:
  assumes "inv d" "run_ops create finish (Finish i ec out # ops) d = Some d'"
  obtains m where "run_ops create finish ops m = Some d'" "inv m"
    "entries m = finish_in i ec out (entries d)"
proof -
  from assms(2) obtain m where m: "finish d i ec out = Some m" "run_ops create finish ops m = Some d'"
    by (auto split: option.splits)
  with finished [OF assms(1) m(1)] that show ?thesis by simp
qed

lemma ops_inv: "inv d \<Longrightarrow> run_ops create finish ops d = Some d' \<Longrightarrow> inv d'"
proof (induction ops arbitrary: d rule: creations.induct)
  case (2 url rv ops)
  from 2(2,3) show ?case by (rule ops_CreateE) (rule 2(1))
next
  case (3 i ec out ops)
  from 3(2,3) show ?case by (rule ops_FinishE) (rule 3(1))
qed simp

text \<open>Nothing but a creation adds a run, and none is ever lost or reordered.\<close>

lemma ops_creations:
  "inv d \<Longrightarrow> run_ops create finish ops d = Some d' \<Longrightarrow>
     map (\<lambda>x. (sr_url x, sr_rev x)) (entries d') =
     map (\<lambda>x. (sr_url x, sr_rev x)) (entries d) @ creations ops"
proof (induction ops arbitrary: d rule: creations.induct)
  case (2 url rv ops)
  from 2(2,3) show ?case by (rule ops_CreateE) (simp add: 2(1) created_run_def)
next
  case (3 i ec out ops)
  from 3(2,3) show ?case by (rule ops_FinishE) (simp add: 3(1) finish_in_fields)
qed simp

lemma ops_ids_increase:
  "inv d \<Longrightarrow> run_ops create finish ops d = Some d' \<Longrightarrow> sorted_wrt (<) (map sr_id (entries d)) \<Longrightarrow>
     sorted_wrt (<) (map sr_id (entries d'))"
proof (induction ops arbitrary: d rule: creations.induct)
  case (2 url rv ops)
  from 2(2,3) show ?case
    by (rule ops_CreateE) (rule 2(1), assumption+, use 2(4) in
        \<open>simp add: sorted_wrt_append created_run_def\<close>)
next
  case (3 i ec out ops)
  from 3(2,3) show ?case
    by (rule ops_FinishE) (rule 3(1), assumption+, use 3(4) in \<open>simp add: finish_in_fields\<close>)
qed simp

text \<open>A run counts as finished exactly if it was so before or one of the operations finished it.\<close>

lemma ops_finished:
  "inv d \<Longrightarrow> run_ops create finish ops d = Some d' \<Longrightarrow> x \<in> set (entries d) \<Longrightarrow>
     \<exists>x' \<in> set (entries d'). sr_id x' = sr_id x \<and>
       (sr_status x' = RUN_STATUS_FINISHED \<longleftrightarrow>
          sr_status x = RUN_STATUS_FINISHED \<or> (\<exists>ec out. Finish (sr_id x) ec out \<in> set ops))"
proof (induction ops arbitrary: d x rule: creations.induct)
  case (1 d x)
  then show ?case by auto
next
  case (2 url rv ops)
  from 2(2,3) show ?case
  proof (rule ops_CreateE)
    fix m i
    assume m: "run_ops create finish ops m = Some d'" "inv m"
      "entries m = entries d @ [created_run i url rv]"
    with 2(4) 2(1) [OF m(2,1), of x] show ?thesis by simp
  qed
next
  case (3 i ec out ops)
  from 3(2,3) show ?case
  proof (rule ops_FinishE)
    fix m
    let ?x = "if sr_id x = i then finished_run ec out x else x"
    assume m: "run_ops create finish ops m = Some d'" "inv m" "entries m = finish_in i ec out (entries d)"
    with 3(4) have "?x \<in> set (entries m)" by (auto simp: finish_in_def)
    from 3(1) [OF m(2,1) this] show ?thesis
      by (auto simp: finished_run_def split: if_splits)
  qed
qed

end

end
