(* ===== verification/DbStore.thy ===== *)
theory DbStore
  imports Storage RunStore
begin

text \<open>
  The database implements \<open>run_store\<close>: \<open>entries\<close> is the abstraction, \<open>db_ok\<close> the invariant, and
  \<open>db_create\<close> and \<open>db_finish\<close> are the effects of \<open>storage_run_create\<close> and
  \<open>storage_run_finished\<close> on the tables.
\<close>

definition db_ok :: "database \<Rightarrow> bool" where
  "db_ok d \<longleftrightarrow> db_statuses d = [(1, ''created''), (2, ''finished'')] \<and>
     sorted_wrt (<) (map fst (db_repos d)) \<and> distinct (map snd (db_repos d)) \<and>
     (\<forall>i \<in> fst ` set (db_repos d). 0 < i \<and> i < 2 ^ 31) \<and>
     sorted_wrt (<) (map row_id (db_runs d)) \<and>
     (\<forall>x \<in> set (db_runs d). 0 < row_id x \<and> row_id x < 2 ^ 31 \<and> row_status x \<in> {1, 2} \<and>
        row_repo_id x \<in> fst ` set (db_repos d))"

definition url_of :: "database \<Rightarrow> int \<Rightarrow> string" where
  "url_of d i = the (map_of (db_repos d) i)"

definition entries :: "database \<Rightarrow> stored_run list" where
  "entries d = map (\<lambda>x. \<lparr>sr_id = row_id x, sr_url = url_of d (row_repo_id x),
      sr_rev = row_repo_rev x, sr_status = row_status x, sr_exit_code = row_exit_code x,
      sr_output = row_output x\<rparr>) (db_runs d)"

definition db_create :: "database \<Rightarrow> string \<Rightarrow> string \<Rightarrow> (database \<times> int) option" where
  "db_create d url rv =
     (let d1 = sql_repo_insert url d; k = repo_id_of url d1
      in if k < 0 then None
         else (case sql_run_insert RUN_STATUS_CREATED k rv d1 of
                 None \<Rightarrow> None
               | Some (d2, i) \<Rightarrow> if int32 i < 0 then None else Some (d2, int32 i)))"

definition db_finish :: "database \<Rightarrow> int \<Rightarrow> int \<Rightarrow> char list \<Rightarrow> database option" where
  "db_finish d i ec out = sql_run_finished RUN_STATUS_FINISHED ec (Some out) i d"

section \<open>Rowids\<close>

lemma next_rowid_bounds:
  assumes "\<forall>i \<in> set ids. 0 < i \<and> i < 2 ^ 31" "\<not> int32 (next_rowid ids) < 0"
  shows "next_rowid ids < 2 ^ 31" "int32 (next_rowid ids) = next_rowid ids"
proof -
  have "foldr max ids 0 < 2 ^ 31"
    using assms(1) by (induction ids) auto
  then have le: "next_rowid ids \<le> 2 ^ 31" by (simp add: next_rowid_def)
  have "next_rowid ids \<noteq> 2 ^ 31"
    using assms(2) by (auto simp: int32_def signed_take_bit_int_eq_self_iff)
  with le show "next_rowid ids < 2 ^ 31" by simp
  then show "int32 (next_rowid ids) = next_rowid ids"
    using next_rowid_pos [of ids] by (intro int32_id) (simp add: in_int32_def)
qed

lemma fresh_database_ok: "db_ok fresh_database" "entries fresh_database = []"
  by (simp_all add: db_ok_def fresh_database_def entries_def)

section \<open>Repositories\<close>

lemma repo_insert_spec:
  assumes ok: "db_ok d" and d1: "d1 = sql_repo_insert url d" and k: "\<not> repo_id_of url d1 < 0"
  shows "db_ok d1" "db_runs d1 = db_runs d" "db_statuses d1 = db_statuses d"
    "(repo_id_of url d1, url) \<in> set (db_repos d1)"
    "\<exists>new. db_repos d1 = db_repos d @ new"
proof -
  have find: "repo_id_of url d1 = k \<and> 0 < k \<and> k < 2 ^ 31"
    if "db_repos d1 = xs @ (k, url) # ys" "url \<notin> snd ` set xs" "0 < k" "k < 2 ^ 31" for xs ys k
  proof -
    have "filter (\<lambda>x. snd x = url) xs = []" using that(2) by (force simp: filter_empty_conv)
    with that show ?thesis
      by (auto simp: repo_id_of_def sql_repo_find_def int32_id in_int32_def)
  qed
  show "db_runs d1 = db_runs d" "db_statuses d1 = db_statuses d" "\<exists>new. db_repos d1 = db_repos d @ new"
    by (auto simp: d1 sql_repo_insert_def)
  have "db_ok d1 \<and> (repo_id_of url d1, url) \<in> set (db_repos d1)"
  proof (cases "url \<in> snd ` set (db_repos d)")
    case True
    then obtain i where "(i, url) \<in> set (db_repos d)" by auto
    then obtain xs ys where xy: "db_repos d = xs @ (i, url) # ys" by (meson split_list)
    with ok have "url \<notin> snd ` set xs" "0 < i" "i < 2 ^ 31" by (auto simp: db_ok_def)
    with xy True ok find [of xs i ys] show ?thesis by (simp add: d1 sql_repo_insert_def)
  next
    case False
    let ?n = "next_rowid (map fst (db_repos d))"
    have r: "db_repos d1 = db_repos d @ [(?n, url)]" by (simp add: d1 sql_repo_insert_def False)
    have "filter (\<lambda>x. snd x = url) (db_repos d) = []" using False by (force simp: filter_empty_conv)
    then have id1: "repo_id_of url d1 = int32 ?n"
      by (simp add: repo_id_of_def sql_repo_find_def r)
    have bounds: "\<forall>i \<in> set (map fst (db_repos d)). 0 < i \<and> i < 2 ^ 31"
      using ok by (simp add: db_ok_def)
    note n = next_rowid_bounds [OF bounds k [unfolded id1]]
    have "db_ok d1"
      using ok n(1) next_rowid_pos [of "map fst (db_repos d)"] False
        next_rowid_gt [of _ "map fst (db_repos d)"]
      by (auto simp: db_ok_def r d1 sql_repo_insert_def sorted_wrt_append)
    with id1 n(2) r show ?thesis by simp
  qed
  then show "db_ok d1" "(repo_id_of url d1, url) \<in> set (db_repos d1)" by auto
qed

lemma distinct_repo_ids: "db_ok d \<Longrightarrow> distinct (map fst (db_repos d))"
  by (simp add: db_ok_def strict_sorted_iff)

lemma url_of_repo: "db_ok d \<Longrightarrow> (i, url) \<in> set (db_repos d) \<Longrightarrow> url_of d i = url"
  by (simp add: url_of_def distinct_repo_ids map_of_is_SomeI)

lemma url_of_extended:
  "i \<in> fst ` set (db_repos d) \<Longrightarrow> db_repos d1 = db_repos d @ new \<Longrightarrow> url_of d1 i = url_of d i"
  by (auto simp: url_of_def map_add_def dom_map_of_conv_image_fst [symmetric] split: option.splits)

section \<open>The contract holds\<close>

lemma db_create_spec:
  assumes ok: "db_ok d" and c: "db_create d url rv = Some (d', i)"
  shows "db_ok d' \<and> entries d' = entries d @ [created_run i url rv] \<and>
    (\<forall>x \<in> set (entries d). sr_id x < i)"
proof -
  define d1 where "d1 = sql_repo_insert url d"
  define k where "k = repo_id_of url d1"
  let ?n = "next_rowid (map row_id (db_runs d1))"
  from c have k: "\<not> repo_id_of url d1 < 0" and ins: "RUN_STATUS_CREATED \<in> fst ` set (db_statuses d1)"
    and n: "\<not> int32 ?n < 0" and i: "i = int32 ?n"
    and d': "d' = d1\<lparr>db_runs := db_runs d1 @
      [\<lparr>row_id = ?n, row_status = RUN_STATUS_CREATED, row_exit_code = -1, row_output = [],
        row_repo_id = k, row_repo_rev = rv\<rparr>]\<rparr>"
    by (auto simp: db_create_def Let_def sql_run_insert_def d1_def k_def
        split: option.splits if_splits)
  note r = repo_insert_spec [OF ok d1_def k]
  have bounds: "\<forall>i \<in> set (map row_id (db_runs d1)). 0 < i \<and> i < 2 ^ 31"
    using r(1) by (simp add: db_ok_def)
  note b = next_rowid_bounds [OF bounds n]
  have gt: "\<forall>x \<in> set (db_runs d). row_id x < ?n"
    using next_rowid_gt [of _ "map row_id (db_runs d1)"] r(2) by auto
  have "db_ok d'"
    using r(1,4) b(1) next_rowid_pos [of "map row_id (db_runs d1)"] gt
    by (auto simp: db_ok_def d' k_def r(2) sorted_wrt_append RUN_STATUS_CREATED_def
        intro: rev_image_eqI)
  moreover have "entries d' = entries d @ [created_run i url rv]"
  proof -
    have "\<forall>x \<in> set (db_runs d). url_of d1 (row_repo_id x) = url_of d (row_repo_id x)"
      using ok r(5) url_of_extended by (auto simp: db_ok_def)
    moreover have "url_of d' = url_of d1" by (rule ext) (simp add: url_of_def d')
    ultimately show ?thesis
      using url_of_repo [OF r(1,4)] b(2) i
      by (simp add: entries_def d' r(2) created_run_def k_def url_of_def)
  qed
  ultimately show ?thesis using gt b(2) i by (auto simp: entries_def)
qed

lemma db_finish_spec:
  assumes ok: "db_ok d" and f: "db_finish d i ec out = Some d'"
  shows "db_ok d' \<and> entries d' = finish_in i ec out (entries d)"
proof (cases "i \<in> row_id ` set (db_runs d)")
  case False
  with f ok show ?thesis
    by (force simp: db_finish_def sql_run_finished_def entries_def finish_in_def)
next
  case True
  let ?f = "\<lambda>x. if row_id x = i
      then x\<lparr>row_status := RUN_STATUS_FINISHED, row_exit_code := ec, row_output := out\<rparr> else x"
  from f True have d': "d' = d\<lparr>db_runs := map ?f (db_runs d)\<rparr>"
    by (auto simp: db_finish_def sql_run_finished_def split: if_splits)
  have ids: "row_id \<circ> ?f = row_id" by auto
  have "db_ok d'"
    using ok by (auto simp: db_ok_def d' RUN_STATUS_FINISHED_def ids simp del: if_image_distrib)
  moreover have "url_of d' = url_of d" by (rule ext) (simp add: url_of_def d')
  ultimately show ?thesis
    by (auto simp: entries_def d' finish_in_def finished_run_def)
qed

interpretation store: run_store entries db_ok db_create db_finish
  by unfold_locales (rule db_create_spec db_finish_spec; assumption)+

section \<open>Listings\<close>

lemma concat_keyed:
  "distinct (map fst xs) \<Longrightarrow> (k, v) \<in> set xs \<Longrightarrow>
     concat (map (\<lambda>(i, u). if b \<and> k = i then [f i u] else []) xs) = (if b then [f k v] else [])"
proof (induction xs)
  case (Cons x xs)
  show ?case
  proof (cases "x = (k, v)")
    case True
    with Cons.prems have "\<forall>y \<in> set xs. fst y \<noteq> k" by force
    then have "concat (map (\<lambda>(i, u). if b \<and> k = i then [f i u] else []) xs) = []" by auto
    with True show ?thesis by simp
  next
    case False
    with Cons.prems have "(k, v) \<in> set xs" by simp
    moreover from this have "k \<in> fst ` set xs" by force
    moreover have "fst x \<notin> fst ` set xs" using Cons.prems(1) by simp
    ultimately have "fst x \<noteq> k" "(k, v) \<in> set xs" by auto
    with Cons show ?thesis by (cases x) auto
  qed
qed simp

definition label_of :: "int \<Rightarrow> string" where
  "label_of status = (if status = RUN_STATUS_CREATED then ''created'' else ''finished'')"

definition viewed :: "database \<Rightarrow> run_row \<Rightarrow> view_row" where
  "viewed d x = \<lparr>view_id = row_id x, view_status = label_of (row_status x),
      view_exit_code = row_exit_code x, view_output = row_output x,
      view_repo_url = url_of d (row_repo_id x), view_repo_rev = row_repo_rev x\<rparr>"

lemma concat_singletons: "(\<And>x. x \<in> set xs \<Longrightarrow> g x = [h x]) \<Longrightarrow> concat (map g xs) = map h xs"
  by (induction xs) simp_all

text \<open>Under the invariant the joins of the view find exactly one partner each.\<close>

lemma runs_view:
  assumes ok: "db_ok d"
  shows "sql_runs_view d = map (viewed d) (db_runs d)"
  unfolding sql_runs_view_def
proof (rule concat_singletons)
  fix x
  assume x: "x \<in> set (db_runs d)"
  with ok obtain url where url: "(row_repo_id x, url) \<in> set (db_repos d)"
    by (auto simp: db_ok_def)
  note join = concat_keyed [OF distinct_repo_ids [OF ok] url]
  from ok x have "row_status x = 1 \<or> row_status x = 2"
    "db_statuses d = [(1, ''created''), (2, ''finished'')]"
    by (auto simp: db_ok_def)
  then show "view_join d x = [viewed d x]"
    by (auto simp: view_join_def viewed_def join url_of_repo [OF ok url] label_of_def
        RUN_STATUS_CREATED_def)
qed

lemma sort_key_sorted: "sorted_wrt (<) (map f xs) \<Longrightarrow> sort_key (f :: 'a \<Rightarrow> int) xs = xs"
  by (intro sort_key_id_if_sorted) (simp add: strict_sorted_iff)

definition listed_run :: "stored_run \<Rightarrow> run" where
  "listed_run x = \<lparr>run_id = sr_id x, repo_url = sr_url x, repo_rev = sr_rev x, run_status = 0,
     run_exit_code = int32 (sr_exit_code x)\<rparr>"

lemma label_text: "text_to_int (label_of s) = 0" "label_of s \<noteq> decimal 1"
  by (simp_all add: label_of_def text_to_int_def digits_value_def is_digit_def decimal_def
      nat_decimal.simps)

lemma get_runs_entries:
  assumes ok: "db_ok d"
  shows "map run_of_row (sql_get_runs d) = map listed_run (rev (entries d))"
proof -
  have "sorted_wrt (<) (map view_id (sql_runs_view d))"
    using ok by (simp add: runs_view db_ok_def comp_def viewed_def)
  then have "sql_get_runs d = rev (sql_runs_view d)"
    by (simp add: sql_get_runs_def sort_key_sorted)
  moreover have "int32 (row_id x) = row_id x" if "x \<in> set (db_runs d)" for x
    using ok that by (intro int32_id) (auto simp: db_ok_def in_int32_def)
  ultimately show ?thesis
    by (auto simp: runs_view [OF ok] entries_def rev_map run_of_row_def listed_run_def label_text
        viewed_def int32_id in_int32_def)
qed

lemma get_run_queue_empty:
  assumes ok: "db_ok d"
  shows "sql_get_run_queue RUN_STATUS_CREATED d = []"
  by (simp add: sql_get_run_queue_def runs_view [OF ok] RUN_STATUS_CREATED_def label_text
      filter_map comp_def viewed_def)

section \<open>The operations of the storage\<close>

text \<open>There is a rowid left for one more repository and one more run.\<close>

definition room :: "database \<Rightarrow> bool" where
  "room d \<longleftrightarrow> next_rowid (map fst (db_repos d)) < 2 ^ 31 \<and> next_rowid (map row_id (db_runs d)) < 2 ^ 31"

lemma room_repo:
  assumes ok: "db_ok d" and room: "room d"
  shows "\<not> repo_id_of url (sql_repo_insert url d) < 0"
proof (cases "filter (\<lambda>x. snd x = url) (db_repos d)")
  case Nil
  then have "url \<notin> snd ` set (db_repos d)" by (auto simp: filter_empty_conv)
  with Nil room next_rowid_pos [of "map fst (db_repos d)"] show ?thesis
    by (simp add: repo_id_of_def sql_repo_find_def sql_repo_insert_def room_def int32_id in_int32_def)
next
  case (Cons x xs)
  then have "x \<in> set (db_repos d)" "snd x = url" by (auto simp: filter_eq_Cons_iff)
  moreover from this have "url \<in> snd ` set (db_repos d)" by auto
  moreover have "0 < fst x \<and> fst x < 2 ^ 31" using ok \<open>x \<in> set (db_repos d)\<close> by (auto simp: db_ok_def)
  ultimately show ?thesis using Cons
    by (simp add: repo_id_of_def sql_repo_find_def sql_repo_insert_def int32_id in_int32_def)
qed

lemma entries_repo_insert:
  assumes ok: "db_ok d" and k: "\<not> repo_id_of url (sql_repo_insert url d) < 0"
  shows "entries (sql_repo_insert url d) = entries d"
proof -
  note r = repo_insert_spec [OF ok refl k]
  have "\<forall>x \<in> set (db_runs d). url_of (sql_repo_insert url d) (row_repo_id x) = url_of d (row_repo_id x)"
    using ok r(5) url_of_extended by (auto simp: db_ok_def)
  then show ?thesis by (simp add: entries_def r(2))
qed

lemma run_create_spec:
  assumes run: "storage_sqlite_run_create url rv w = (r, t)"
    and ok: "db_ok (sqldb w)" "room (sqldb w)"
  shows "db_moves w t [] \<and> db_ok (sqldb t) \<and>
    (case r of
       Inl e \<Rightarrow> e < 0 \<and> \<not> lucky w \<and> entries (sqldb t) = entries (sqldb w)
     | Inr i \<Rightarrow> db_create (sqldb w) url rv = Some (sqldb t, i))"
proof -
  let ?d1 = "sql_repo_insert url (sqldb w)"
  note k = room_repo [OF ok, of url]
  note r1 = repo_insert_spec [OF ok(1) refl k]
  obtain a u where ins: "storage_sqlite_insert_repo url w = (a, u)"
    by (cases "storage_sqlite_insert_repo url w")
  note s1 = insert_repo_spec [OF ins]
  show ?thesis
  proof (cases a)
    case (Inl e)
    with run ins have "r = Inl e" "t = u" by (auto simp: storage_sqlite_run_create_def bindE_def)
    with s1 Inl k ok r1(1) show ?thesis by (auto simp: entries_repo_insert)
  next
    case (Inr repo)
    with s1 have u: "sqldb u = ?d1" "repo = repo_id_of url ?d1" "db_moves w u []" by auto
    from run ins Inr have "storage_sqlite_insert_run repo rv u = (r, t)"
      by (simp add: storage_sqlite_run_create_def bindE_def)
    note s2 = insert_run_spec [OF this]
    have moved: "db_moves w t []" using u(3) s2 by (auto simp: db_moves_def still_def)
    have "RUN_STATUS_CREATED \<in> fst ` set (db_statuses ?d1)" "repo \<in> fst ` set (db_repos ?d1)"
      using ok(1) r1(3,4) u(2) by (force simp: db_ok_def RUN_STATUS_CREATED_def)+
    then obtain d i where sr: "sql_run_insert RUN_STATUS_CREATED repo rv ?d1 = Some (d, i)"
      "i = next_rowid (map row_id (db_runs ?d1))"
      by (auto simp: sql_run_insert_def Let_def)
    have i: "\<not> int32 i < 0"
      using ok(2) next_rowid_pos [of "map row_id (db_runs ?d1)"] r1(2) sr(2)
      by (simp add: room_def int32_id in_int32_def)
    have c: "db_create (sqldb w) url rv = Some (d, int32 i)"
      using sr(1) i k u(2) by (simp add: db_create_def Let_def)
    note dc = db_create_spec [OF ok(1) c]
    from s2 sr(1) u(1) i consider
      "sqldb t = ?d1" "\<not> lucky u" "\<exists>e. r = Inl e \<and> e < 0" | "sqldb t = d" "r = Inr (int32 i)"
      by auto
    then show ?thesis
    proof cases
      case 1
      with moved r1(1) entries_repo_insert [OF ok(1) k] u(3) show ?thesis
        by (auto simp: db_moves_def)
    next
      case 2
      with moved c dc show ?thesis by simp
    qed
  qed
qed

lemma run_finished_entries:
  assumes run: "storage_sqlite_run_finished i output w = (r, t)"
    and ok: "db_ok (sqldb w)" and out: "po_data output \<noteq> None"
  shows "db_moves w t [] \<and> db_ok (sqldb t) \<and>
    (case r of
       Inl e \<Rightarrow> e < 0 \<and> \<not> lucky w \<and> sqldb t = sqldb w
     | Inr _ \<Rightarrow> db_finish (sqldb w) i (po_ec output) (output_bytes output) = Some (sqldb t))"
proof -
  from ok have "RUN_STATUS_FINISHED \<in> fst ` set (db_statuses (sqldb w))"
    by (simp add: db_ok_def RUN_STATUS_FINISHED_def)
  then obtain d where d: "db_finish (sqldb w) i (po_ec output) (output_bytes output) = Some d"
    by (cases "i \<in> row_id ` set (db_runs (sqldb w))") (simp_all add: db_finish_def sql_run_finished_def)
  from out obtain bs where "po_data output = Some bs" by auto
  with run_finished_spec [OF run] d db_finish_spec [OF ok d] ok show ?thesis
    by (auto simp: db_finish_def)
qed

section \<open>Well-formed tables\<close>

text \<open>The part of the invariant that every statement keeps, rowids at the limit included.\<close>

definition db_wf :: "database \<Rightarrow> bool" where
  "db_wf d \<longleftrightarrow> db_statuses d = [(1, ''created''), (2, ''finished'')] \<and>
     sorted_wrt (<) (map fst (db_repos d)) \<and> distinct (map snd (db_repos d)) \<and>
     (\<forall>i \<in> fst ` set (db_repos d). 0 < i) \<and> sorted_wrt (<) (map row_id (db_runs d)) \<and>
     (\<forall>x \<in> set (db_runs d). 0 < row_id x \<and> row_status x \<in> {1, 2} \<and>
        row_repo_id x \<in> fst ` set (db_repos d))"

definition ids_in_range :: "database \<Rightarrow> bool" where
  "ids_in_range d \<longleftrightarrow> (\<forall>i \<in> fst ` set (db_repos d). i < 2 ^ 31) \<and>
     (\<forall>x \<in> set (db_runs d). row_id x < 2 ^ 31)"

lemma db_ok_wf: "db_ok d \<longleftrightarrow> db_wf d \<and> ids_in_range d"
  by (auto simp: db_ok_def db_wf_def ids_in_range_def)

lemma repo_insert_wf:
  assumes "db_wf d"
  shows "db_wf (sql_repo_insert url d)"
proof -
  have "\<forall>x \<in> set (db_repos d). fst x < next_rowid (map fst (db_repos d))"
    using next_rowid_gt [of _ "map fst (db_repos d)"] by auto
  with assms next_rowid_pos [of "map fst (db_repos d)"] show ?thesis
    by (auto simp: db_wf_def sql_repo_insert_def sorted_wrt_append)
qed

lemma run_insert_wf:
  assumes "db_wf d" "sql_run_insert status repo rv d = Some (d', i)"
  shows "db_wf d'"
proof -
  let ?n = "next_rowid (map row_id (db_runs d))"
  from assms(2) have "status \<in> fst ` set (db_statuses d)" "repo \<in> fst ` set (db_repos d)"
    "d' = d\<lparr>db_runs := db_runs d @ [\<lparr>row_id = ?n, row_status = status, row_exit_code = -1,
       row_output = [], row_repo_id = repo, row_repo_rev = rv\<rparr>]\<rparr>"
    by (auto simp: sql_run_insert_def Let_def split: if_splits)
  moreover have "\<forall>x \<in> set (db_runs d). row_id x < ?n"
    using next_rowid_gt [of _ "map row_id (db_runs d)"] by auto
  moreover have "0 < ?n" by (rule next_rowid_pos)
  ultimately show ?thesis
    using assms(1) by (auto simp: db_wf_def sorted_wrt_append)
qed

lemma run_finished_wf:
  assumes "db_wf d" "sql_run_finished status ec out i d = Some d'"
  shows "db_wf d'"
proof -
  let ?f = "\<lambda>bs x. if row_id x = i
      then x\<lparr>row_status := status, row_exit_code := ec, row_output := bs\<rparr> else x"
  have ids: "row_id \<circ> ?f bs = row_id" for bs by auto
  show ?thesis
  proof (cases "i \<in> row_id ` set (db_runs d)")
    case False
    with assms show ?thesis by (simp add: sql_run_finished_def)
  next
    case True
    with assms(2) obtain bs where "out = Some bs" "status \<in> fst ` set (db_statuses d)"
      by (cases out) (simp_all add: sql_run_finished_def split: if_splits)
    moreover from this True assms(2) have "d' = d\<lparr>db_runs := map (?f bs) (db_runs d)\<rparr>"
      by (simp add: sql_run_finished_def)
    ultimately show ?thesis
      using assms(1) by (auto simp: db_wf_def ids simp del: if_image_distrib)
  qed
qed

lemma run_create_wf:
  assumes run: "storage_sqlite_run_create url rv w = (r, t)" and wf: "db_wf (sqldb w)"
  shows "db_wf (sqldb t) \<and> db_moves w t [] \<and> (\<forall>e. r = Inl e \<longrightarrow> e < 0)"
proof -
  obtain a u where ins: "storage_sqlite_insert_repo url w = (a, u)"
    by (cases "storage_sqlite_insert_repo url w")
  note s1 = insert_repo_spec [OF ins]
  have u: "db_wf (sqldb u)" using s1 wf repo_insert_wf [OF wf] by auto
  show ?thesis
  proof (cases a)
    case (Inl e)
    with run ins s1 u show ?thesis by (auto simp: storage_sqlite_run_create_def bindE_def)
  next
    case (Inr repo)
    with run ins have "storage_sqlite_insert_run repo rv u = (r, t)"
      by (simp add: storage_sqlite_run_create_def bindE_def)
    from insert_run_spec [OF this] u run_insert_wf [OF u, of RUN_STATUS_CREATED repo rv] s1
    show ?thesis
      by (auto simp: db_moves_def still_def split: option.splits if_splits)
  qed
qed

lemma run_finished_world_wf:
  assumes run: "storage_sqlite_run_finished i output w = (r, t)" and wf: "db_wf (sqldb w)"
  shows "db_wf (sqldb t) \<and> db_moves w t [] \<and> (\<forall>e. r = Inl e \<longrightarrow> e < 0)"
  using run_finished_spec [OF run] wf run_finished_wf [OF wf]
  by (auto split: option.splits)

section \<open>Properties\<close>


definition sample_db_world :: "database \<Rightarrow> db_world" where
  "sample_db_world d = \<lparr>answers = [], trace = [], rx = (\<lambda>_. []), rpc_id = 0, sqldb = d\<rparr>"

definition sample_db :: database where
  "sample_db = fresh_database\<lparr>db_repos := [(1, ''url'')],
     db_runs := [\<lparr>row_id = 1, row_status = RUN_STATUS_CREATED, row_exit_code = -1, row_output = [],
       row_repo_id = 1, row_repo_rev = ''r1''\<rparr>]\<rparr>"

lemma sample_db_facts: "db_ok sample_db" "room sample_db" "lucky (sample_db_world d)"
  "entries sample_db = [created_run 1 ''url'' ''r1'']"
  by (simp_all add: db_ok_def sample_db_def fresh_database_def RUN_STATUS_CREATED_def room_def
      next_rowid_def lucky_def sample_db_world_def entries_def created_run_def url_of_def)


text \<open>C8: Recording a finished run refines the abstract store: on success exactly the run with that
  id has status "finished", the reported exit code and the reported output, and all other runs are
  as before (an unknown id changes nothing); on failure nothing is changed.\<close>

theorem run_finished_refines:
  assumes "storage_sqlite_run_finished i output w = (r, t)" "db_ok (sqldb w)" "po_data output \<noteq> None"
  shows "db_ok (sqldb t) \<and> db_moves w t [] \<and>
    (case r of
       Inl e \<Rightarrow> e < 0 \<and> \<not> lucky w \<and> sqldb t = sqldb w
     | Inr _ \<Rightarrow> entries (sqldb t) =
         finish_in i (po_ec output) (output_bytes output) (entries (sqldb w)))"
  using run_finished_entries [OF assms] db_finish_spec [OF assms(2)] by (cases r) auto

theorem run_finished_refines_witness:
  "entries (sqldb (snd (storage_sqlite_run_finished 1
     \<lparr>po_ec = 3, po_data = Some ''out'', po_data_size = 3\<rparr> (sample_db_world sample_db)))) =
   [finished_run 3 ''out'' (created_run 1 ''url'' ''r1'')]"
proof -
  let ?w = "sample_db_world sample_db"
  let ?o = "\<lparr>po_ec = 3, po_data = Some ''out'', po_data_size = 3\<rparr>"
  obtain r t where rt: "storage_sqlite_run_finished 1 ?o ?w = (r, t)"
    by (cases "storage_sqlite_run_finished 1 ?o ?w")
  have d: "sqldb ?w = sample_db" by (simp add: sample_db_world_def)
  from run_finished_refines [OF rt] show ?thesis
    using rt by (cases r) (auto simp: d sample_db_facts created_run_def output_bytes_def finish_in_def)
qed

text \<open>Listing the runs returns every stored run exactly once, newest first, with its id, URL,
  revision and exit code, and changes nothing.\<close>

theorem get_runs_newest_first:
  assumes "storage_sqlite_get_runs w = (r, t)" "db_ok (sqldb w)"
  shows "sqldb t = sqldb w \<and>
    (case r of
       Inl e \<Rightarrow> e < 0 \<and> \<not> lucky w \<and> db_moves w t []
     | Inr q \<Rightarrow> q = map listed_run (rev (entries (sqldb w))) \<and> db_moves w t (queue_blocks q))"
  using get_runs_spec [OF assms(1)] get_runs_entries [OF assms(2)] by (cases r) auto

theorem get_runs_newest_first_witness:
  "fst (storage_sqlite_get_runs (sample_db_world sample_db)) =
     Inr [\<lparr>run_id = 1, repo_url = ''url'', repo_rev = ''r1'', run_status = 0, run_exit_code = -1\<rparr>]"
proof -
  let ?w = "sample_db_world sample_db"
  obtain r t where rt: "storage_sqlite_get_runs ?w = (r, t)" by (cases "storage_sqlite_get_runs ?w")
  have d: "sqldb ?w = sample_db" by (simp add: sample_db_world_def)
  from get_runs_newest_first [OF rt] show ?thesis
    using rt by (cases r) (auto simp: d sample_db_facts created_run_def listed_run_def int32_id in_int32_def)
qed

text \<open>C28: The queue that \<open>storage_get_run_queue\<close> returns is always empty, whatever runs are waiting:
  the view's column \<open>status\<close> is the label (a text), and the statement compares it with the number
  of the status. Runs that were pending when the server stopped are therefore never resumed.\<close>

theorem run_queue_never_restored:
  assumes "storage_sqlite_get_run_queue w = (Inr q, t)" "db_ok (sqldb w)"
  shows "q = []"
  using get_run_queue_spec [OF assms(1)] get_run_queue_empty [OF assms(2)] by simp

theorem run_queue_never_restored_witness:
  "fst (storage_sqlite_get_run_queue (sample_db_world sample_db)) = Inr [] \<and>
     map sr_status (entries sample_db) = [RUN_STATUS_CREATED]"
proof -
  let ?w = "sample_db_world sample_db"
  obtain r t where rt: "storage_sqlite_get_run_queue ?w = (r, t)"
    by (cases "storage_sqlite_get_run_queue ?w")
  from get_run_queue_spec [OF rt] obtain q where q: "r = Inr q"
    by (cases r) (auto simp: sample_db_facts)
  with rt have "storage_sqlite_get_run_queue ?w = (Inr q, t)" by simp
  from run_queue_never_restored [OF this] have "q = []"
    by (simp add: sample_db_world_def sample_db_facts)
  with rt q show ?thesis by (simp add: sample_db_facts created_run_def)
qed



text \<open>C27: Setting the database up, when nothing fails, turns an empty file into the schema of
  \<open>v01.sql\<close> at version 1, leaves a database of version 1 alone, and refuses a newer one without
  touching it.\<close>

theorem setup_upgrades:
  assumes "lucky w" "storage_sqlite_setup w = (r, t)"
  shows "(sqldb w = empty_database \<longrightarrow> r = Inr () \<and> sqldb t = fresh_database) \<and>
    (db_version (sqldb w) = 1 \<longrightarrow> r = Inr () \<and> sqldb t = sqldb w) \<and>
    (1 < db_version (sqldb w) \<and> db_version (sqldb w) < 2 ^ 31 \<longrightarrow>
       r = Inl (-1) \<and> sqldb t = sqldb w)"
proof (intro conjI impI)
  show "r = Inr ()" "sqldb t = fresh_database" if "sqldb w = empty_database"
    using setup_fresh [OF assms(1) that assms(2)] by simp_all
  have other: "(r = Inr () \<or> r = Inl (-1)) \<and> (r = Inr () \<longleftrightarrow> db_version (sqldb w) = 1) \<and> sqldb t = sqldb w"
    if "1 \<le> db_version (sqldb w)" "db_version (sqldb w) < 2 ^ 31"
  proof -
    have "int32 (db_version (sqldb w)) = db_version (sqldb w)"
      using that by (intro int32_id) (simp add: in_int32_def)
    with assms that show ?thesis
      by (auto simp: storage_sqlite_setup_def sqlite_set_foreign_keys_def storage_sqlite_upgrade_def
          sqlite_get_user_version_def sqlite_prepare_def sqlite_finalize_def sqlite_step_def
          sqlite_schemas_def sqlite_column_int_def lib_def bindE_def after_def andThen_def ok_def
          failing_def Let_def split: if_splits)
  qed
  show "r = Inr ()" "sqldb t = sqldb w" if "db_version (sqldb w) = 1"
    using other that by simp_all
  show "r = Inl (-1)" "sqldb t = sqldb w"
    if "1 < db_version (sqldb w) \<and> db_version (sqldb w) < 2 ^ 31"
    using other that by auto
qed

theorem setup_upgrades_witness:
  "sqldb (snd (storage_sqlite_setup (sample_db_world empty_database))) = fresh_database \<and>
   fst (storage_sqlite_setup (sample_db_world (empty_database\<lparr>db_version := 2\<rparr>))) = Inl (-1)"
proof -
  obtain r t where rt: "storage_sqlite_setup (sample_db_world empty_database) = (r, t)"
    by (cases "storage_sqlite_setup (sample_db_world empty_database)")
  let ?v = "sample_db_world (empty_database\<lparr>db_version := 2\<rparr>)"
  obtain r' t' where rt': "storage_sqlite_setup ?v = (r', t')" by (cases "storage_sqlite_setup ?v")
  from setup_upgrades [OF sample_db_facts(3) rt] setup_upgrades [OF sample_db_facts(3) rt'] rt rt'
  show ?thesis by (simp add: sample_db_world_def)
qed

text \<open>C29: The upgrade is not atomic, although it is meant to be a transaction: the statements run
  without \<open>BEGIN\<close> and \<open>COMMIT\<close>, so a failure at the second statement of the schema leaves the first
  table behind at version 0, and every later start fails too, even when nothing goes wrong then.\<close>

definition interrupted_world :: db_world where
  "interrupted_world = (sample_db_world empty_database)\<lparr>answers := [0, 0, 0, 0, 0, 0, 0, 5]\<rparr>"


end
