(* ===== verification/Server.thy ===== *)
theory Server
  imports Command DbStore
begin

text \<open>
  \<open>src/server.c\<close>: the shared state of the server and the functions that work on it. Each
  function is modelled as one thread runs it; \<open>ServerThreads\<close> interleaves them. The mutex is
  the resource \<open>server_mtx\<close> while it is held, and signalling the condition variable leaves a
  note in the trace.
\<close>

record server_world = db_world +
  srv_stopping :: bool
  srv_workers :: worker_queue
  srv_runs :: run_queue

abbreviation Server_mtx :: resource where "Server_mtx \<equiv> Lib ''server_mtx''"

abbreviation STORAGE_TYPE_SQLITE :: int where "STORAGE_TYPE_SQLITE \<equiv> 0"

section \<open>Shared state\<close>

definition server_lock :: "('z world_scheme, unit) cfun" where
  "server_lock = bindE lib (\<lambda>_. andThen (emit (Acquire Server_mtx)) (ok ()))"

definition server_unlock :: "'z world_scheme \<Rightarrow> 'z world_scheme" where
  "server_unlock w = release Server_mtx (used w)"

definition server_notify :: "'z world_scheme \<Rightarrow> 'z world_scheme" where
  "server_notify w = emit (Note ''signal'') (used w)"

definition server_set_stopping :: "('z server_world_scheme, unit) cfun" where
  "server_set_stopping =
     bindE server_lock (\<lambda>_.
       andThen (\<lambda>w. server_unlock (server_notify (w\<lparr>srv_stopping := True\<rparr>))) (ok ()))"

definition server_has_workers :: "'z server_world_scheme \<Rightarrow> bool" where
  "server_has_workers w \<longleftrightarrow> \<not> worker_queue_is_empty (srv_workers w)"

definition server_enqueue_worker :: "worker \<Rightarrow> ('z server_world_scheme, unit) cfun" where
  "server_enqueue_worker x =
     bindE server_lock (\<lambda>_.
       andThen
         (\<lambda>w. server_unlock (server_notify
                (w\<lparr>srv_workers := worker_queue_add_last (srv_workers w) x\<rparr>)))
         (ok ()))"

definition server_has_runs :: "'z server_world_scheme \<Rightarrow> bool" where
  "server_has_runs w \<longleftrightarrow> \<not> run_queue_is_empty (srv_runs w)"

definition server_enqueue_run :: "run \<Rightarrow> ('z server_world_scheme, unit) cfun" where
  "server_enqueue_run x =
     bindE (storage_run_create STORAGE_TYPE_SQLITE (run_get_repo_url x) (run_get_repo_rev x)) (\<lambda>i.
       let x1 = run_set_id x i
       in bindE server_lock (\<lambda>_.
            andThen
              (\<lambda>w. server_unlock (server_notify
                     (w\<lparr>srv_runs := run_queue_add_last (srv_runs w) x1\<rparr>)))
              (ok ())))"

definition server_ready_for_action :: "'z server_world_scheme \<Rightarrow> bool" where
  "server_ready_for_action w \<longleftrightarrow> srv_stopping w \<or> (server_has_runs w \<and> server_has_workers w)"

text \<open>
  Removing from an empty queue follows a null pointer. The run goes back to the front of the
  queue unless the whole request was sent; the worker is dropped in either case (one
  connection serves one run).
\<close>

definition server_assign_run ::
  "'j jsonc \<Rightarrow> 'z server_world_scheme \<Rightarrow> 'z server_world_scheme" where
  "server_assign_run J w =
     (case run_queue_remove_first (srv_runs w) of
        None \<Rightarrow> undefined_behaviour ''server_assign_run: no run'' w
      | Some (x, runs) \<Rightarrow>
          (case worker_queue_remove_first (srv_workers w) of
             None \<Rightarrow> undefined_behaviour ''server_assign_run: no worker'' w
           | Some (y, workers) \<Rightarrow>
               (let w1 = w\<lparr>srv_runs := runs, srv_workers := workers\<rparr>
                in (case bindE (request_create_start_run J x) (\<lambda>start_request.
                           after (jsonrpc_request_send J start_request (worker_get_fd y))
                             (jsonrpc_request_destroy start_request)) w1 of
                      (ret, w2) \<Rightarrow>
                        worker_destroy y
                          (if \<not> is_ok ret
                           then w2\<lparr>srv_runs := run_queue_add_first (srv_runs w2) x\<rparr>
                           else run_destroy x w2)))))"

section \<open>Commands\<close>

text \<open>
  \<open>worker_destroy\<close> closes the descriptor too, so the second label closes it again.
\<close>

definition server_handle_cmd_new_worker ::
  "('j, 'c cmd_conn_ctx, 'z server_world_scheme) handler" where
  "server_handle_cmd_new_worker request ctx w =
     (case file_dup (ctx_fd ctx) w of
        (Inl e, w1) \<Rightarrow> ((Inl e, None), w1)
      | (Inr fd, w1) \<Rightarrow>
          (case worker_create fd w1 of
             (Inl e, w2) \<Rightarrow> ((Inl e, None), net_close fd w2)
           | (Inr x, w2) \<Rightarrow>
               (case server_enqueue_worker x w2 of
                  (Inl e, w3) \<Rightarrow> ((Inl e, None), net_close fd (worker_destroy x w3))
                | (Inr _, w3) \<Rightarrow> ((Inr (), None), w3))))"

definition server_handle_cmd_queue_run ::
  "'j jsonc \<Rightarrow> ('j, 'c cmd_conn_ctx, 'z server_world_scheme) handler" where
  "server_handle_cmd_queue_run J request ctx w =
     (case request_parse_queue_run J request w of
        (Inl e, w1) \<Rightarrow> ((Inl e, None), w1)
      | (Inr x, w1) \<Rightarrow>
          (case jsonrpc_response_create J request None w1 of
             (Inl e, w2) \<Rightarrow> ((Inl e, None), run_destroy x w2)
           | (Inr response, w2) \<Rightarrow>
               (case server_enqueue_run x w2 of
                  (Inl e, w3) \<Rightarrow>
                    ((Inl e, None), run_destroy x (jsonrpc_response_destroy response w3))
                | (Inr _, w3) \<Rightarrow> ((Inr (), Some response), w3))))"

definition server_handle_cmd_finished_run ::
  "'j jsonc \<Rightarrow> sodium \<Rightarrow> ('j, 'c cmd_conn_ctx, 'z server_world_scheme) handler" where
  "server_handle_cmd_finished_run J S request ctx w =
     (case request_parse_finished_run J S request w of
        (Inl e, w1) \<Rightarrow> ((Inl e, None), w1)
      | (Inr (i, output), w1) \<Rightarrow>
          (case storage_run_finished STORAGE_TYPE_SQLITE i output w1 of
             (ret, w2) \<Rightarrow> ((ret, None), process_output_destroy output w2)))"

definition server_handle_cmd_get_runs ::
  "'j jsonc \<Rightarrow> ('j, 'c cmd_conn_ctx, 'z server_world_scheme) handler" where
  "server_handle_cmd_get_runs J request ctx w =
     (case request_parse_get_runs request w of
        (Inl e, w1) \<Rightarrow> ((Inl e, None), w1)
      | (Inr _, w1) \<Rightarrow>
          (case storage_get_runs STORAGE_TYPE_SQLITE w1 of
             (Inl e, w2) \<Rightarrow> ((Inl e, None), w2)
           | (Inr runs, w2) \<Rightarrow>
               (case response_create_get_runs J request runs w2 of
                  (Inl e, w3) \<Rightarrow> ((Inl e, None), run_queue_destroy runs w3)
                | (Inr response, w3) \<Rightarrow> ((Inr (), Some response), run_queue_destroy runs w3))))"

definition server_commands ::
  "'j jsonc \<Rightarrow> sodium \<Rightarrow> ('j, 'c cmd_conn_ctx, 'z server_world_scheme) cmd_desc list" where
  "server_commands J S =
     [\<lparr>cmd_name = CMD_NEW_WORKER, cmd_handler = server_handle_cmd_new_worker\<rparr>,
      \<lparr>cmd_name = CMD_QUEUE_RUN, cmd_handler = server_handle_cmd_queue_run J\<rparr>,
      \<lparr>cmd_name = CMD_FINISHED_RUN, cmd_handler = server_handle_cmd_finished_run J S\<rparr>,
      \<lparr>cmd_name = CMD_GET_RUNS, cmd_handler = server_handle_cmd_get_runs J\<rparr>]"

section \<open>What the server holds\<close>

text \<open>What a server state owns: the blocks of the queued runs and of the queued workers.\<close>

lemma as_world_more [simp]:
  "sqldb (as_world (world.more w)) = sqldb (w :: 'a db_world_scheme)"
  "srv_runs (as_world (world.more v)) = srv_runs (v :: 'b server_world_scheme)"
  "srv_workers (as_world (world.more v)) = srv_workers v"
  by (cases w; cases v; simp add: as_world_def world.defs)+

definition server_good :: "'z server_world_ext db_world_ext \<Rightarrow> bool" where
  "server_good m \<longleftrightarrow> db_wf (sqldb (as_world m))"

definition server_holds :: "'z server_world_ext db_world_ext \<Rightarrow> resource \<Rightarrow> int" where
  "server_holds m q =
     int (count_list (queue_blocks (srv_runs (as_world m))) q) +
     int (count_list (concat (map worker_resources (srv_workers (as_world m)))) q)"

lemma server_ledger:
  "ledger server_holds w q = bal (trace w) q - int (count_list (queue_blocks (srv_runs w)) q) -
     int (count_list (concat (map worker_resources (srv_workers w))) q)"
  "server_good (world.more w) = db_wf (sqldb w)"
  by (simp_all add: ledger_def server_holds_def server_good_def)

section \<open>Handlers keep the dispatcher's contract\<close>

lemma server_world_simps [simp]:
  "srv_runs (emit e w) = srv_runs w" "srv_runs (used w) = srv_runs w"
  "srv_workers (emit e w) = srv_workers w" "srv_workers (used w) = srv_workers w"
  "srv_stopping (emit e w) = srv_stopping w" "srv_stopping (used w) = srv_stopping w"
  "answer (w\<lparr>srv_runs := a\<rparr>) = answer w" "answer (w\<lparr>srv_workers := b\<rparr>) = answer w"
  "answer (w\<lparr>srv_stopping := c\<rparr>) = answer w"
  "reliable (w\<lparr>srv_runs := a\<rparr>) = reliable w" "reliable (w\<lparr>srv_workers := b\<rparr>) = reliable w"
  "reliable (w\<lparr>srv_stopping := c\<rparr>) = reliable w"
  "lucky (w\<lparr>srv_runs := a\<rparr>) = lucky w" "lucky (w\<lparr>srv_workers := b\<rparr>) = lucky w"
  "lucky (w\<lparr>srv_stopping := c\<rparr>) = lucky w"
  by (simp_all add: emit_def used_def answer_def reliable_def lucky_def)

lemma db_moves_server:
  assumes "db_moves w t rs"
  shows "srv_runs t = srv_runs w" "srv_workers t = srv_workers w" "srv_stopping t = srv_stopping w"
    "accounts server_holds w t [] rs" "still w t" "lucky w \<Longrightarrow> lucky t"
  using assms
  by (cases w; cases t; auto simp: db_moves_def accounts_def server_ledger)+

lemma takes_server:
  assumes "takes w t rs"
  shows "srv_runs t = srv_runs w" "srv_workers t = srv_workers w" "srv_stopping t = srv_stopping w"
    "sqldb t = sqldb w"
  using assms by (cases w; cases t; auto simp: takes_def)+

definition honoured ::
  "'j jsonc \<Rightarrow> 'j jsonrpc_request \<Rightarrow> 'z server_world_scheme \<Rightarrow>
     ((int + unit) \<times> 'j jsonrpc_response option) \<times> 'z server_world_scheme \<Rightarrow> bool" where
  "honoured J request w x \<longleftrightarrow> (case x of ((ret, resp), t) \<Rightarrow>
     db_wf (sqldb t) \<and> still w t \<and>
     accounts server_holds w t [] (if resp = None then [] else [Response, Json]) \<and>
     (\<forall>e. ret = Inl e \<longrightarrow> e < 0) \<and>
     (\<forall>p. resp = Some p \<longrightarrow>
        (\<exists>i result. object_get_ex J (req_impl request) ''id'' = Some i \<and>
           p = \<lparr>resp_impl = response_object J i result None\<rparr>)))"

lemmas lock_defs = server_lock_def server_unlock_def server_notify_def

lemma enqueue_worker_run:
  assumes "server_enqueue_worker x w = (r, t)"
  shows "(0 < answer w \<and> r = Inl (- answer w) \<and> t = used w) \<or>
    (r = Inr () \<and> srv_workers t = srv_workers w @ [x] \<and> srv_runs t = srv_runs w \<and>
     srv_stopping t = srv_stopping w \<and> sqldb t = sqldb w \<and>
     still w t \<and> undef (trace t) = undef (trace w) \<and> (\<forall>q. bal (trace t) q = bal (trace w) q) \<and>
     (reliable w \<longrightarrow> reliable t) \<and> (lucky w \<longrightarrow> lucky t))"
  using assms
  by (auto simp: server_enqueue_worker_def lock_defs bindE_def lib_def andThen_def ok_def
      worker_queue_add_last_def still_def split: if_splits)

lemma new_worker_honoured:
  "db_wf (sqldb w) \<Longrightarrow> honoured J request w (server_handle_cmd_new_worker request ctx w)"
proof (cases "answer w < 0")
  case True
  assume "db_wf (sqldb w)"
  with True show ?thesis
    by (simp add: honoured_def server_handle_cmd_new_worker_def file_dup_def bindE_def sys_def
        accounts_def ledger_def still_def)
next
  case False
  assume wf: "db_wf (sqldb w)"
  let ?fd = "answer w"
  define w1 where "w1 = emit (Acquire (Desc ?fd)) (used w)"
  have dup: "file_dup (ctx_fd ctx) w = (Inr ?fd, w1)"
    using False by (simp add: file_dup_def bindE_def sys_def andThen_def ok_def w1_def)
  show ?thesis
  proof (cases "answer w1 < 0")
    case True
    with wf dup show ?thesis
      by (simp add: honoured_def server_handle_cmd_new_worker_def worker_create_def bindE_def
          alloc_def accounts_def server_ledger still_def net_close_def file_close_def heap_def w1_def)
  next
    case False
    define w2 where "w2 = emit (Acquire (Mem ''worker'')) (used w1)"
    have mk: "worker_create ?fd w1 = (Inr \<lparr>worker_fd = ?fd\<rparr>, w2)"
      using False by (simp add: worker_create_def bindE_def alloc_def ok_def w2_def)
    obtain r w3 where enq: "server_enqueue_worker \<lparr>worker_fd = ?fd\<rparr> w2 = (r, w3)"
      by (cases "server_enqueue_worker \<lparr>worker_fd = ?fd\<rparr> w2")
    from enqueue_worker_run [OF enq] show ?thesis
    proof (elim disjE conjE)
      assume "0 < answer w2" "r = Inl (- answer w2)" "w3 = used w2"
      with wf dup mk enq show ?thesis
        by (simp add: honoured_def server_handle_cmd_new_worker_def worker_destroy_def
            accounts_def server_ledger still_def net_close_def file_close_def heap_def w1_def w2_def)
    next
      assume e: "r = Inr ()" "srv_workers w3 = srv_workers w2 @ [\<lparr>worker_fd = ?fd\<rparr>]"
        "srv_runs w3 = srv_runs w2" "sqldb w3 = sqldb w2"
        "still w2 w3" "undef (trace w3) = undef (trace w2)" "\<forall>q. bal (trace w3) q = bal (trace w2) q"
        "reliable w2 \<longrightarrow> reliable w3"
      with wf dup mk enq show ?thesis
        by (auto simp: honoured_def server_handle_cmd_new_worker_def accounts_def server_ledger
            still_def heap_def worker_resources_def w1_def w2_def)
    qed
  qed
qed

lemma honouredI:
  assumes "db_wf (sqldb t)" "still w t" "accounts server_holds w t [] (if resp = None then [] else [Response, Json])"
    and "\<And>e. ret = Inl e \<Longrightarrow> e < 0"
    and "\<And>p. resp = Some p \<Longrightarrow> \<exists>i result. object_get_ex J (req_impl request) ''id'' = Some i \<and>
      p = \<lparr>resp_impl = response_object J i result None\<rparr>"
  shows "honoured J request w ((ret, resp), t)"
  using assms by (auto simp: honoured_def)

text \<open>What the parsers and the response builders do to the world, whatever the request.\<close>

lemma parse_queue_run_run:
  assumes "request_parse_queue_run J request w = (r, t)"
  shows "still w t \<and> takes w t (if is_ok r then run_blocks else []) \<and> (\<forall>e. r = Inl e \<longrightarrow> e < 0)"
  using assms unfolding request_parse_queue_run_def
proof (rule pure_then)
  fix url
  assume "bindE (pureE (jsonrpc_request_get_param_string J request run_key_rev))
    (\<lambda>rv. run_queued url rv) w = (r, t)"
  then show ?thesis
  proof (rule pure_then)
    fix rv
    assume "run_queued url rv w = (r, t)"
    from yieldsD [OF run_new_yields this [unfolded run_queued_def]] show ?thesis
      by (cases r) (auto simp: swaps_takes)
  qed (auto dest: get_param_negative)
qed (auto dest: get_param_negative)

lemma response_create_run:
  assumes "jsonrpc_response_create_internal J request result None w = (r, t)"
  shows "still w t \<and> (\<forall>e. r = Inl e \<longrightarrow> e < 0 \<and> calm w t) \<and>
    (\<forall>p. r = Inr p \<longrightarrow> swaps w t (owned result) [Response, Json] \<and>
       (\<exists>i. object_get_ex J (req_impl request) ''id'' = Some i \<and>
          p = \<lparr>resp_impl = response_object J i result None\<rparr>))"
proof (cases "object_get_ex J (req_impl request) ''id''")
  case None
  from refusesD [OF jsonrpc_response_create_internal_refuses [OF None] assms] show ?thesis by auto
next
  case (Some i)
  from yieldsD [OF jsonrpc_response_create_internal_yields [OF Some] assms] Some show ?thesis
    by (cases r) auto
qed

lemma storage_is_sqlite [simp]:
  "storage_run_create STORAGE_TYPE_SQLITE = storage_sqlite_run_create"
  "storage_run_finished STORAGE_TYPE_SQLITE = storage_sqlite_run_finished"
  "storage_get_runs STORAGE_TYPE_SQLITE = storage_sqlite_get_runs"
  "storage_get_run_queue STORAGE_TYPE_SQLITE = storage_sqlite_get_run_queue"
  by (simp_all add: fun_eq_iff storage_run_create_def storage_run_finished_def storage_get_runs_def
      storage_get_run_queue_def via_api_def get_api_def numof_apis_def)

lemma enqueue_run_run:
  assumes run: "server_enqueue_run x w = (r, t)" and wf: "db_wf (sqldb w)"
  shows "db_wf (sqldb t) \<and> still w t \<and>
    (case r of
       Inl e \<Rightarrow> e < 0 \<and> accounts server_holds w t [] []
     | Inr _ \<Rightarrow> accounts server_holds w t run_blocks [] \<and>
         (\<exists>i. srv_runs t = srv_runs w @ [x\<lparr>run_id := i\<rparr>]) \<and> srv_workers t = srv_workers w)"
proof -
  obtain a u where sc: "storage_sqlite_run_create (repo_url x) (repo_rev x) w = (a, u)"
    by (cases "storage_sqlite_run_create (repo_url x) (repo_rev x) w")
  from run_create_wf [OF sc wf] have u: "db_wf (sqldb u)" "db_moves w u []" "\<forall>e. a = Inl e \<longrightarrow> e < 0"
    by auto
  note um = db_moves_server [OF u(2)]
  show ?thesis
  proof (cases a)
    case (Inl e)
    with run sc u um show ?thesis
      by (auto simp: server_enqueue_run_def bindE_def run_accessors)
  next
    case (Inr i)
    have rest: "bindE server_lock (\<lambda>_. andThen (\<lambda>w. server_unlock (server_notify
        (w\<lparr>srv_runs := run_queue_add_last (srv_runs w) (x\<lparr>run_id := i\<rparr>)\<rparr>))) (ok ())) u = (r, t)"
      using run sc Inr by (auto simp: server_enqueue_run_def bindE_def run_accessors Let_def)
    show ?thesis
    proof (cases "0 < answer u")
      case True
      with rest have "r = Inl (- answer u)" "t = used u"
        by (auto simp: lock_defs bindE_def lib_def)
      with u um True show ?thesis by (auto simp: still_def accounts_def server_ledger)
    next
      case False
      with rest have t: "r = Inr ()" "srv_runs t = srv_runs u @ [x\<lparr>run_id := i\<rparr>]"
        "srv_workers t = srv_workers u" "sqldb t = sqldb u" "still u t"
        "undef (trace t) = undef (trace u)" "\<forall>q. bal (trace t) q = bal (trace u) q"
        "reliable u \<longrightarrow> reliable t"
        by (auto simp: lock_defs bindE_def lib_def andThen_def ok_def run_queue_add_last_def still_def)
      have "accounts server_holds u t run_blocks []"
        using t by (auto simp: accounts_def server_ledger)
      from accounts_trans [OF um(4) this] t u um show ?thesis
        by (auto intro: still_trans)
    qed
  qed
qed

lemma run_destroy_swaps: "swaps w (run_destroy x w) run_blocks [] \<and> still w (run_destroy x w)"
  by (auto simp: swaps_def still_def run_destroy_def run_blocks_def)

lemma queue_run_honoured:
  assumes wf: "db_wf (sqldb w)"
  shows "honoured J request w (server_handle_cmd_queue_run J request ctx w)"
proof -
  obtain a w1 where p: "request_parse_queue_run J request w = (a, w1)"
    by (cases "request_parse_queue_run J request w")
  note ps = parse_queue_run_run [OF p]
  show ?thesis
  proof (cases a)
    case (Inl e)
    with p ps wf takes_server(4) [of w w1] show ?thesis
      by (auto simp: server_handle_cmd_queue_run_def intro!: honouredI accounts_takes)
  next
    case (Inr x)
    with ps have w1: "still w w1" "takes w w1 run_blocks" by auto
    obtain b w2 where c: "jsonrpc_response_create_internal J request None None w1 = (b, w2)"
      by (cases "jsonrpc_response_create_internal J request None None w1")
    note cs = response_create_run [OF c]
    show ?thesis
    proof (cases b)
      case (Inl e)
      with cs w1 have calm: "still w w2" "takes w w2 run_blocks"
        by (auto intro: still_trans calm_trans)
      let ?t = "run_destroy x w2"
      have "accounts server_holds w ?t [] []"
        by (rule accounts_cancel [OF accounts_trans [OF accounts_takes [OF calm(2)]
              accounts_swaps [OF run_destroy_swaps [THEN conjunct1]]]]) simp
      moreover have "sqldb ?t = sqldb w" using takes_server(4) [OF calm(2)] by (simp add: run_destroy_def)
      ultimately have "honoured J request w ((Inl e, None), ?t)"
        using wf calm(1) run_destroy_swaps [of w2 x] cs Inl
        by (intro honouredI) (auto intro: still_trans)
      with p Inr c Inl show ?thesis
        by (simp add: server_handle_cmd_queue_run_def jsonrpc_response_create_def)
    next
      case (Inr p')
      with cs obtain i where resp: "object_get_ex J (req_impl request) ''id'' = Some i"
        "p' = \<lparr>resp_impl = response_object J i None None\<rparr>" "takes w1 w2 [Response, Json]" "still w1 w2"
        by (auto simp: owned_def swaps_takes)
      have t2: "takes w w2 (run_blocks @ [Response, Json])" using takes_trans [OF w1(2) resp(3)] .
      have wf2: "db_wf (sqldb w2)" using takes_server(4) [OF t2] wf by simp
      obtain d w3 where e: "server_enqueue_run x w2 = (d, w3)" by (cases "server_enqueue_run x w2")
      note es = enqueue_run_run [OF e wf2]
      show ?thesis
      proof (cases d)
        case (Inl k)
        let ?u = "jsonrpc_response_destroy p' w3"
        let ?t = "run_destroy x ?u"
        have dst: "swaps w3 ?u [Response, Json] []" "still w3 ?u" "sqldb ?u = sqldb w3"
          using gives_backD [OF gives_back_response [of p'], where w = w3]
          by (auto simp: jsonrpc_response_destroy_def libjson_free_def)
        have "accounts server_holds w ?t [] []"
          by (rule accounts_cancel [OF accounts_trans [OF accounts_trans [OF accounts_trans
                [OF accounts_takes [OF t2]] accounts_swaps [OF dst(1)]]
                accounts_swaps [OF run_destroy_swaps [THEN conjunct1]]], of _ "[]" "[]"])
            (use es Inl in auto)
        moreover have "still w ?t"
          using w1(1) resp(4) es dst(2) run_destroy_swaps [of ?u x] by (blast intro: still_trans)
        ultimately have "honoured J request w ((Inl k, None), ?t)"
          using es Inl dst(3) by (intro honouredI) (auto simp: run_destroy_def)
        with p \<open>a = Inr x\<close> c \<open>b = Inr p'\<close> e Inl show ?thesis
          by (simp add: server_handle_cmd_queue_run_def jsonrpc_response_create_def)
      next
        case (Inr k)
        have acc: "accounts server_holds w w3 [] [Response, Json]"
          by (rule accounts_cancel [OF accounts_trans [OF accounts_takes [OF t2]]])
            (use es Inr in auto)
        have "honoured J request w ((Inr (), Some p'), w3)"
          using acc resp es w1(1) by (intro honouredI) (auto intro: still_trans)
        with p \<open>a = Inr x\<close> c \<open>b = Inr p'\<close> e Inr show ?thesis
          by (simp add: server_handle_cmd_queue_run_def jsonrpc_response_create_def)
      qed
    qed
  qed
qed

lemma base64_decode_run:
  "base64_decode S s v = (c, x) \<Longrightarrow>
     still v x \<and> (case c of Inl e \<Rightarrow> e < 0 \<and> calm v x | Inr _ \<Rightarrow> takes v x [Mem ''contents''])"
  by (auto simp: base64_decode_def Let_def bindE_def alloc_def onErr_def failing_def ok_def
      takes_def still_def split: if_splits option.splits)

lemma parse_finished_run_run:
  assumes "request_parse_finished_run J S request w = (r, t)"
  shows "still w t \<and> (case r of
      Inl e \<Rightarrow> e < 0 \<and> calm w t
    | Inr (i, output) \<Rightarrow> takes w t (output_blocks output) \<and> po_data output \<noteq> None)"
proof (cases "answer w < 0")
  case True
  with assms show ?thesis
    by (auto simp: request_parse_finished_run_def process_output_create_def bindE_def alloc_def
        still_def)
next
  case False
  define w1 where "w1 = emit (Acquire (Mem ''process_output'')) (used w)"
  let ?o = "\<lparr>po_ec = 0, po_data = None, po_data_size = 0\<rparr>"
  have w1: "takes w w1 [Mem ''process_output'']" "still w w1"
    by (auto simp: w1_def takes_def still_def)
  let ?body = "bindE (pureE (jsonrpc_request_get_param_int J request finished_key_run_id)) (\<lambda>i.
      bindE (pureE (jsonrpc_request_get_param_int J request finished_key_ec)) (\<lambda>ec.
      bindE (pureE (jsonrpc_request_get_param_string J request finished_key_data)) (\<lambda>b64data.
      bindE (base64_decode S b64data) (\<lambda>dst.
      ok (int32 i, ?o\<lparr>po_ec := int32 ec, po_data := Some dst, po_data_size := length dst\<rparr>)))))"
  obtain a u where b: "?body w1 = (a, u)" by (cases "?body w1")
  have rt: "r = a" "t = (case a of Inl _ \<Rightarrow> process_output_destroy ?o u | Inr _ \<Rightarrow> u)"
    using assms False b
    by (auto simp: request_parse_finished_run_def process_output_create_def bindE_def [of "bindE _ _"]
        bindE_def [of "alloc _"] alloc_def ok_def onErr_def Let_def simp flip: w1_def
        split: sum.splits)
  have "still w1 u \<and> (case a of Inl e \<Rightarrow> e < 0 \<and> calm w1 u
    | Inr (i, output) \<Rightarrow> takes w1 u [Mem ''contents''] \<and> po_data output \<noteq> None)"
    using b
  proof (rule pure_then)
    fix i
    assume "bindE (pureE (jsonrpc_request_get_param_int J request finished_key_ec)) (\<lambda>ec.
      bindE (pureE (jsonrpc_request_get_param_string J request finished_key_data)) (\<lambda>b64data.
      bindE (base64_decode S b64data) (\<lambda>dst.
      ok (int32 i, ?o\<lparr>po_ec := int32 ec, po_data := Some dst, po_data_size := length dst\<rparr>)))) w1 =
      (a, u)"
    then show ?thesis
    proof (rule pure_then)
      fix ec
      assume "bindE (pureE (jsonrpc_request_get_param_string J request finished_key_data)) (\<lambda>b64data.
        bindE (base64_decode S b64data) (\<lambda>dst.
        ok (int32 i, ?o\<lparr>po_ec := int32 ec, po_data := Some dst, po_data_size := length dst\<rparr>))) w1 =
        (a, u)"
      then show ?thesis
      proof (rule pure_then)
        fix s
        assume "bindE (base64_decode S s) (\<lambda>dst. ok (int32 i,
          ?o\<lparr>po_ec := int32 ec, po_data := Some dst, po_data_size := length dst\<rparr>)) w1 = (a, u)"
        then show ?thesis
          using base64_decode_run [of S s w1]
          by (cases "base64_decode S s w1"; cases "fst (base64_decode S s w1)")
            (auto simp: bindE_def ok_def)
      qed (auto dest: get_param_negative)
    qed (auto dest: get_param_negative)
  qed (auto dest: get_param_negative)
  with w1 rt show ?thesis
    by (cases a)
      (auto simp: still_def takes_def process_output_destroy_def output_blocks_def)
qed

lemma finished_run_honoured:
  assumes wf: "db_wf (sqldb w)"
  shows "honoured J request w (server_handle_cmd_finished_run J S request ctx w)"
proof -
  obtain a w1 where p: "request_parse_finished_run J S request w = (a, w1)"
    by (cases "request_parse_finished_run J S request w")
  note ps = parse_finished_run_run [OF p]
  show ?thesis
  proof (cases a)
    case (Inl e)
    with p ps wf takes_server(4) [of w w1] show ?thesis
      by (auto simp: server_handle_cmd_finished_run_def intro!: honouredI accounts_takes)
  next
    case (Inr x)
    obtain i out where x: "x = (i, out)" by (cases x)
    with ps Inr have w1: "still w w1" "takes w w1 (output_blocks out)" by auto
    have wf1: "db_wf (sqldb w1)" using takes_server(4) [OF w1(2)] wf by simp
    obtain r w2 where f: "storage_sqlite_run_finished i out w1 = (r, w2)"
      by (cases "storage_sqlite_run_finished i out w1")
    from run_finished_world_wf [OF f wf1]
    have fs: "db_wf (sqldb w2)" "db_moves w1 w2 []" "\<And>e. r = Inl e \<Longrightarrow> e < 0" by auto
    note m = db_moves_server [OF fs(2)]
    let ?t = "process_output_destroy out w2"
    note g = gives_backD [OF gives_back_output [of out], where w = w2]
    have "accounts server_holds w ?t [] []"
      by (rule accounts_cancel [OF accounts_trans [OF accounts_trans [OF accounts_takes [OF w1(2)]
              m(4)] accounts_swaps [OF g(1)]]]) simp
    moreover have "sqldb ?t = sqldb w2"
      by (simp add: process_output_destroy_def split: option.split)
    ultimately have "honoured J request w ((r, None), ?t)"
      using fs m(5) w1(1) g(2) by (intro honouredI) (auto intro: still_trans)
    with p Inr x f show ?thesis by (simp add: server_handle_cmd_finished_run_def)
  qed
qed

lemma response_create_get_runs_run:
  assumes run: "response_create_get_runs J request runs w = (r, t)"
  shows "still w t \<and> (case r of
      Inl e \<Rightarrow> e < 0 \<and> calm w t
    | Inr p \<Rightarrow> takes w t [Response, Json] \<and>
        (\<exists>i result. object_get_ex J (req_impl request) ''id'' = Some i \<and>
           p = \<lparr>resp_impl = response_object J i result None\<rparr>))"
proof -
  let ?v = "foldl (array_add J) (new_array J) (map (run_object J) runs)"
  obtain a u where q: "run_queue_to_json J runs w = (a, u)" by (cases "run_queue_to_json J runs w")
  note qs = yieldsD [OF run_queue_to_json_yields q]
  show ?thesis
  proof (cases a)
    case (Inl e)
    with run q qs show ?thesis by (auto simp: response_create_get_runs_def bindE_def)
  next
    case (Inr v)
    with qs have u: "v = ?v" "takes w u [Json]" "still w u" by (auto simp: swaps_takes)
    obtain b x where c: "jsonrpc_response_create_internal J request (Some v) None u = (b, x)"
      by (cases "jsonrpc_response_create_internal J request (Some v) None u")
    note cs = response_create_run [OF c]
    have rt: "r = b" "t = (case b of Inl _ \<Rightarrow> release Json x | Inr _ \<Rightarrow> x)"
      using run q Inr c
      by (auto simp: response_create_get_runs_def bindE_def onErr_def jsonrpc_response_create_def
          libjson_free_def split: sum.splits)
    show ?thesis
      using cs rt u by (cases b) (auto simp: owned_def swaps_def takes_def still_def)
  qed
qed

lemma run_queue_destroy_swaps: "swaps w (run_queue_destroy q w) (queue_blocks q) []"
  by (simp add: swaps_def count_queue_blocks)

lemma get_runs_honoured:
  assumes wf: "db_wf (sqldb w)"
  shows "honoured J request w (server_handle_cmd_get_runs J request ctx w)"
proof -
  obtain a w1 where g: "storage_sqlite_get_runs w = (a, w1)" by (cases "storage_sqlite_get_runs w")
  note gs = get_runs_spec [OF g]
  show ?thesis
  proof (cases a)
    case (Inl e)
    with g gs wf db_moves_server [of w w1] show ?thesis
      by (auto simp: server_handle_cmd_get_runs_def request_parse_get_runs_def ok_def intro!: honouredI)
  next
    case (Inr runs)
    with gs have w1: "db_moves w w1 (queue_blocks runs)" "sqldb w1 = sqldb w" by auto
    note m = db_moves_server [OF w1(1)]
    obtain b w2 where c: "response_create_get_runs J request runs w1 = (b, w2)"
      by (cases "response_create_get_runs J request runs w1")
    note cs = response_create_get_runs_run [OF c]
    let ?t = "run_queue_destroy runs w2"
    define rs where "rs = (if is_ok b then [Response, Json] else [])"
    have t2: "takes w1 w2 rs" using cs by (cases b) (auto simp: rs_def)
    have acc: "accounts server_holds w ?t [] rs"
      by (rule accounts_cancel [OF accounts_trans [OF accounts_trans [OF m(4) accounts_takes [OF t2]]
            accounts_swaps [OF run_queue_destroy_swaps]]]) simp
    have "sqldb ?t = sqldb w" using takes_server(4) [OF t2] w1(2) by simp
    moreover have "still w ?t"
      using m(5) cs still_run_queue_destroy [of w2 runs] by (blast intro: still_trans)
    ultimately have "honoured J request w
        ((case b of Inl e \<Rightarrow> Inl e | Inr _ \<Rightarrow> Inr (), case b of Inl _ \<Rightarrow> None | Inr p \<Rightarrow> Some p), ?t)"
      using wf acc cs by (intro honouredI) (auto simp: rs_def split: sum.splits)
    with g Inr c show ?thesis
      by (cases b) (auto simp: server_handle_cmd_get_runs_def request_parse_get_runs_def ok_def)
  qed
qed

lemma server_commands_honoured:
  assumes "cmd \<in> set (server_commands J S)" "db_wf (sqldb w)"
  shows "honoured J request w (cmd_handler cmd request ctx w)"
  using assms(1) new_worker_honoured [OF assms(2)] queue_run_honoured [OF assms(2)]
    finished_run_honoured [OF assms(2)] get_runs_honoured [OF assms(2)]
  by (auto simp: server_commands_def)

lemma reply_to_result: "reply_to J i \<lparr>resp_impl = response_object J i result None\<rparr>"
  by (auto simp: reply_to_def)

interpretation server: command_set J "server_commands J S" server_good server_holds
  for J :: "'j jsonc" and S :: sodium
proof (unfold_locales, goal_cases)
  case (1 cmd w request ctx ret resp t)
  from server_commands_honoured [OF 1(1), of w request ctx] 1(2,4)
  have "honoured J request w ((ret, resp), t)" by (simp add: server_ledger)
  then show ?case
    by (auto simp: honoured_def server_ledger still_def reply_to_result)
qed

section \<open>Assigning a run\<close>

lemma server_assign_run_spec:
  fixes w :: "'z server_world_scheme"
  assumes q: "srv_runs w = x # xs" "srv_workers w = y # ys"
  shows "\<exists>bs rest. message J (req_impl (start_run_request J x)) = bs @ rest \<and>
    (let t = server_assign_run J w
     in sent (worker_fd y) (trace t) = sent (worker_fd y) (trace w) @ bs \<and>
        (\<forall>d. d \<noteq> worker_fd y \<longrightarrow> sent d (trace t) = sent d (trace w)) \<and>
        srv_runs t = (if rest = [] then xs else x # xs) \<and> srv_workers t = ys \<and>
        srv_stopping t = srv_stopping w \<and> sqldb t = sqldb w \<and> rx t = rx w \<and>
        accounts server_holds w t [] [] \<and>
        bal (trace t) (Desc (worker_fd y)) = bal (trace w) (Desc (worker_fd y)) - 1 \<and>
        (reliable w \<longrightarrow> rest = []))"
proof -
  let ?w1 = "w\<lparr>srv_runs := xs, srv_workers := ys\<rparr>"
  let ?fd = "worker_fd y"
  let ?m = "message J (req_impl (start_run_request J x))"
  define f :: "('z server_world_scheme, unit) cfun" where "f = bindE (request_create_start_run J x) (\<lambda>start_request.
      after (jsonrpc_request_send J start_request ?fd) (jsonrpc_request_destroy start_request))"
  obtain r w2 where f: "f ?w1 = (r, w2)" by (cases "f ?w1")
  have run: "server_assign_run J w = worker_destroy y
      (if \<not> is_ok r then w2\<lparr>srv_runs := x # srv_runs w2\<rparr> else run_destroy x w2)"
    using f q by (simp add: server_assign_run_def f_def Let_def worker_get_fd_def
        run_queue_add_first_def)
  have "calm ?w1 w2 \<and> rx w2 = rx ?w1 \<and> (reliable ?w1 \<longrightarrow> is_ok r) \<and>
    (\<forall>d. d \<noteq> ?fd \<longrightarrow> sent d (trace w2) = sent d (trace ?w1)) \<and>
    (\<exists>bs rest. ?m = bs @ rest \<and> sent ?fd (trace w2) = sent ?fd (trace ?w1) @ bs \<and>
       (is_ok r \<longleftrightarrow> rest = []))"
  proof -
    obtain a u where c: "request_create_start_run J x ?w1 = (a, u)"
      by (cases "request_create_start_run J x ?w1")
    note cs = yieldsD [OF start_run_request_yields c]
    show ?thesis
    proof (cases a)
      case (Inl e)
      with f c cs message_nonempty [of J] show ?thesis
        by (auto simp: f_def bindE_def still_def)
    next
      case (Inr req)
      with cs have u: "req = start_run_request J x" "takes ?w1 u [Request, Json]" "still ?w1 u"
        by (auto simp: swaps_takes)
      obtain b v where s: "jsonrpc_request_send J req ?fd u = (b, v)"
        by (cases "jsonrpc_request_send J req ?fd u")
      note ss = libjson_send_spec [OF s [unfolded jsonrpc_request_send_def]]
      note g = gives_backD [OF gives_back_request [of req], where w = v]
      have rw: "r = b" "w2 = jsonrpc_request_destroy req v"
        using f c Inr s by (auto simp: f_def bindE_def after_def)
      have "calm ?w1 w2" using u(2) ss g(1) by (auto simp: rw(2) takes_def swaps_def)
      moreover obtain bs rest where "?m = bs @ rest" "sent ?fd (trace v) = sent ?fd (trace u) @ bs"
        "is_ok b \<longleftrightarrow> rest = []"
        using ss u(1) by (cases b) auto
      moreover have "reliable ?w1 \<longrightarrow> is_ok r" using ss u(2) rw by (auto simp: takes_def)
      ultimately show ?thesis
        using u(3) ss g(2) by (auto simp: rw still_def)
    qed
  qed
  then obtain bs rest where s: "calm ?w1 w2" "rx w2 = rx w" "reliable w \<longrightarrow> is_ok r"
    "\<forall>d. d \<noteq> ?fd \<longrightarrow> sent d (trace w2) = sent d (trace w)" "?m = bs @ rest"
    "sent ?fd (trace w2) = sent ?fd (trace w) @ bs" "is_ok r \<longleftrightarrow> rest = []"
    by auto
  have m: "srv_runs w2 = xs" "srv_workers w2 = ys" "srv_stopping w2 = srv_stopping w"
    "sqldb w2 = sqldb w"
    using takes_server [OF s(1)] by simp_all
  have b: "\<And>q. bal (trace w2) q = bal (trace w) q" "undef (trace w2) = undef (trace w)"
    "reliable w \<longrightarrow> reliable w2"
    using s(1) by (simp_all add: takes_def)
  let ?t = "server_assign_run J w"
  have st: "srv_runs (worker_destroy y v) = srv_runs v" "srv_workers (worker_destroy y v) = srv_workers v"
    "srv_stopping (worker_destroy y v) = srv_stopping v" "sqldb (worker_destroy y v) = sqldb v"
    "srv_runs (run_destroy x v) = srv_runs v" "srv_workers (run_destroy x v) = srv_workers v"
    "srv_stopping (run_destroy x v) = srv_stopping v" "sqldb (run_destroy x v) = sqldb v"
    for v :: "'z server_world_scheme"
    by (simp_all add: worker_destroy_def net_close_def file_close_def run_destroy_def)
  have acc: "accounts server_holds w ?t [] []"
    using q m b
    by (cases "is_ok r") (auto simp: run accounts_def server_ledger st queue_blocks_def)
  have desc: "bal (trace ?t) (Desc ?fd) = bal (trace w) (Desc ?fd) - 1"
    by (cases "is_ok r") (simp_all add: run b worker_resources_def run_blocks_def)
  show ?thesis
    using s m q acc desc
    by (intro exI [of _ bs] exI [of _ rest]) (cases "is_ok r"; auto simp: Let_def run st)
qed

end
