(* ===== verification/ServerCommands.thy ===== *)
theory ServerCommands
  imports Server
begin

text \<open>
  What the commands of the server achieve when nothing in the environment fails: the requests
  the clients build, carried to the database and the queues and back into a response.
\<close>

lemma lucky_outcome:
  assumes "outcome cs rs x w r t" "lucky w"
  shows "r = Inr x \<and> lucky t \<and> still w t \<and> swaps w t cs rs"
  using assms lucky_reliable by (cases r) (auto simp: swaps_def)

lemma swaps_server:
  assumes "swaps w t cs rs"
  shows "srv_runs t = srv_runs w" "srv_workers t = srv_workers w" "sqldb t = sqldb w"
  using assms by (cases w; cases t; auto simp: swaps_def)+

lemma enqueue_run_lucky:
  assumes run: "server_enqueue_run x w = (r, t)" and w: "lucky w" "db_ok (sqldb w)" "room (sqldb w)"
  shows "r = Inr () \<and> (\<exists>n. db_create (sqldb w) (repo_url x) (repo_rev x) = Some (sqldb t, n) \<and>
    srv_runs t = srv_runs w @ [x\<lparr>run_id := n\<rparr>])"
proof -
  obtain a u where sc: "storage_sqlite_run_create (repo_url x) (repo_rev x) w = (a, u)"
    by (cases "storage_sqlite_run_create (repo_url x) (repo_rev x) w")
  note cs = run_create_spec [OF sc w(2,3)]
  with w(1) obtain n where a: "a = Inr n" "db_create (sqldb w) (repo_url x) (repo_rev x) = Some (sqldb u, n)"
    by (cases a) auto
  have u: "lucky u" "srv_runs u = srv_runs w" using db_moves_server cs w(1) by blast+
  with run sc a show ?thesis
    by (auto simp: server_enqueue_run_def bindE_def run_accessors Let_def lock_defs lib_def
        andThen_def ok_def run_queue_add_last_def)
qed

definition new_run :: "int \<Rightarrow> run \<Rightarrow> run" where
  "new_run n x = \<lparr>run_id = n, repo_url = repo_url x, repo_rev = repo_rev x,
     run_status = RUN_STATUS_CREATED, run_exit_code = -1\<rparr>"

lemma queue_run_lucky:
  assumes J: "jsonc_ok J" and w: "lucky w" "db_ok (sqldb w)" "room (sqldb w)"
    and run: "server_handle_cmd_queue_run J (queue_run_request J i x) ctx w = ((ret, resp), t)"
  shows "ret = Inr () \<and> resp = Some (default_reply J (new_int64 J i)) \<and>
    (\<exists>n. db_create (sqldb w) (repo_url x) (repo_rev x) = Some (sqldb t, n) \<and>
       srv_runs t = srv_runs w @ [new_run n x])"
proof -
  let ?req = "queue_run_request J i x"
  let ?x = "new_run (-1) x"
  obtain a w1 where p: "request_parse_queue_run J ?req w = (a, w1)"
    by (cases "request_parse_queue_run J ?req w")
  from lucky_outcome [OF yieldsD [OF read_queue_run [OF J] p] w(1)]
  have w1: "a = Inr ?x" "lucky w1" "swaps w w1 [] run_blocks" by (auto simp: new_run_def)
  have i: "object_get_ex J (req_impl ?req) ''id'' = Some (new_int64 J i)"
    using J by (simp add: queue_run_request_def built_lookup)
  obtain b w2 where c: "jsonrpc_response_create_internal J ?req None None w1 = (b, w2)"
    by (cases "jsonrpc_response_create_internal J ?req None None w1")
  from lucky_outcome [OF yieldsD [OF jsonrpc_response_create_internal_yields [OF i] c] w1(2)]
  have w2: "b = Inr (default_reply J (new_int64 J i))" "lucky w2" "swaps w1 w2 [] [Response, Json]"
    by (auto simp: default_reply_def owned_def)
  obtain d w3 where e: "server_enqueue_run ?x w2 = (d, w3)" by (cases "server_enqueue_run ?x w2")
  have same: "sqldb w2 = sqldb w" "srv_runs w2 = srv_runs w"
    using swaps_server [OF w1(3)] swaps_server [OF w2(3)] by simp_all
  have "d = Inr () \<and> (\<exists>n. db_create (sqldb w) (repo_url x) (repo_rev x) = Some (sqldb w3, n) \<and>
    srv_runs w3 = srv_runs w @ [new_run n x])"
    using enqueue_run_lucky [OF e w2(2)] w(2,3) same by (auto simp: new_run_def)
  with run p w1 c w2 e show ?thesis
    by (auto simp: server_handle_cmd_queue_run_def jsonrpc_response_create_def)
qed

lemma finished_run_lucky:
  assumes J: "jsonc_ok J" and S: "sodium_ok S" and w: "lucky w" "db_ok (sqldb w)"
    and i: "in_int32 n" "in_int32 (po_ec out)"
    and run: "server_handle_cmd_finished_run J S (finished_run_request J S n out) ctx w =
      ((ret, resp), t)"
  shows "ret = Inr () \<and> resp = None \<and> db_ok (sqldb t) \<and>
    entries (sqldb t) = finish_in n (po_ec out) (output_bytes out) (entries (sqldb w))"
proof -
  let ?req = "finished_run_request J S n out"
  let ?o = "\<lparr>po_ec = po_ec out, po_data = Some (output_bytes out), po_data_size = length (output_bytes out)\<rparr>"
  obtain a w1 where p: "request_parse_finished_run J S ?req w = (a, w1)"
    by (cases "request_parse_finished_run J S ?req w")
  from lucky_outcome [OF yieldsD [OF read_finished_run [OF J S i] p] w(1)]
  have w1: "a = Inr (n, ?o)" "lucky w1" "sqldb w1 = sqldb w" using swaps_server(3) by blast+
  obtain r w2 where f: "storage_sqlite_run_finished n ?o w1 = (r, w2)"
    by (cases "storage_sqlite_run_finished n ?o w1")
  have ok1: "db_ok (sqldb w1)" using w1(3) w(2) by simp
  from run_finished_entries [OF f ok1] w1(2) obtain u where r: "r = Inr u"
    and fin: "db_finish (sqldb w1) n (po_ec out) (output_bytes out) = Some (sqldb w2)"
    by (cases r) (auto simp: output_bytes_def [of ?o])
  have "sqldb (process_output_destroy ?o w2) = sqldb w2" by (simp add: process_output_destroy_def)
  with db_finish_spec [OF ok1 fin] run p w1 f r show ?thesis
    by (auto simp: server_handle_cmd_finished_run_def)
qed

lemma get_runs_lucky:
  assumes w: "lucky w" "db_ok (sqldb w)" and i: "object_get_ex J (req_impl request) ''id'' = Some i"
    and run: "server_handle_cmd_get_runs J request ctx w = ((ret, resp), t)"
  shows "ret = Inr () \<and> sqldb t = sqldb w \<and>
    resp = Some \<lparr>resp_impl = response_object J i (Some (foldl (array_add J) (new_array J)
      (map (\<lambda>x. run_object J (listed_run x)) (rev (entries (sqldb w)))))) None\<rparr>"
proof -
  obtain a w1 where g: "storage_sqlite_get_runs w = (a, w1)" by (cases "storage_sqlite_get_runs w")
  note gs = get_runs_spec [OF g]
  with w(1) obtain rs where rs: "a = Inr rs" "rs = map run_of_row (sql_get_runs (sqldb w))"
    by (cases a) auto
  with get_runs_entries [OF w(2)] have a: "a = Inr (map listed_run (rev (entries (sqldb w))))" by simp
  have "db_moves w w1 (queue_blocks rs)" using gs unfolding rs(1) by auto
  from db_moves_server(6) [OF this] w(1) have w1: "lucky w1" "sqldb w1 = sqldb w" using gs by auto
  let ?rs = "map listed_run (rev (entries (sqldb w)))"
  obtain b w2 where c: "response_create_get_runs J request ?rs w1 = (b, w2)"
    by (cases "response_create_get_runs J request ?rs w1")
  from lucky_outcome [OF yieldsD [OF response_create_get_runs_yields [OF i] c] w1(1)]
  have "b = Inr \<lparr>resp_impl = response_object J i
      (Some (foldl (array_add J) (new_array J) (map (run_object J) ?rs))) None\<rparr>"
    "sqldb w2 = sqldb w1" using swaps_server(3) by blast+
  with run g a c w1 show ?thesis
    by (auto simp: server_handle_cmd_get_runs_def request_parse_get_runs_def ok_def comp_def)
qed

text \<open>The response to a method that is not in the table is the prepared error.\<close>

lemma unknown_command_lucky:
  assumes J: "jsonc_ok J" and w: "lucky w"
    and v: "wire_ok J v" "valid_request J v" "rx w fd = message J v @ rest"
    and i: "object_get_ex J v ''id'' = Some i"
    and m: "object_get_ex J v ''method'' = Some m" "get_string J m \<notin> cmd_name ` set cs"
    and run: "cmd_dispatcher_handle_conn J fd \<lparr>disp_cmds = cs, disp_ctx = c\<rparr> w = (r, t)"
  shows "r = Inl (-1) \<and> rx t fd = rest \<and>
    sent fd (trace t) = sent fd (trace w) @ message J (resp_impl (default_error_reply J i))"
proof -
  let ?q = "\<lparr>req_impl = v\<rparr>"
  define w1 where "w1 = emit (Acquire (Mem ''cmd_conn_ctx'')) (used w)"
  have ctx: "make_conn_ctx fd c w = (Inr \<lparr>ctx_fd = fd, ctx_arg = c\<rparr>, w1)"
    using w by (simp add: make_conn_ctx_def bindE_def alloc_def ok_def w1_def)
  have w1: "lucky w1" "rx w1 fd = message J v @ rest" using w v(3) by (simp_all add: w1_def)
  obtain a w2 where rec: "jsonrpc_request_recv J fd w1 = (a, w2)"
    by (cases "jsonrpc_request_recv J fd w1")
  note ms = jsonrpc_request_recv_message [OF rec v(1) w1(2)]
  from ms(2) w1(1) v(2) lucky_reliable have a: "a = Inr ?q" by blast
  note rs = jsonrpc_request_recv_takes [OF rec message_terminated [OF v(1) w1(2)]]
  have w2: "lucky w2" "rx w2 fd = rest" "sent fd (trace w2) = sent fd (trace w)"
    using rs(1,3) w1 ms(1) [OF a] by (auto simp: takes_def w1_def)
  have b: "\<not> jsonrpc_request_is_notification J ?q"
    using i by (simp add: jsonrpc_request_is_notification_def libjson_has_def)
  obtain y where y: "bindE (when_required True (jsonrpc_response_create J ?q None)) (\<lambda>dr. after
      (bindE (when_required True (jsonrpc_error_create J ?q (-1) ''An error occured''))
         (\<lambda>de. conn_respond J \<lparr>disp_cmds = cs, disp_ctx = c\<rparr> \<lparr>ctx_fd = fd, ctx_arg = c\<rparr>
            fd ?q True dr de)) (destroy_response dr)) w2 = (r, y)"
    and t: "t = release (Mem ''cmd_conn_ctx'') (jsonrpc_request_destroy ?q y)"
    using run
    by (auto simp: cmd_dispatcher_handle_conn_def cmd_dispatcher_handle_conn_internal_def
        bindE_run(1) [where f = "make_conn_ctx fd c", OF ctx] Let_def b
        bindE_run(1) [where f = "jsonrpc_request_recv J fd", OF rec [unfolded a]]
        dest!: after_run)
  have req: "True \<longleftrightarrow> object_get_ex J (req_impl ?q) ''id'' \<noteq> None" using i by simp
  let ?D = "Some (default_reply J i)" and ?E = "Some (default_error_reply J i)"
  from conn_defaults [OF y req] w2(1) lucky_reliable obtain u where
    u: "takes w2 u [Response, Json]" "still w2 u" and k: "after
      (bindE (when_required True (jsonrpc_error_create J ?q (-1) ''An error occured''))
         (\<lambda>de. conn_respond J \<lparr>disp_cmds = cs, disp_ctx = c\<rparr> \<lparr>ctx_fd = fd, ctx_arg = c\<rparr>
            fd ?q True ?D de)) (destroy_response ?D) u = (r, y)"
    using i by auto
  from after_run [OF k] obtain z where
    z: "bindE (when_required True (jsonrpc_error_create J ?q (-1) ''An error occured''))
         (\<lambda>de. conn_respond J \<lparr>disp_cmds = cs, disp_ctx = c\<rparr> \<lparr>ctx_fd = fd, ctx_arg = c\<rparr>
            fd ?q True ?D de) u = (r, z)" "y = destroy_response ?D z" by blast
  have "lucky u" using u(1) w2(1) by (simp add: takes_def)
  with conn_default_errors [OF z(1) req] lucky_reliable obtain x where
    x: "takes u x [Response, Json]" "still u x"
    and l: "conn_respond J \<lparr>disp_cmds = cs, disp_ctx = c\<rparr> \<lparr>ctx_fd = fd, ctx_arg = c\<rparr>
      fd ?q True ?D ?E x = (r, z)"
    using i by auto
  have meth: "jsonrpc_request_get_method J ?q = Some (get_string J m)"
    using v(2) m(1)
    by (auto simp: valid_request_def jsonrpc_request_get_method_def libjson_get_string_def
        libjson_get_alt)
  obtain d x' where s: "jsonrpc_response_send J (default_error_reply J i) fd x = (d, x')"
    by (cases "jsonrpc_response_send J (default_error_reply J i) fd x")
  have "reliable x" using takesD(5) [OF x(1) \<open>lucky u\<close>] by (rule lucky_reliable)
  note ss = libjson_send_spec [OF s [unfolded jsonrpc_response_send_def]]
  with \<open>reliable x\<close> have d: "is_ok d" by simp
  with ss have sent: "sent fd (trace x') = sent fd (trace x) @ message J (resp_impl (default_error_reply J i))"
    "rx x' = rx x" by (cases d; auto)+
  have "r = Inl (-1)" "z = destroy_response ?E x'"
    using l d s
    by (auto simp: conn_respond_def cmd_dispatcher_handle_internal_def meth dispatch_unknown [OF m(2)]
        choose_response_def default_replies [OF J] after_def destroy_response_def
        split: sum.splits)
  then show ?thesis
    using sent x(2) u(2) w2 z(2) t destroy_response_swaps [of x' ?E] destroy_response_swaps [of z ?D]
      gives_backD(2) [OF gives_back_request [of ?q], where w = y]
    by (simp add: still_def)
qed

end
