(* ===== verification/Strings.thy ===== *)
theory Strings
  imports Sqlite
begin

text \<open>
  \<open>src/string.c\<close>: appending to a fixed buffer, and reading a decimal number. A buffer is the list
  of its characters; a pointer into it is an index, and \<open>None\<close> is the null pointer.
\<close>

section \<open>string_append\<close>

definition mem_write :: "char list \<Rightarrow> nat \<Rightarrow> char list \<Rightarrow> char list" where
  "mem_write mem p bs = take p mem @ bs @ drop (p + length bs) mem"

text \<open>\<open>src\<close> is given without its terminating NUL; \<open>memccpy\<close> copies up to and including it.\<close>

definition string_append ::
  "char list \<Rightarrow> nat option \<Rightarrow> nat \<Rightarrow> string \<Rightarrow> char list \<times> nat option" where
  "string_append mem dst last_pos src =
     (case dst of
        None \<Rightarrow> (mem, None)
      | Some p \<Rightarrow>
          if p = last_pos then (mem, Some last_pos)
          else
            let n = last_pos - p; bytes = src @ [NUL]
            in if length bytes \<le> n then (mem_write mem p bytes, Some (p + length src))
               else (mem_write (mem_write mem p (take n bytes)) (last_pos - 1) [NUL], Some last_pos))"

text \<open>The buffer holds the C string \<open>s\<close> and \<open>p\<close> points at its terminating NUL.\<close>

definition holds_string :: "char list \<Rightarrow> nat \<Rightarrow> string \<Rightarrow> bool" where
  "holds_string mem p s \<longleftrightarrow> p = length s \<and> (\<exists>rest. mem = s @ NUL # rest)"

lemma length_mem_write: "p + length bs \<le> length mem \<Longrightarrow> length (mem_write mem p bs) = length mem"
  by (simp add: mem_write_def)

lemma string_append_fits:
  assumes "holds_string mem p s" "length (s @ src) < length mem"
  shows "\<exists>mem'. string_append mem (Some p) (length mem) src = (mem', Some (length (s @ src))) \<and>
    holds_string mem' (length (s @ src)) (s @ src) \<and> length mem' = length mem"
proof -
  from assms obtain rest where m: "mem = s @ NUL # rest" "p = length s"
    by (auto simp: holds_string_def)
  with assms(2) show ?thesis
    by (auto simp: string_append_def holds_string_def mem_write_def Let_def)
qed

text \<open>Whatever does not fit is cut off, and the result is always terminated.\<close>

lemma string_append_truncates:
  assumes "holds_string mem p s" "length mem \<le> length (s @ src)"
  shows "string_append mem (Some p) (length mem) src =
    (take (length mem - 1) (s @ src) @ [NUL], Some (length mem))"
proof -
  from assms(1) obtain rest where m: "mem = s @ NUL # rest" "p = length s"
    by (auto simp: holds_string_def)
  define k where "k = length rest"
  from assms(2) m have k: "k < length src" by (simp add: k_def)
  have len: "length mem = length s + Suc k" using m by (simp add: k_def)
  have tk: "take (Suc k) (src @ [NUL]) = take (Suc k) src" using k by simp
  have "mem_write mem p (take (Suc k) src) = s @ take (Suc k) src"
    using m k by (simp add: mem_write_def k_def)
  then have "mem_write (mem_write mem p (take (Suc k) src)) (length s + k) [NUL] = s @ take k src @ [NUL]"
    using k by (simp add: mem_write_def min_def)
  with k m(2) len tk show ?thesis
    by (simp add: string_append_def Let_def)
qed

section \<open>string_to_int\<close>

definition is_space :: "char \<Rightarrow> bool" where
  "is_space c \<longleftrightarrow> of_char c \<in> {9..13 :: nat} \<or> c = CHR '' ''"

text \<open>
  \<open>strtol(src, &endptr, 10)\<close>: the value, whether \<open>errno\<close> is set to \<open>ERANGE\<close>, and what is left at
  \<open>endptr\<close>, which is all of \<open>src\<close> when there are no digits.
\<close>

definition strtol :: "string \<Rightarrow> int \<times> bool \<times> string" where
  "strtol src =
     (let s = dropWhile is_space src;
          neg = (s \<noteq> [] \<and> hd s = CHR ''-'');
          digits = (if s \<noteq> [] \<and> (hd s = CHR ''-'' \<or> hd s = CHR ''+'') then tl s else s);
          n = (if neg then - digits_value digits else digits_value digits)
      in if takeWhile is_digit digits = [] then (0, False, src)
         else if n < - (2 ^ 63) then (- (2 ^ 63), True, dropWhile is_digit digits)
         else if 2 ^ 63 \<le> n then (2 ^ 63 - 1, True, dropWhile is_digit digits)
         else (n, False, dropWhile is_digit digits))"

definition string_to_int :: "string \<Rightarrow> int + int" where
  "string_to_int src =
     (case strtol src of (ret, erange, endptr) \<Rightarrow>
        if erange then Inl (-1)
        else if length endptr = length src \<or> endptr \<noteq> [] then Inl (-1)
        else Inr (int32 ret))"

lemma digit_char: "n < 10 \<Longrightarrow> is_digit (char_of (48 + n)) \<and> of_char (char_of (48 + n) :: char) = (48 + int n)"
  for n :: nat
  using of_char_of [of "48 + n"] by (auto simp: is_digit_def simp flip: of_nat_of_char [where 'a = int])

lemma nat_decimal_digits: "nat_decimal n \<noteq> [] \<and> (\<forall>c \<in> set (nat_decimal n). is_digit c)"
proof (induction n rule: nat_decimal.induct)
  case (1 n)
  show ?case
    using 1 digit_char [of n] digit_char [of "n mod 10"]
    by (cases "n < 10") (auto simp: nat_decimal.simps [of n])
qed

lemma digits_value_snoc:
  "\<forall>c \<in> set s. is_digit c \<Longrightarrow> is_digit d \<Longrightarrow> digits_value (s @ [d]) = 10 * digits_value s + (of_char d - 48)"
  by (simp add: digits_value_def takeWhile_append2 takeWhile_eq_all_conv [THEN iffD2])

lemma digits_value_decimal: "digits_value (nat_decimal n) = int n"
proof (induction n rule: nat_decimal.induct)
  case (1 n)
  show ?case
  proof (cases "n < 10")
    case True
    then show ?thesis using digit_char [of n]
      by (simp add: nat_decimal.simps [of n] digits_value_def)
  next
    case False
    then have "int n = 10 * int (n div 10) + int (n mod 10)" by presburger
    with False 1 digit_char [of "n mod 10"] nat_decimal_digits [of "n div 10"] show ?thesis
      by (simp add: nat_decimal.simps [of n] digits_value_snoc)
  qed
qed

lemma digit_not_special: "is_digit c \<Longrightarrow> \<not> is_space c \<and> c \<noteq> CHR ''-'' \<and> c \<noteq> CHR ''+''"
  by (auto simp: is_digit_def is_space_def)

text \<open>Decimal texts are read back, but narrowed to \<open>int\<close> without a check.\<close>

lemma string_to_int_decimal:
  assumes "in_int64 i"
  shows "string_to_int (decimal i) = Inr (int32 i)"
proof -
  define n where "n = nat \<bar>i\<bar>"
  let ?s = "nat_decimal n"
  note d = nat_decimal_digits [of n]
  have all: "takeWhile is_digit ?s = ?s" "dropWhile is_digit ?s = []"
    using d by (auto simp: takeWhile_eq_all_conv)
  have ne: "takeWhile is_digit ?s \<noteq> []" unfolding all(1) using d by simp
  obtain c cs where s: "?s = c # cs" using d by (cases ?s) auto
  with d digit_not_special [of c] have c: "\<not> is_space c" "c \<noteq> CHR ''-''" "c \<noteq> CHR ''+''" by auto
  have v: "digits_value ?s = int n" by (simp add: digits_value_decimal)
  have "strtol (decimal i) = (i, False, [])"
  proof (cases "i < 0")
    case True
    then have "i = - int n" "decimal i = CHR ''-'' # ?s" by (simp_all add: decimal_def n_def)
    moreover have "\<not> is_space CHR ''-''" by (simp add: is_space_def)
    ultimately show ?thesis
      using v all(2) ne assms by (simp add: strtol_def Let_def in_int64_def)
  next
    case False
    then have "i = int n" "decimal i = ?s" by (simp_all add: decimal_def n_def)
    moreover have "dropWhile is_space ?s = ?s" using c s by simp
    ultimately show ?thesis
      using c v all d assms s by (auto simp: strtol_def Let_def in_int64_def)
  qed
  moreover have "decimal i \<noteq> []"
    using nat_decimal_digits [of "nat i"] by (simp add: decimal_def)
  ultimately show ?thesis by (simp add: string_to_int_def)
qed

lemma string_to_int_junk:
  "string_to_int [] = Inl (-1)" "string_to_int ''12a'' = Inl (-1)" "string_to_int ''4294967297'' = Inr 1"
  "string_to_int ''9223372036854775808'' = Inl (-1)"
  by (simp_all add: string_to_int_def strtol_def digits_value_def is_digit_def is_space_def Let_def
      int32_def)

end
