(* ===== verification/EventLoop.thy ===== *)
theory EventLoop
  imports Strings
begin

text \<open>
  \<open>src/event_loop.c\<close>: a queue of descriptors with their handlers, one round of which polls the
  descriptors and calls the handlers of those that are ready. An entry has an address, so that
  walking the queue and removing an entry while handlers append to it is modelled as it is
  coded. The main result is that a round is the same as going through the list of entries as
  it was when the round began.
\<close>

unbundle bit_operations_syntax

section \<open>Entries\<close>

text \<open>\<open>ev_handler\<close> stands for the pair of the callback and its argument.\<close>

record 'h event_fd =
  ev_addr :: nat
  ev_fd :: int
  ev_events :: "16 word"
  ev_handler :: 'h
  ev_once :: bool

text \<open>\<open>fresh_addr\<close> is an address that \<open>calloc\<close> has not returned yet.\<close>

record 'h event_loop =
  nfds :: nat
  loop_entries :: "'h event_fd list"
  fresh_addr :: nat

abbreviation POLLIN :: "16 word" where "POLLIN \<equiv> 0x1"
abbreviation POLLPRI :: "16 word" where "POLLPRI \<equiv> 0x2"
abbreviation POLLOUT :: "16 word" where "POLLOUT \<equiv> 0x4"
abbreviation POLLERR :: "16 word" where "POLLERR \<equiv> 0x8"
abbreviation POLLHUP :: "16 word" where "POLLHUP \<equiv> 0x10"
abbreviation POLLNVAL :: "16 word" where "POLLNVAL \<equiv> 0x20"
abbreviation POLLRDHUP :: "16 word" where "POLLRDHUP \<equiv> 0x2000"

abbreviation Event_fd :: resource where "Event_fd \<equiv> Mem ''event_fd''"

definition event_fd_create ::
  "nat \<Rightarrow> int \<Rightarrow> 16 word \<Rightarrow> 'h \<Rightarrow> ('z world_scheme, 'h event_fd) cfun" where
  "event_fd_create addr fd events handler =
     bindE (alloc Event_fd) (\<lambda>_.
       ok \<lparr>ev_addr = addr, ev_fd = fd, ev_events = events, ev_handler = handler, ev_once = False\<rparr>)"

definition event_fd_destroy :: "'z world_scheme \<Rightarrow> 'z world_scheme" where
  "event_fd_destroy w = release Event_fd w"

fun event_fd_queue_destroy :: "'h event_fd list \<Rightarrow> 'z world_scheme \<Rightarrow> 'z world_scheme" where
  "event_fd_queue_destroy [] w = w"
| "event_fd_queue_destroy (e # es) w = event_fd_queue_destroy es (event_fd_destroy w)"

definition event_loop_create :: "('z world_scheme, 'h event_loop) cfun" where
  "event_loop_create =
     bindE (alloc (Mem ''event_loop'')) (\<lambda>_.
       ok \<lparr>nfds = 0, loop_entries = [], fresh_addr = 0\<rparr>)"

definition event_loop_destroy :: "'h event_loop \<Rightarrow> 'z world_scheme \<Rightarrow> 'z world_scheme" where
  "event_loop_destroy loop w =
     release (Mem ''event_loop'') (event_fd_queue_destroy (loop_entries loop) w)"

definition event_loop_add_internal :: "'h event_loop \<Rightarrow> 'h event_fd \<Rightarrow> 'h event_loop" where
  "event_loop_add_internal loop entry =
     loop\<lparr>nfds := nfds loop + 1, loop_entries := loop_entries loop @ [entry],
          fresh_addr := fresh_addr loop + 1\<rparr>"

definition event_loop_add ::
  "'h event_loop \<Rightarrow> int \<Rightarrow> 16 word \<Rightarrow> 'h \<Rightarrow> ('z world_scheme, 'h event_loop) cfun" where
  "event_loop_add loop fd events handler =
     bindE (event_fd_create (fresh_addr loop) fd events handler) (\<lambda>entry.
       ok (event_loop_add_internal loop entry))"

definition event_loop_add_once ::
  "'h event_loop \<Rightarrow> int \<Rightarrow> 16 word \<Rightarrow> 'h \<Rightarrow> ('z world_scheme, 'h event_loop) cfun" where
  "event_loop_add_once loop fd events handler =
     bindE (event_fd_create (fresh_addr loop) fd events handler) (\<lambda>entry.
       ok (event_loop_add_internal loop (entry\<lparr>ev_once := True\<rparr>)))"

text \<open>\<open>SIMPLEQ_REMOVE\<close> walks to the entry and would run off the queue if it were not there.\<close>

definition event_loop_remove ::
  "'h event_loop \<Rightarrow> nat \<Rightarrow> 'z world_scheme \<Rightarrow> 'h event_loop \<times> 'z world_scheme" where
  "event_loop_remove loop addr w =
     (if addr \<in> ev_addr ` set (loop_entries loop) then
        (loop\<lparr>nfds := nfds loop - 1, loop_entries := filter (\<lambda>e. ev_addr e \<noteq> addr) (loop_entries loop)\<rparr>,
         event_fd_destroy w)
      else (loop, undefined_behaviour ''event_loop_remove: no such entry'' w))"

section \<open>Names of events\<close>

definition append_event :: "char list \<Rightarrow> nat option \<Rightarrow> string \<Rightarrow> char list \<times> nat option" where
  "append_event mem ptr event =
     (case (if ptr \<noteq> None \<and> ptr \<noteq> Some 0 then string_append mem ptr (length mem) '','' else (mem, ptr)) of
        (mem1, ptr1) \<Rightarrow> string_append mem1 ptr1 (length mem1) event)"

definition event_names :: "(16 word \<times> string) list" where
  "event_names =
     [(POLLNVAL, ''POLLNVAL''), (POLLERR, ''POLLERR''), (POLLHUP, ''POLLHUP''),
      (POLLRDHUP, ''POLLRDHUP''), (POLLPRI, ''POLLPRI''), (POLLIN, ''POLLIN''), (POLLOUT, ''POLLOUT'')]"

fun append_events ::
  "16 word \<Rightarrow> (16 word \<times> string) list \<Rightarrow> char list \<times> nat option \<Rightarrow> char list \<times> nat option" where
  "append_events events [] b = b"
| "append_events events ((flag, name) # rest) (mem, ptr) =
     append_events events rest (if events AND flag \<noteq> 0 then append_event mem ptr name else (mem, ptr))"

definition events_to_string :: "16 word \<Rightarrow> ('z world_scheme, char list) cfun" where
  "events_to_string events =
     bindE (alloc (Mem ''events'')) (\<lambda>_.
       ok (fst (append_events events event_names (replicate 128 NUL, Some 0))))"

text \<open>The string is only logged; what stays is that it was allocated and freed.\<close>

definition log_events :: "16 word \<Rightarrow> 'z world_scheme \<Rightarrow> 'z world_scheme" where
  "log_events events w =
     (case events_to_string events w of
        (Inl _, w1) \<Rightarrow> w1
      | (Inr _, w1) \<Rightarrow> release (Mem ''events'') w1)"

text \<open>The names of the flags that are set, separated by commas, always fit into the buffer.\<close>

definition set_events :: "16 word \<Rightarrow> string list" where
  "set_events events = map snd (filter (\<lambda>x. events AND fst x \<noteq> 0) event_names)"

fun joined :: "string \<Rightarrow> string list \<Rightarrow> string" where
  "joined s [] = s"
| "joined s (n # ns) = joined (if s = [] then n else s @ '','' @ n) ns"

lemma append_event_spec:
  assumes "holds_string mem p s" "length s + 1 + length name < length mem"
  shows "\<exists>mem'. append_event mem (Some p) name =
      (mem', Some (length (if s = [] then name else s @ '','' @ name))) \<and>
    holds_string mem' (length (if s = [] then name else s @ '','' @ name))
      (if s = [] then name else s @ '','' @ name) \<and> length mem' = length mem"
proof (cases "s = []")
  case True
  with assms string_append_fits [OF assms(1), of name] show ?thesis
    by (auto simp: append_event_def holds_string_def)
next
  case False
  then have p: "p \<noteq> 0" using assms(1) by (simp add: holds_string_def)
  from string_append_fits [OF assms(1), of "'',''"] assms(2) obtain mem1 where
    m1: "string_append mem (Some p) (length mem) '','' = (mem1, Some (length (s @ '','')))"
    "holds_string mem1 (length (s @ '','')) (s @ '','')" "length mem1 = length mem"
    by auto
  from string_append_fits [OF m1(2), of name] m1 assms(2) p False show ?thesis
    by (auto simp: append_event_def)
qed

lemma append_events_spec:
  "holds_string mem p s \<Longrightarrow>
     length s + sum_list (map (\<lambda>x. length (snd x) + 1) fs) < length mem \<Longrightarrow>
     \<exists>mem' p'. append_events events fs (mem, Some p) = (mem', Some p') \<and>
       holds_string mem' p' (joined s (map snd (filter (\<lambda>x. events AND fst x \<noteq> 0) fs))) \<and>
       length mem' = length mem"
proof (induction fs arbitrary: mem p s)
  case (Cons f fs)
  obtain flag name where f: "f = (flag, name)" by (cases f)
  show ?case
  proof (cases "events AND flag \<noteq> 0")
    case True
    let ?s = "if s = [] then name else s @ '','' @ name"
    from append_event_spec [OF Cons.prems(1), of name] Cons.prems(2) f obtain mem1 where
      m1: "append_event mem (Some p) name = (mem1, Some (length ?s))"
      "holds_string mem1 (length ?s) ?s" "length mem1 = length mem" by auto
    have "length ?s + sum_list (map (\<lambda>x. length (snd x) + 1) fs) < length mem1"
      using Cons.prems(2) f m1(3) by auto
    from Cons.IH [OF m1(2) this] m1 True f show ?thesis by auto
  next
    case False
    with Cons f show ?thesis by simp
  qed
qed auto

lemma events_to_string_spec:
  assumes "events_to_string events w = (Inr mem, t)"
  shows "length mem = 128 \<and> (\<exists>rest. mem = joined [] (set_events events) @ NUL # rest)"
proof -
  have "holds_string (replicate 128 NUL) 0 []"
    by (simp add: holds_string_def replicate_app_Cons_same numeral_eq_Suc)
  moreover have "length ([] :: string) + sum_list (map (\<lambda>x. length (snd x) + 1) event_names) <
      length (replicate 128 NUL)" by (simp add: event_names_def)
  ultimately obtain mem' p' where
    m: "append_events events event_names (replicate 128 NUL, Some 0) = (mem', Some p')"
    "holds_string mem' p' (joined [] (set_events events))" "length mem' = 128"
    using append_events_spec [of "replicate 128 NUL" 0 "[]" event_names events]
    by (auto simp: set_events_def)
  from assms have "mem = fst (append_events events event_names (replicate 128 NUL, Some 0))"
    by (auto simp: events_to_string_def bindE_def alloc_def ok_def split: if_splits)
  with m show ?thesis by (auto simp: holds_string_def)
qed

lemma log_events_calm: "calm w (log_events events w) \<and> still w (log_events events w)"
  by (auto simp: log_events_def events_to_string_def bindE_def alloc_def ok_def takes_def still_def)

section \<open>A round\<close>

fun log_all_events :: "'h event_fd list \<Rightarrow> 'z world_scheme \<Rightarrow> 'z world_scheme" where
  "log_all_events [] w = w"
| "log_all_events (e # es) w = log_all_events es (log_events (ev_events e) w)"

text \<open>The walk over the first \<open>nfds\<close> entries would follow a null pointer if there were fewer.\<close>

definition make_pollfds :: "'h event_loop \<Rightarrow> ('z world_scheme, int list) cfun" where
  "make_pollfds loop =
     bindE (alloc (Mem ''pollfds'')) (\<lambda>_.
       andThen
         (\<lambda>w. log_all_events (take (nfds loop) (loop_entries loop))
                (if nfds loop \<le> length (loop_entries loop) then w
                 else undefined_behaviour ''make_pollfds: null entry'' w))
         (ok (map ev_fd (take (nfds loop) (loop_entries loop)))))"

text \<open>A handler may change the loop, the state \<open>'a\<close> of its component, and the world.\<close>

type_synonym ('h, 'a, 's) event_handler =
  "'h \<Rightarrow> int \<Rightarrow> 16 word \<Rightarrow> 'h event_loop \<Rightarrow> 'a \<Rightarrow> 's \<Rightarrow> (int + unit) \<times> 'h event_loop \<times> 'a \<times> 's"

definition entry_at :: "nat \<Rightarrow> 'h event_fd list \<Rightarrow> 'h event_fd option" where
  "entry_at addr es = List.find (\<lambda>e. ev_addr e = addr) es"

definition first_entry :: "'h event_fd list \<Rightarrow> nat option" where
  "first_entry es = (case es of [] \<Rightarrow> None | e # _ \<Rightarrow> Some (ev_addr e))"

definition next_entry :: "nat \<Rightarrow> 'h event_fd list \<Rightarrow> nat option" where
  "next_entry addr es = first_entry (tl (dropWhile (\<lambda>e. ev_addr e \<noteq> addr) es))"

fun run_handlers ::
  "('h, 'a, 'z world_scheme) event_handler \<Rightarrow> (int \<times> 16 word) list \<Rightarrow> nat option \<Rightarrow> int + unit \<Rightarrow>
     'h event_loop \<Rightarrow> 'a \<Rightarrow> 'z world_scheme \<Rightarrow> (int + unit) \<times> 'h event_loop \<times> 'a \<times> 'z world_scheme" where
  "run_handlers handle [] entry ret loop a w = (ret, loop, a, w)"
| "run_handlers handle ((fd, revents) # rest) entry ret loop a w =
     (case entry of
        None \<Rightarrow> (ret, loop, a, undefined_behaviour ''event_loop_run: null entry'' w)
      | Some addr \<Rightarrow>
          (case entry_at addr (loop_entries loop) of
             None \<Rightarrow> (ret, loop, a, undefined_behaviour ''event_loop_run: freed entry'' w)
           | Some e \<Rightarrow>
               let nxt = next_entry addr (loop_entries loop)
               in if revents = 0 then run_handlers handle rest nxt ret loop a w
                  else
                    (case handle (ev_handler e) fd revents loop a (log_events revents w) of
                       (handler_ret, loop1, a1, w1) \<Rightarrow>
                         let ret1 = (if is_ok handler_ret then ret else handler_ret)
                         in if ev_once e then
                              (case event_loop_remove loop1 addr w1 of
                                 (loop2, w2) \<Rightarrow> run_handlers handle rest nxt ret1 loop2 a1 w2)
                            else run_handlers handle rest nxt ret1 loop1 a1 w1)))"

text \<open>
  \<open>reported i\<close> is what \<open>poll\<close> stores in \<open>fds[i].revents\<close>. When \<open>poll\<close> fails, \<open>fds\<close> is not
  freed.
\<close>

definition event_loop_run ::
  "('h, 'a, 'z world_scheme) event_handler \<Rightarrow> (nat \<Rightarrow> 16 word) \<Rightarrow> 'h event_loop \<Rightarrow> 'a \<Rightarrow>
     'z world_scheme \<Rightarrow> (int + unit) \<times> 'h event_loop \<times> 'a \<times> 'z world_scheme" where
  "event_loop_run handle reported loop a w =
     (case make_pollfds loop w of
        (Inl e, w1) \<Rightarrow> (Inl e, loop, a, w1)
      | (Inr fds, w1) \<Rightarrow>
          (case sys w1 of
             (Inl e, w2) \<Rightarrow> (Inl e, loop, a, w2)
           | (Inr _, w2) \<Rightarrow>
               (case run_handlers handle (zip fds (map reported [0..<length fds]))
                       (first_entry (loop_entries loop)) (Inr ()) loop a w2 of
                  (ret, loop1, a1, w3) \<Rightarrow> (ret, loop1, a1, release (Mem ''pollfds'') w3))))"

section \<open>A round goes through a snapshot of the entries\<close>

definition loop_wf :: "'h event_loop \<Rightarrow> bool" where
  "loop_wf loop \<longleftrightarrow> nfds loop = length (loop_entries loop) \<and>
     distinct (map ev_addr (loop_entries loop)) \<and>
     (\<forall>e \<in> set (loop_entries loop). ev_addr e < fresh_addr loop)"

definition drop_entry :: "nat \<Rightarrow> 'h event_loop \<Rightarrow> 'h event_loop" where
  "drop_entry addr loop =
     loop\<lparr>nfds := nfds loop - 1, loop_entries := filter (\<lambda>e. ev_addr e \<noteq> addr) (loop_entries loop)\<rparr>"

text \<open>The reference: call the handler of each ready entry of a list, in order.\<close>

fun serve_ready ::
  "('h, 'a, 'z world_scheme) event_handler \<Rightarrow> ('h event_fd \<times> 16 word) list \<Rightarrow> int + unit \<Rightarrow>
     'h event_loop \<Rightarrow> 'a \<Rightarrow> 'z world_scheme \<Rightarrow> (int + unit) \<times> 'h event_loop \<times> 'a \<times> 'z world_scheme" where
  "serve_ready handle [] ret loop a w = (ret, loop, a, w)"
| "serve_ready handle ((e, revents) # rest) ret loop a w =
     (if revents = 0 then serve_ready handle rest ret loop a w
      else
        (case handle (ev_handler e) (ev_fd e) revents loop a (log_events revents w) of
           (handler_ret, loop1, a1, w1) \<Rightarrow>
             serve_ready handle rest (if is_ok handler_ret then ret else handler_ret)
               (if ev_once e then drop_entry (ev_addr e) loop1 else loop1) a1
               (if ev_once e then event_fd_destroy w1 else w1)))"

definition snapshot :: "(nat \<Rightarrow> 16 word) \<Rightarrow> 'h event_loop \<Rightarrow> ('h event_fd \<times> 16 word) list" where
  "snapshot reported loop = zip (loop_entries loop) (map reported [0..<length (loop_entries loop)])"

definition stays :: "'h event_fd \<times> 16 word \<Rightarrow> bool" where
  "stays x \<longleftrightarrow> \<not> ev_once (fst x) \<or> snd x = 0"

lemma filter_other_addr:
  assumes "distinct (map ev_addr (xs @ e # ys))"
  shows "filter (\<lambda>x. ev_addr x \<noteq> ev_addr e) (xs @ e # ys) = xs @ ys"
proof -
  have "filter (\<lambda>x. ev_addr x \<noteq> ev_addr e) xs = xs" "filter (\<lambda>x. ev_addr x \<noteq> ev_addr e) ys = ys"
    using assms by (intro filter_True ballI notI; force simp: image_iff)+
  then show ?thesis by simp
qed

lemma drop_entry_wf:
  assumes "loop_wf loop" "loop_entries loop = xs @ e # ys"
  shows "loop_wf (drop_entry (ev_addr e) loop)" "loop_entries (drop_entry (ev_addr e) loop) = xs @ ys"
proof -
  have "distinct (map ev_addr (xs @ e # ys))" using assms by (simp add: loop_wf_def)
  from filter_other_addr [OF this] assms show "loop_entries (drop_entry (ev_addr e) loop) = xs @ ys"
    by (simp add: drop_entry_def)
  with assms show "loop_wf (drop_entry (ev_addr e) loop)"
    by (auto simp: loop_wf_def drop_entry_def)
qed

lemma entry_lookup:
  assumes "distinct (map ev_addr (xs @ e # ys))"
  shows "entry_at (ev_addr e) (xs @ e # ys) = Some e" "next_entry (ev_addr e) (xs @ e # ys) = first_entry ys"
  using assms
  by (induction xs) (auto simp: entry_at_def next_entry_def)

lemma event_loop_remove_entry:
  "loop_entries loop = xs @ e # ys \<Longrightarrow>
     event_loop_remove loop (ev_addr e) w = (drop_entry (ev_addr e) loop, event_fd_destroy w)"
  by (simp add: event_loop_remove_def drop_entry_def)

text \<open>What a component that puts handlers into the loop promises: handlers only append.\<close>

locale event_handlers =
  fixes handle :: "('h, 'a, 'z world_scheme) event_handler"
  assumes appends: "handle h fd revents loop a w = (r, loop', a', t) \<Longrightarrow> loop_wf loop \<Longrightarrow>
      loop_wf loop' \<and> (\<exists>new. loop_entries loop' = loop_entries loop @ new)"
begin

lemma run_handlers_serve:
  "loop_wf loop \<Longrightarrow> loop_entries loop = pre @ map fst xs @ post \<Longrightarrow>
     run_handlers handle (map (\<lambda>x. (ev_fd (fst x), snd x)) xs) (first_entry (map fst xs @ post)) ret loop a w =
     serve_ready handle xs ret loop a w"
proof (induction xs arbitrary: pre post ret loop a w)
  case (Cons x xs)
  obtain e rv where x: "x = (e, rv)" by (cases x)
  let ?rest = "map fst xs @ post"
  from Cons.prems x have es: "loop_entries loop = pre @ e # ?rest" by simp
  with Cons.prems(1) have "distinct (map ev_addr (pre @ e # ?rest))" by (simp add: loop_wf_def)
  note look = entry_lookup [OF this]
  have start: "first_entry (e # ?rest) = Some (ev_addr e)" by (simp add: first_entry_def)
  show ?case
  proof (cases "rv = 0")
    case True
    with x es look Cons.IH [of loop "pre @ [e]" post] Cons.prems(1) start show ?thesis
      by (simp add: Let_def)
  next
    case False
    obtain hr loop1 a1 w1 where h: "handle (ev_handler e) (ev_fd e) rv loop a (log_events rv w) =
      (hr, loop1, a1, w1)" by (metis prod_cases3 surj_pair)
    from appends [OF h Cons.prems(1)] es obtain new where
      l1: "loop_wf loop1" "loop_entries loop1 = pre @ e # (?rest @ new)" by auto
    have next_ok: "run_handlers handle (map (\<lambda>x. (ev_fd (fst x), snd x)) xs) (first_entry ?rest) ret' loop' a1 w' =
      serve_ready handle xs ret' loop' a1 w'"
      if "loop_wf loop'" "loop_entries loop' = pre' @ map fst xs @ post @ new" for ret' loop' w' pre'
      using Cons.IH [OF that(1), of pre' "post @ new"] that(2)
      by (cases xs) (simp_all add: first_entry_def)
    show ?thesis
    proof (cases "ev_once e")
      case True
      note d = drop_entry_wf [OF l1]
      from d(2) have "loop_entries (drop_entry (ev_addr e) loop1) = pre @ map fst xs @ post @ new"
        by simp
      from next_ok [OF d(1) this] False True x es look h start show ?thesis
        by (simp add: Let_def event_loop_remove_entry [OF l1(2)])
    next
      case no: False
      from l1(2) have "loop_entries loop1 = (pre @ [e]) @ map fst xs @ post @ new" by simp
      from next_ok [OF l1(1) this] False no x es look h start show ?thesis
        by (simp add: Let_def)
    qed
  qed
qed simp

lemma serve_ready_entries:
  "serve_ready handle xs ret loop a w = (r, loop', a', t) \<Longrightarrow> loop_wf loop \<Longrightarrow>
     loop_entries loop = pre @ map fst xs @ post \<Longrightarrow>
     loop_wf loop' \<and> (\<exists>new. loop_entries loop' = pre @ map fst (filter stays xs) @ post @ new)"
proof (induction xs arbitrary: pre post ret loop a w)
  case (Cons x xs)
  obtain e rv where x: "x = (e, rv)" by (cases x)
  from Cons.prems x have es: "loop_entries loop = pre @ e # map fst xs @ post" by simp
  show ?case
  proof (cases "rv = 0")
    case True
    with x es Cons.IH [of ret loop a w "pre @ [e]" post] Cons.prems show ?thesis
      by (simp add: stays_def)
  next
    case False
    obtain hr loop1 a1 w1 where h: "handle (ev_handler e) (ev_fd e) rv loop a (log_events rv w) =
      (hr, loop1, a1, w1)" by (metis prod_cases3 surj_pair)
    from appends [OF h Cons.prems(2)] es obtain new where
      l1: "loop_wf loop1" "loop_entries loop1 = pre @ e # (map fst xs @ post @ new)" by auto
    show ?thesis
    proof (cases "ev_once e")
      case True
      note d = drop_entry_wf [OF l1]
      from Cons.IH [OF _ d(1), of _ a1 "event_fd_destroy w1" pre "post @ new"] d(2) Cons.prems(1) x False True h
      show ?thesis by (auto simp: stays_def)
    next
      case no: False
      from Cons.IH [OF _ l1(1), of _ a1 w1 "pre @ [e]" "post @ new"] l1(2) Cons.prems(1) x False no h
      show ?thesis by (auto simp: stays_def)
    qed
  qed
qed simp

lemma event_loop_run_serve:
  assumes "loop_wf loop"
  shows "event_loop_run handle reported loop a w =
    (case make_pollfds loop w of
       (Inl e, w1) \<Rightarrow> (Inl e, loop, a, w1)
     | (Inr fds, w1) \<Rightarrow>
         (case sys w1 of
            (Inl e, w2) \<Rightarrow> (Inl e, loop, a, w2)
          | (Inr _, w2) \<Rightarrow>
              (case serve_ready handle (snapshot reported loop) (Inr ()) loop a w2 of
                 (ret, loop1, a1, w3) \<Rightarrow> (ret, loop1, a1, release (Mem ''pollfds'') w3))))"
proof -
  let ?es = "loop_entries loop" and ?rs = "map reported [0..<length (loop_entries loop)]"
  have fds: "fds = map ev_fd ?es" if "make_pollfds loop w = (Inr fds, w1)" for fds w1
    using that assms
    by (auto simp: make_pollfds_def bindE_def alloc_def andThen_def ok_def loop_wf_def split: if_splits)
  have zip: "zip (map ev_fd ?es) ?rs = map (\<lambda>x. (ev_fd (fst x), snd x)) (snapshot reported loop)"
    by (simp add: snapshot_def zip_map1 split_def)
  have "map fst (snapshot reported loop) = ?es" by (simp add: snapshot_def)
  with run_handlers_serve [OF assms, of "[]" "snapshot reported loop" "[]"] zip
  have "run_handlers handle (zip (map ev_fd ?es) ?rs) (first_entry ?es) ret loop a v =
    serve_ready handle (snapshot reported loop) ret loop a v" for ret v by simp
  with fds show ?thesis
    unfolding event_loop_run_def
    by (cases "make_pollfds loop w"; cases "fst (make_pollfds loop w)")
      (auto split: prod.splits sum.splits simp del: upt_Suc)
qed

end

section \<open>Adding\<close>

lemma add_internal_wf:
  assumes "loop_wf loop" "ev_addr e = fresh_addr loop"
  shows "loop_wf (event_loop_add_internal loop e)"
proof -
  have "ev_addr e \<notin> ev_addr ` set (loop_entries loop)" using assms by (auto simp: loop_wf_def)
  with assms show ?thesis by (auto simp: loop_wf_def event_loop_add_internal_def less_Suc_eq)
qed

lemma event_loop_add_spec:
  assumes "event_loop_add loop fd events h w = (r, t)"
  shows "still w t \<and> (reliable w \<longrightarrow> is_ok r) \<and>
    (case r of
       Inl e \<Rightarrow> e < 0 \<and> calm w t
     | Inr loop' \<Rightarrow> takes w t [Event_fd] \<and> (loop_wf loop \<longrightarrow> loop_wf loop') \<and>
         (\<exists>e. loop_entries loop' = loop_entries loop @ [e] \<and> ev_handler e = h \<and> \<not> ev_once e \<and> ev_fd e = fd))"
  using assms
  by (auto simp: event_loop_add_def event_fd_create_def bindE_def alloc_def ok_def takes_def still_def
      add_internal_wf split: if_splits) (auto simp: event_loop_add_internal_def)

lemma event_loop_add_once_spec:
  assumes "event_loop_add_once loop fd events h w = (r, t)"
  shows "still w t \<and> (reliable w \<longrightarrow> is_ok r) \<and>
    (case r of
       Inl e \<Rightarrow> e < 0 \<and> calm w t
     | Inr loop' \<Rightarrow> takes w t [Event_fd] \<and> (loop_wf loop \<longrightarrow> loop_wf loop') \<and>
         (\<exists>e. loop_entries loop' = loop_entries loop @ [e] \<and> ev_handler e = h \<and> ev_once e \<and> ev_fd e = fd))"
  using assms
  by (auto simp: event_loop_add_once_def event_fd_create_def bindE_def alloc_def ok_def takes_def still_def
      add_internal_wf split: if_splits) (auto simp: event_loop_add_internal_def)

section \<open>How a round ends\<close>

lemma log_all_events_calm: "calm w (log_all_events es w) \<and> still w (log_all_events es w)"
proof (induction es arbitrary: w)
  case (Cons e es)
  from Cons.IH [of "log_events (ev_events e) w"] log_events_calm [of w "ev_events e"]
  show ?case by (auto intro: calm_trans still_trans)
qed simp

lemma make_pollfds_spec:
  assumes "make_pollfds loop w = (r, t)" "loop_wf loop"
  shows "still w t \<and> (case r of Inl e \<Rightarrow> e < 0 \<and> calm w t | Inr _ \<Rightarrow> takes w t [Mem ''pollfds''])"
  using assms log_all_events_calm [of "emit (Acquire (Mem ''pollfds'')) (used w)" "loop_entries loop"]
  by (auto simp: make_pollfds_def bindE_def alloc_def andThen_def ok_def loop_wf_def takes_def still_def
      split: if_splits)

context event_handlers
begin

text \<open>Either the list of descriptors could not be made or polled, or the snapshot was served.\<close>

lemma run_cases:
  assumes run: "event_loop_run handle reported loop a w = (r, loop', a', t)" and wf: "loop_wf loop"
  shows "(\<not> reliable w \<and> \<not> is_ok r \<and> loop' = loop \<and> a' = a \<and> still w t \<and>
      (\<exists>n. takes w t (replicate n (Mem ''pollfds'')))) \<or>
    (\<exists>u v. takes w u [Mem ''pollfds''] \<and> still w u \<and>
      serve_ready handle (snapshot reported loop) (Inr ()) loop a u = (r, loop', a', v) \<and>
      t = release (Mem ''pollfds'') v)"
proof -
  note run' = run [unfolded event_loop_run_serve [OF wf]]
  obtain x w1 where x: "make_pollfds loop w = (x, w1)" by (cases "make_pollfds loop w")
  note mp = make_pollfds_spec [OF x wf]
  show ?thesis
  proof (cases x)
    case (Inl e)
    moreover have "\<not> reliable w" using x Inl by (auto simp: make_pollfds_def bindE_def alloc_def andThen_def ok_def split: if_splits)
    ultimately show ?thesis using run' x mp Inl by (auto intro: exI [of _ 0])
  next
    case (Inr fds)
    show ?thesis
    proof (cases "answer w1 < 0")
      case True
      then have "\<not> reliable w" using mp Inr by (auto simp: takes_def)
      with True run' x Inr mp show ?thesis by (auto simp: sys_def takes_def still_def intro: exI [of _ 1])
    next
      case False
      obtain r1 loop1 a1 v where s: "serve_ready handle (snapshot reported loop) (Inr ()) loop a (used w1) =
          (r1, loop1, a1, v)" by (metis prod_cases3 surj_pair)
      have "takes w (used w1) [Mem ''pollfds'']" "still w (used w1)"
        using mp Inr by (simp_all add: takes_def still_def)
      with run' x Inr False s show ?thesis by (auto simp: sys_def)
    qed
  qed
qed

end

end
