(* ===== verification/Signals.thy ===== *)
theory Signals
  imports File
begin

text \<open>
  \<open>src/signal.c\<close>: the signal mask and the descriptor from which the termination signals are
  read. The mask belongs to the calling thread, not to the process, so these functions work on
  a pair of the thread's mask and the world the threads share.
\<close>

section \<open>Masks\<close>

type_synonym sigset = "int list"

type_synonym 's thread = "sigset \<times> 's"

abbreviation SIGINT :: int where "SIGINT \<equiv> 2"
abbreviation SIGQUIT :: int where "SIGQUIT \<equiv> 3"
abbreviation SIGTERM :: int where "SIGTERM \<equiv> 15"

definition sigemptyset :: sigset where
  "sigemptyset = []"

definition sigfillset :: sigset where
  "sigfillset = [1..64]"

definition sigaddset :: "int \<Rightarrow> sigset \<Rightarrow> sigset" where
  "sigaddset s m = (if s \<in> set m then m else m @ [s])"

definition sigterm_signals :: "int list" where
  "sigterm_signals = [SIGINT, SIGTERM, SIGQUIT]"

definition sigterms_mask :: sigset where
  "sigterms_mask = foldl (\<lambda>m s. sigaddset s m) sigemptyset sigterm_signals"

text \<open>A call that does not look at the mask.\<close>

definition in_world :: "('s, 'a) cfun \<Rightarrow> ('s thread, 'a) cfun" where
  "in_world f m = (case f (snd m) of (r, t) \<Rightarrow> (r, (fst m, t)))"

text \<open>\<open>pthread_sigmask(SIG_SETMASK, new, old)\<close> replaces the mask and hands out the old one.\<close>

definition pthread_sigmask :: "sigset \<Rightarrow> ('z world_scheme thread, sigset) cfun" where
  "pthread_sigmask new = bindE (in_world lib) (\<lambda>_ m. (Inr (fst m), (new, snd m)))"

definition signal_set_mask_internal :: "sigset \<Rightarrow> ('z world_scheme thread, sigset) cfun" where
  "signal_set_mask_internal new = pthread_sigmask new"

definition signal_set_mask :: "sigset \<Rightarrow> ('z world_scheme thread, unit) cfun" where
  "signal_set_mask new = bindE (signal_set_mask_internal new) (\<lambda>_. ok ())"

definition signal_block_all :: "('z world_scheme thread, sigset) cfun" where
  "signal_block_all = signal_set_mask_internal sigfillset"

definition signal_block_sigterms :: "('z world_scheme thread, unit) cfun" where
  "signal_block_sigterms = bindE (signal_set_mask_internal sigterms_mask) (\<lambda>_. ok ())"

section \<open>The signal descriptor\<close>

definition signalfd_create :: "sigset \<Rightarrow> ('z world_scheme thread, int) cfun" where
  "signalfd_create new =
     bindE (signal_set_mask_internal new) (\<lambda>old.
       onErr
         (in_world (bindE sys (\<lambda>fd. andThen (emit (Acquire (Desc fd))) (ok fd))))
         (\<lambda>m. snd (signal_set_mask_internal old m)))"

definition signalfd_create_sigterms :: "('z world_scheme thread, int) cfun" where
  "signalfd_create_sigterms = signalfd_create sigterms_mask"

definition signalfd_destroy :: "int \<Rightarrow> 'z world_scheme \<Rightarrow> 'z world_scheme" where
  "signalfd_destroy fd = file_close fd"

section \<open>What they promise\<close>

lemma sigterms_mask_eq: "sigterms_mask = [SIGINT, SIGTERM, SIGQUIT]"
  by (simp add: sigterms_mask_def sigterm_signals_def sigaddset_def sigemptyset_def)

lemma sigterms_blocked: "set sigterms_mask = {SIGINT, SIGTERM, SIGQUIT}" "set sigterms_mask \<subseteq> set sigfillset"
  by (auto simp: sigterms_mask_eq sigfillset_def)

text \<open>Setting the mask replaces it and tells the old one, or fails and leaves it.\<close>

lemma set_mask_spec:
  assumes "signal_set_mask_internal new (m, w) = (r, (m', t))"
  shows "calm w t \<and> still w t \<and> noted (trace t) = noted (trace w) \<and>
    (case r of Inl e \<Rightarrow> e < 0 \<and> m' = m | Inr old \<Rightarrow> old = m \<and> m' = new) \<and> (lucky w \<longrightarrow> is_ok r)"
  using assms
  by (auto simp: signal_set_mask_internal_def pthread_sigmask_def in_world_def bindE_def lib_def
      takes_def still_def split: if_splits)

lemma signalfd_create_spec:
  assumes "signalfd_create new (m, w) = (r, (m', t))"
  shows "still w t \<and> noted (trace t) = noted (trace w) \<and>
    (case r of Inl e \<Rightarrow> e < 0 \<and> calm w t | Inr fd \<Rightarrow> m' = new \<and> takes w t [Desc fd]) \<and>
    (lucky w \<longrightarrow> is_ok r)"
proof -
  obtain a m1 w1 where a: "signal_set_mask_internal new (m, w) = (a, (m1, w1))" by (metis surj_pair)
  note sa = set_mask_spec [OF a]
  show ?thesis
  proof (cases a)
    case (Inl e)
    with assms a sa show ?thesis by (auto simp: signalfd_create_def bindE_def)
  next
    case (Inr old)
    show ?thesis
    proof (cases "answer w1 < 0")
      case True
      obtain b m2 w2 where b: "signal_set_mask_internal old (m1, used w1) = (b, (m2, w2))"
        by (metis surj_pair)
      from True assms a b Inr have "r = Inl (answer w1)" "t = w2"
        by (auto simp: signalfd_create_def bindE_def onErr_def in_world_def sys_def)
      with set_mask_spec [OF b] sa True show ?thesis by (auto simp: takes_def still_def)
    next
      case False
      with assms a Inr have "r = Inr (answer w1)" "m' = m1" "t = emit (Acquire (Desc (answer w1))) (used w1)"
        by (auto simp: signalfd_create_def bindE_def onErr_def in_world_def sys_def andThen_def ok_def)
      with sa Inr show ?thesis by (auto simp: takes_def still_def)
    qed
  qed
qed

end
