(* ===== verification/TcpServer.thy ===== *)
theory TcpServer
  imports EventLoop Signals Net
begin

text \<open>
  \<open>src/tcp_server.c\<close>: a listening socket in an event loop, a thread for each connection, and
  one clean-up entry per thread: the thread writes to an eventfd when it is about to end, and
  the loop then joins it and frees the client. A client has an address, so that using one that
  was freed shows as an undefined step.
\<close>

section \<open>Clients\<close>

record client =
  cl_addr :: nat
  cl_conn_fd :: int
  cl_cleanup_fd :: int

record tcp_server =
  tcp_accept_fd :: int
  client_queue :: "client list"
  fresh_client :: nat

text \<open>The callbacks in the loop, with their arguments; other components have theirs.\<close>

datatype 'u tcp_handler =
    Accept_handler
  | Client_destroy_handler nat
  | Other_handler 'u

abbreviation Client :: resource where "Client \<equiv> Mem ''client''"
abbreviation Thread :: resource where "Thread \<equiv> Lib ''thread''"
abbreviation Tcp_server :: resource where "Tcp_server \<equiv> Mem ''tcp_server''"

definition client_queue_insert :: "client \<Rightarrow> tcp_server \<Rightarrow> tcp_server" where
  "client_queue_insert c server = server\<lparr>client_queue := client_queue server @ [c]\<rparr>"

definition client_queue_remove :: "nat \<Rightarrow> tcp_server \<Rightarrow> tcp_server" where
  "client_queue_remove addr server =
     server\<lparr>client_queue := filter (\<lambda>c. cl_addr c \<noteq> addr) (client_queue server)\<rparr>"

text \<open>\<open>pthread_join\<close> waits for the thread; an error of it is only logged.\<close>

definition client_destroy ::
  "nat \<Rightarrow> tcp_server \<Rightarrow> 'z world_scheme \<Rightarrow> tcp_server \<times> 'z world_scheme" where
  "client_destroy addr server w =
     (case List.find (\<lambda>c. cl_addr c = addr) (client_queue server) of
        None \<Rightarrow> (server, undefined_behaviour ''client_destroy: freed client'' w)
      | Some c \<Rightarrow>
          (client_queue_remove addr server,
           release Client (net_close (cl_conn_fd c) (file_close (cl_cleanup_fd c)
             (release Thread (used w))))))"

definition client_destroy_handler ::
  "nat \<Rightarrow> tcp_server \<Rightarrow> 'z world_scheme \<Rightarrow> (int + unit) \<times> tcp_server \<times> 'z world_scheme" where
  "client_destroy_handler addr server w = (Inr (), client_destroy addr server w)"

text \<open>
  The thread of a client starts with every signal blocked. The result is that of
  \<open>eventfd_write\<close>, which is only logged: without it the loop does not learn that the thread
  is done.
\<close>

definition eventfd_write :: "int \<Rightarrow> ('z world_scheme, unit) cfun" where
  "eventfd_write fd = bindE sys (\<lambda>_. ok ())"

definition client_thread_func ::
  "(int \<Rightarrow> ('z world_scheme thread, unit) cfun) \<Rightarrow> client \<Rightarrow> ('z world_scheme, unit) cfun" where
  "client_thread_func conn_handler c w =
     eventfd_write (cl_cleanup_fd c)
       (snd (snd (bindE signal_block_sigterms (\<lambda>_. conn_handler (cl_conn_fd c)) (sigfillset, w))))"

definition client_create_thread :: "('z world_scheme thread, unit) cfun" where
  "client_create_thread =
     bindE signal_block_all (\<lambda>old_mask.
       after
         (in_world (bindE lib (\<lambda>_. andThen (emit (Acquire Thread)) (ok ()))))
         (\<lambda>m. snd (signal_set_mask old_mask m)))"

definition eventfd :: "('z world_scheme, int) cfun" where
  "eventfd = bindE sys (\<lambda>fd. andThen (emit (Acquire (Desc fd))) (ok fd))"

text \<open>
  When the thread cannot be created, the clean-up entry stays in the loop, although its client
  is freed.
\<close>

definition client_create ::
  "int \<Rightarrow> 'u tcp_handler event_loop \<Rightarrow> tcp_server \<Rightarrow> sigset \<Rightarrow> 'z world_scheme \<Rightarrow>
     (int + unit) \<times> 'u tcp_handler event_loop \<times> (sigset \<times> tcp_server) \<times> 'z world_scheme" where
  "client_create conn_fd loop server sigs w =
     (case alloc Client w of
        (Inl e, w1) \<Rightarrow> (Inl e, loop, (sigs, server), w1)
      | (Inr _, w1) \<Rightarrow>
          (case eventfd w1 of
             (Inl e, w2) \<Rightarrow> (Inl e, loop, (sigs, server), release Client w2)
           | (Inr cleanup_fd, w2) \<Rightarrow>
               let addr = fresh_client server;
                   c = \<lparr>cl_addr = addr, cl_conn_fd = conn_fd, cl_cleanup_fd = cleanup_fd\<rparr>;
                   server1 = server\<lparr>fresh_client := addr + 1\<rparr>
               in (case event_loop_add_once loop cleanup_fd POLLIN (Client_destroy_handler addr) w2 of
                     (Inl e, w3) \<Rightarrow>
                       (Inl e, loop, (sigs, server1), release Client (file_close cleanup_fd w3))
                   | (Inr loop1, w3) \<Rightarrow>
                       let server2 = client_queue_insert c server1
                       in (case client_create_thread (sigs, w3) of
                             (Inl e, (sigs1, w4)) \<Rightarrow>
                               (Inl e, loop1, (sigs1, client_queue_remove addr server2),
                                release Client (file_close cleanup_fd w4))
                           | (Inr _, (sigs1, w4)) \<Rightarrow> (Inr (), loop1, (sigs1, server2), w4)))))"

fun client_queue_destroy ::
  "client list \<Rightarrow> tcp_server \<Rightarrow> 'z world_scheme \<Rightarrow> tcp_server \<times> 'z world_scheme" where
  "client_queue_destroy [] server w = (server, w)"
| "client_queue_destroy (entry1 # rest) server w =
     (case client_destroy (cl_addr entry1) server w of
        (server1, w1) \<Rightarrow> client_queue_destroy rest server1 w1)"

section \<open>The server\<close>

definition tcp_server_accept ::
  "'u tcp_handler event_loop \<Rightarrow> tcp_server \<Rightarrow> sigset \<Rightarrow> 'z world_scheme \<Rightarrow>
     (int + unit) \<times> 'u tcp_handler event_loop \<times> (sigset \<times> tcp_server) \<times> 'z world_scheme" where
  "tcp_server_accept loop server sigs w =
     (case net_accept (tcp_accept_fd server) w of
        (Inl e, w1) \<Rightarrow> (Inl e, loop, (sigs, server), w1)
      | (Inr conn_fd, w1) \<Rightarrow>
          (case client_create conn_fd loop server sigs w1 of
             (Inl e, loop1, a, w2) \<Rightarrow> (Inl e, loop1, a, net_close conn_fd w2)
           | (Inr _, loop1, a, w2) \<Rightarrow> (Inr (), loop1, a, w2)))"

definition tcp_server_accept_handler ::
  "'u tcp_handler event_loop \<Rightarrow> tcp_server \<Rightarrow> sigset \<Rightarrow> 'z world_scheme \<Rightarrow>
     (int + unit) \<times> 'u tcp_handler event_loop \<times> (sigset \<times> tcp_server) \<times> 'z world_scheme" where
  "tcp_server_accept_handler loop server sigs w = tcp_server_accept loop server sigs w"

definition tcp_server_create ::
  "addrinfo list option \<Rightarrow> 'u tcp_handler event_loop \<Rightarrow>
     ('z world_scheme, tcp_server \<times> 'u tcp_handler event_loop) cfun" where
  "tcp_server_create addrs loop =
     bindE (alloc Tcp_server) (\<lambda>_.
       onErr
         (bindE (net_bind addrs) (\<lambda>accept_fd.
            onErr
              (bindE (event_loop_add loop accept_fd POLLIN Accept_handler) (\<lambda>loop1.
                 ok (\<lparr>tcp_accept_fd = accept_fd, client_queue = [], fresh_client = 0\<rparr>, loop1)))
              (net_close accept_fd)))
         (release Tcp_server))"

definition tcp_server_destroy :: "tcp_server \<Rightarrow> 'z world_scheme \<Rightarrow> 'z world_scheme" where
  "tcp_server_destroy server w =
     release Tcp_server
       (snd (client_queue_destroy (client_queue server) server (net_close (tcp_accept_fd server) w)))"

text \<open>The state of the handlers is the mask of the loop's thread and the server.\<close>

fun tcp_handle ::
  "('u \<Rightarrow> ('z world_scheme, unit) cfun) \<Rightarrow> ('u tcp_handler, sigset \<times> tcp_server, 'z world_scheme) event_handler" where
  "tcp_handle other Accept_handler fd revents loop (sigs, server) w =
     tcp_server_accept_handler loop server sigs w"
| "tcp_handle other (Client_destroy_handler addr) fd revents loop (sigs, server) w =
     (case client_destroy_handler addr server w of (r, server1, w1) \<Rightarrow> (r, loop, (sigs, server1), w1))"
| "tcp_handle other (Other_handler u) fd revents loop (sigs, server) w =
     (case other u w of (r, w1) \<Rightarrow> (r, loop, (sigs, server), w1))"

section \<open>What the handlers do\<close>

fun client_of :: "'u tcp_handler \<Rightarrow> nat option" where
  "client_of (Client_destroy_handler addr) = Some addr"
| "client_of _ = None"

definition client_addrs :: "'u tcp_handler event_fd list \<Rightarrow> nat list" where
  "client_addrs es = List.map_filter (\<lambda>e. client_of (ev_handler e)) es"

definition client_blocks :: "client \<Rightarrow> resource list" where
  "client_blocks c = [Client, Thread, Desc (cl_conn_fd c), Desc (cl_cleanup_fd c)]"

text \<open>What the clients and the entries of the loop hold.\<close>

definition tcp_holds :: "'u tcp_handler event_loop \<Rightarrow> tcp_server \<Rightarrow> resource list" where
  "tcp_holds loop server =
     concat (map client_blocks (client_queue server)) @ replicate (length (loop_entries loop)) Event_fd"

definition tcp_wf :: "tcp_server \<Rightarrow> bool" where
  "tcp_wf server \<longleftrightarrow> distinct (map cl_addr (client_queue server)) \<and>
     (\<forall>c \<in> set (client_queue server). cl_addr c < fresh_client server)"

text \<open>\<open>trades w t cs rs\<close>: the run took \<open>rs\<close> in exchange for \<open>cs\<close>, with no undefined step.\<close>

definition trades ::
  "'z world_scheme \<Rightarrow> 'z world_scheme \<Rightarrow> resource list \<Rightarrow> resource list \<Rightarrow> bool" where
  "trades w t cs rs \<longleftrightarrow> undef (trace t) = undef (trace w) \<and>
     (\<forall>q. bal (trace t) q + int (count_list cs q) = bal (trace w) q + int (count_list rs q))"

lemma trades_trans: "trades w u cs rs \<Longrightarrow> trades u t rs qs \<Longrightarrow> trades w t cs qs"
  by (simp add: trades_def) (smt (verit))

lemma trades_append:
  assumes "trades w u cs []" "trades u t ds []"
  shows "trades w t (cs @ ds) []"
proof -
  have "bal (trace t) q + int (count_list (cs @ ds) q) = bal (trace w) q" for q
  proof -
    have "bal (trace u) q + int (count_list cs q) = bal (trace w) q"
      "bal (trace t) q + int (count_list ds q) = bal (trace u) q"
      using assms by (simp_all add: trades_def)
    then show ?thesis by simp
  qed
  with assms show ?thesis by (simp add: trades_def)
qed

lemma trades_balance: "trades w t cs cs \<longleftrightarrow> undef (trace t) = undef (trace w) \<and> bal (trace t) = bal (trace w)"
  by (auto simp: trades_def)

lemma client_addrs_simps [simp]:
  "client_addrs [] = []" "client_addrs (es @ fs) = client_addrs es @ client_addrs fs"
  "client_addrs (e # es) =
     (case client_of (ev_handler e) of None \<Rightarrow> client_addrs es | Some a \<Rightarrow> a # client_addrs es)"
  by (induction es) (auto simp: client_addrs_def map_filter_simps split: option.splits)

lemma client_create_thread_spec:
  assumes "client_create_thread (m, w) = (r, (m', t))"
  shows "still w t \<and> (lucky w \<longrightarrow> m' = m \<and> is_ok r) \<and>
    (case r of Inl e \<Rightarrow> e < 0 \<and> calm w t | Inr _ \<Rightarrow> takes w t [Thread])"
proof -
  obtain a m1 w1 where a: "signal_set_mask_internal sigfillset (m, w) = (a, (m1, w1))" by (metis surj_pair)
  note sa = set_mask_spec [OF a]
  show ?thesis
  proof (cases a)
    case (Inl e)
    with assms a sa show ?thesis by (auto simp: client_create_thread_def signal_block_all_def bindE_def)
  next
    case (Inr old)
    define w2 where "w2 = (if 0 < answer w1 then used w1 else emit (Acquire Thread) (used w1))"
    obtain b m2 w3 where b: "signal_set_mask_internal old (m1, w2) = (b, (m2, w3))" by (metis surj_pair)
    have t: "m' = m2" "t = w3" "r = (if 0 < answer w1 then Inl (- answer w1) else Inr ())"
      using assms a Inr b
      by (cases "0 < answer w1"; cases b;
        simp add: client_create_thread_def signal_block_all_def bindE_def after_def in_world_def lib_def
          andThen_def ok_def signal_set_mask_def w2_def)+
    have w2: "if 0 < answer w1 then calm w1 w2 else takes w1 w2 [Thread]" "still w1 w2"
      by (simp_all add: w2_def takes_def still_def)
    from sa w2 set_mask_spec [OF b] show ?thesis
      unfolding t using Inr
      by (cases b) (auto simp: takes_def still_def split: if_splits)
  qed
qed

text \<open>What a client that was created looks like, and what is left behind when one was not.\<close>

definition client_created ::
  "'u tcp_handler event_loop \<Rightarrow> tcp_server \<Rightarrow> 'u tcp_handler event_loop \<Rightarrow> tcp_server \<Rightarrow> client \<Rightarrow> bool" where
  "client_created loop server loop' server' c \<longleftrightarrow>
     client_queue server' = client_queue server @ [c] \<and>
     (\<exists>e. loop_entries loop' = loop_entries loop @ [e] \<and>
        ev_handler e = Client_destroy_handler (cl_addr c) \<and> ev_once e)"

definition client_refused ::
  "'u tcp_handler event_loop \<Rightarrow> tcp_server \<Rightarrow> 'u tcp_handler event_loop \<Rightarrow> tcp_server \<Rightarrow> bool" where
  "client_refused loop server loop' server' \<longleftrightarrow>
     client_queue server' = client_queue server \<and>
     (\<exists>new. loop_entries loop' = loop_entries loop @ new \<and> length new \<le> 1 \<and>
        (\<forall>e \<in> set new. client_of (ev_handler e) \<noteq> None \<and> ev_once e))"

definition entries_added :: "'u tcp_handler event_loop \<Rightarrow> 'u tcp_handler event_loop \<Rightarrow> resource list" where
  "entries_added loop loop' =
     replicate (length (loop_entries loop') - length (loop_entries loop)) Event_fd"

lemma client_create_spec:
  assumes "client_create fd loop server m w = (r, loop', (m', server'), t)" "loop_wf loop" "tcp_wf server"
  shows "loop_wf loop' \<and> tcp_wf server' \<and> tcp_accept_fd server' = tcp_accept_fd server \<and> still w t \<and>
    (lucky w \<longrightarrow> m' = m \<and> is_ok r) \<and>
    (case r of
       Inl e \<Rightarrow> e < 0 \<and> client_refused loop server loop' server' \<and> takes w t (entries_added loop loop')
     | Inr _ \<Rightarrow> (\<exists>c. client_created loop server loop' server' c \<and> cl_conn_fd c = fd \<and>
         takes w t [Event_fd, Client, Thread, Desc (cl_cleanup_fd c)]))"
proof (cases "answer w < 0")
  case True
  with assms show ?thesis
    by (auto simp: client_create_def alloc_def client_refused_def entries_added_def still_def)
next
  case False
  define w1 where "w1 = emit (Acquire Client) (used w)"
  have w1: "takes w w1 [Client]" "still w w1" by (simp_all add: w1_def takes_def still_def)
  show ?thesis
  proof (cases "answer w1 < 0")
    case True
    with False assms have "r = Inl (answer w1)" "loop' = loop" "m' = m" "server' = server"
      "t = release Client (used w1)"
      by (auto simp: client_create_def alloc_def eventfd_def bindE_def sys_def simp flip: w1_def)
    with True w1 assms(2,3) show ?thesis
      by (auto simp: client_refused_def entries_added_def still_def takes_def)
  next
    case ok1: False
    define cfd addr where "cfd = answer w1" and "addr = fresh_client server"
    define c where "c = \<lparr>cl_addr = addr, cl_conn_fd = fd, cl_cleanup_fd = cfd\<rparr>"
    define server1 where "server1 = server\<lparr>fresh_client := addr + 1\<rparr>"
    define w2 where "w2 = emit (Acquire (Desc cfd)) (used w1)"
    have w2: "takes w w2 [Client, Desc cfd]" "still w w2" using w1 by (simp_all add: w2_def takes_def still_def)
    have ev: "eventfd w1 = (Inr cfd, w2)"
      using ok1 by (simp add: eventfd_def bindE_def sys_def andThen_def ok_def cfd_def w2_def)
    have wf1: "tcp_wf server1" "tcp_wf (client_queue_insert c server1)"
      using assms(3)
      by (auto simp: tcp_wf_def server1_def client_queue_insert_def c_def addr_def less_Suc_eq)
    have "filter (\<lambda>d. cl_addr d \<noteq> addr) (client_queue server) = client_queue server"
      by (rule filter_True) (use assms(3) in \<open>auto simp: tcp_wf_def addr_def\<close>)
    then have rm: "client_queue_remove addr (client_queue_insert c server1) = server1"
      by (cases server) (simp add: server1_def client_queue_insert_def client_queue_remove_def c_def)
    obtain x w3 where x: "event_loop_add_once loop cfd POLLIN (Client_destroy_handler addr) w2 = (x, w3)"
      by (cases "event_loop_add_once loop cfd POLLIN (Client_destroy_handler addr) w2")
    note ad = event_loop_add_once_spec [OF x]
    show ?thesis
    proof (cases x)
      case (Inl e)
      with assms(1) False ev x have "r = Inl e" "loop' = loop" "m' = m" "server' = server1"
        "t = release Client (file_close cfd w3)"
        by (auto simp: client_create_def alloc_def Let_def server1_def addr_def simp flip: w1_def)
      with ad Inl w2 wf1(1) assms(2) False show ?thesis
        by (auto simp: client_refused_def entries_added_def still_def takes_def file_close_def server1_def
            dest: lucky_reliable)
    next
      case (Inr loop1)
      obtain y m4 w4 where y: "client_create_thread (m, w3) = (y, (m4, w4))" by (metis surj_pair)
      note th = client_create_thread_spec [OF y]
      from ad Inr obtain e where e: "loop_entries loop1 = loop_entries loop @ [e]"
        "ev_handler e = Client_destroy_handler addr" "ev_once e" by auto
      show ?thesis
      proof (cases y)
        case (Inl err)
        with assms(1) False ev x y Inr have "r = Inl err" "loop' = loop1" "m' = m4" "server' = server1"
          "t = release Client (file_close cfd w4)" using rm
          by (auto simp: client_create_def alloc_def Let_def server1_def addr_def c_def simp flip: w1_def)
        with ad th Inl Inr w2 wf1(1) assms(2) e show ?thesis
          by (auto simp: client_refused_def entries_added_def still_def takes_def file_close_def server1_def)
      next
        case (Inr u)
        with assms(1) False ev x y \<open>x = Inr loop1\<close> have "r = Inr ()" "loop' = loop1" "m' = m4" "t = w4"
          "server' = client_queue_insert c server1"
          by (auto simp: client_create_def alloc_def Let_def server1_def addr_def c_def simp flip: w1_def)
        moreover have "client_created loop server loop1 (client_queue_insert c server1) c"
          using e by (simp add: client_created_def client_queue_insert_def server1_def c_def)
        moreover have "takes w w4 [Event_fd, Client, Thread, Desc cfd]"
          using w2 ad th Inr \<open>x = Inr loop1\<close> by (auto simp: takes_def)
        moreover have "tcp_accept_fd (client_queue_insert c server1) = tcp_accept_fd server"
          "cl_conn_fd c = fd" "cl_cleanup_fd c = cfd"
          by (simp_all add: client_queue_insert_def server1_def c_def)
        ultimately show ?thesis
          using ad th w2 wf1(2) assms(2) Inr \<open>x = Inr loop1\<close>
          by (auto simp: still_def takes_def)
      qed
    qed
  qed
qed

lemma accept_spec:
  assumes "tcp_server_accept loop server m w = (r, loop', (m', server'), t)" "loop_wf loop" "tcp_wf server"
  shows "loop_wf loop' \<and> tcp_wf server' \<and> tcp_accept_fd server' = tcp_accept_fd server \<and> still w t \<and>
    (lucky w \<longrightarrow> m' = m \<and> is_ok r) \<and>
    (case r of
       Inl e \<Rightarrow> e < 0 \<and> client_refused loop server loop' server' \<and> takes w t (entries_added loop loop')
     | Inr _ \<Rightarrow> (\<exists>c. client_created loop server loop' server' c \<and> takes w t (Event_fd # client_blocks c)))"
proof -
  obtain a u where a: "net_accept (tcp_accept_fd server) w = (a, u)"
    by (cases "net_accept (tcp_accept_fd server) w")
  note na = meetsD [OF sys_fd_spec a [unfolded net_accept_def], unfolded opens_fd_def]
  have lk: "lucky w \<Longrightarrow> is_ok a"
    using a by (auto simp: net_accept_def sys_fd_def bindE_def sys_def andThen_def ok_def)
  have u: "still w u"
    using a by (auto simp: net_accept_def sys_fd_def bindE_def sys_def andThen_def ok_def still_def split: if_splits)
  show ?thesis
  proof (cases a)
    case (Inl e)
    with assms a na lk u show ?thesis
      by (auto simp: tcp_server_accept_def client_refused_def entries_added_def)
  next
    case (Inr fd)
    obtain x loop1 m1 server1 v where cc: "client_create fd loop server m u = (x, loop1, (m1, server1), v)"
      by (metis prod_cases3 surj_pair)
    note cs = client_create_spec [OF cc assms(2,3)]
    show ?thesis
    proof (cases x)
      case (Inl e)
      with assms(1) a cc Inr have eqs: "r = Inl e" "loop' = loop1" "m' = m1" "server' = server1"
        "t = net_close fd v" by (auto simp: tcp_server_accept_def)
      have "still w t" using u cs eqs by (auto simp: still_def)
      moreover have "takes w t (entries_added loop loop1)"
        using na cs Inl Inr eqs by (auto simp: takes_def)
      ultimately show ?thesis using cs Inl Inr eqs na by (auto simp: takes_def)
    next
      case ok: (Inr y)
      with assms(1) a cc Inr have eqs: "r = Inr ()" "loop' = loop1" "m' = m1" "server' = server1" "t = v"
        by (auto simp: tcp_server_accept_def)
      from cs ok obtain c where c: "client_created loop server loop1 server1 c" "cl_conn_fd c = fd"
        "takes u v [Event_fd, Client, Thread, Desc (cl_cleanup_fd c)]" by auto
      have "still w t" using u cs eqs by (auto simp: still_def)
      moreover have "takes w t (Event_fd # client_blocks c)"
        using na c(2,3) Inr eqs by (auto simp: takes_def client_blocks_def)
      ultimately show ?thesis using cs ok Inr eqs na c(1) by (auto simp: takes_def)
    qed
  qed
qed

lemma find_addr:
  assumes "tcp_wf server" "a \<in> cl_addr ` set (client_queue server)"
  obtains c xs ys where "client_queue server = xs @ c # ys" "cl_addr c = a"
    "List.find (\<lambda>c. cl_addr c = a) (client_queue server) = Some c"
    "client_queue (client_queue_remove a server) = xs @ ys"
proof -
  from assms(2) obtain c where c: "c \<in> set (client_queue server)" "cl_addr c = a" by auto
  then obtain xs ys where q: "client_queue server = xs @ c # ys" by (meson split_list)
  with assms(1) c(2) have d: "a \<notin> cl_addr ` set xs" "a \<notin> cl_addr ` set ys" by (auto simp: tcp_wf_def)
  have "filter (\<lambda>c. cl_addr c \<noteq> a) xs = xs" "filter (\<lambda>c. cl_addr c \<noteq> a) ys = ys"
    using d by (auto intro!: filter_True)
  moreover have "List.find (\<lambda>c. cl_addr c = a) (xs @ c # ys) = Some c"
    using d(1) c(2) by (induction xs) auto
  ultimately show ?thesis using that [of xs c ys] q c(2) by (simp add: client_queue_remove_def)
qed

lemma client_destroy_spec:
  assumes "client_destroy a server w = (server', t)" "tcp_wf server" "a \<in> cl_addr ` set (client_queue server)"
  shows "server' = client_queue_remove a server \<and> tcp_wf server' \<and> tcp_accept_fd server' = tcp_accept_fd server \<and>
    still w t \<and> world.more t = world.more w \<and> (lucky w \<longrightarrow> lucky t) \<and>
    (\<exists>c xs ys. client_queue server = xs @ c # ys \<and> client_queue server' = xs @ ys \<and>
       trades w t (client_blocks c) [])"
proof -
  from find_addr [OF assms(2,3)] obtain c xs ys where c: "client_queue server = xs @ c # ys"
    "List.find (\<lambda>c. cl_addr c = a) (client_queue server) = Some c"
    "client_queue (client_queue_remove a server) = xs @ ys" .
  with assms(1) have "server' = client_queue_remove a server"
    "t = release Client (net_close (cl_conn_fd c) (file_close (cl_cleanup_fd c) (release Thread (used w))))"
    by (auto simp: client_destroy_def)
  moreover have "tcp_wf (client_queue_remove a server)"
    using assms(2) by (auto simp: tcp_wf_def client_queue_remove_def intro: distinct_map_filter)
  moreover from calculation(2) have "still w t" "world.more t = world.more w" "lucky w \<longrightarrow> lucky t"
    "trades w t (client_blocks c) []"
    by (simp_all add: file_close_def still_def trades_def client_blocks_def)
  moreover have "tcp_accept_fd (client_queue_remove a server) = tcp_accept_fd server"
    by (simp add: client_queue_remove_def)
  ultimately show ?thesis using c(1,3) by blast
qed

lemma add_once_appends:
  "event_loop_add_once loop fd events h w = (Inr loop', t) \<Longrightarrow> loop_wf loop \<Longrightarrow>
     loop_wf loop' \<and> (\<exists>new. loop_entries loop' = loop_entries loop @ new)"
  by (frule event_loop_add_once_spec) auto

lemma client_create_appends:
  assumes "client_create fd loop server m w = (r, loop', a, t)" "loop_wf loop"
  shows "loop_wf loop' \<and> (\<exists>new. loop_entries loop' = loop_entries loop @ new)"
proof -
  show ?thesis
    using assms
    by (auto simp: client_create_def Let_def split: prod.splits sum.splits dest: add_once_appends)
qed

lemma tcp_handle_appends:
  assumes "tcp_handle other h fd revents loop a w = (r, loop', a', t)" "loop_wf loop"
  shows "loop_wf loop' \<and> (\<exists>new. loop_entries loop' = loop_entries loop @ new)"
proof (cases h)
  case Accept_handler
  with assms show ?thesis
    by (cases a)
      (auto simp: tcp_server_accept_handler_def tcp_server_accept_def split: prod.splits sum.splits
        dest: client_create_appends)
qed (use assms in \<open>cases a; auto split: prod.splits\<close>)+

interpretation tcp_loop: event_handlers "tcp_handle other" for other
  by unfold_locales (rule tcp_handle_appends)

section \<open>Rounds\<close>

text \<open>
  While no handler has failed, the clean-up entries of the loop are those of the live clients,
  in the same order. A failure ends the program's loop; until the round is over, the entries
  still to be visited are those of live clients.
\<close>

definition round_ok :: "int + unit \<Rightarrow> 'u tcp_handler event_loop \<Rightarrow> tcp_server \<Rightarrow> bool" where
  "round_ok ret loop server \<longleftrightarrow> loop_wf loop \<and> tcp_wf server \<and>
     (\<forall>e \<in> set (loop_entries loop). client_of (ev_handler e) \<noteq> None \<longrightarrow> ev_once e) \<and>
     (is_ok ret \<longrightarrow> client_addrs (loop_entries loop) = map cl_addr (client_queue server))"

definition pending :: "'u tcp_handler event_fd list \<Rightarrow> tcp_server \<Rightarrow> bool" where
  "pending es server \<longleftrightarrow> distinct (client_addrs es) \<and>
     set (client_addrs es) \<subseteq> cl_addr ` set (client_queue server)"

lemma client_addrs_set: "a \<in> set (client_addrs es) \<longleftrightarrow> (\<exists>e \<in> set es. client_of (ev_handler e) = Some a)"
  by (induction es) (auto split: option.splits)

lemma filter_removes:
  assumes "distinct (as @ a # bs)"
  shows "filter (\<lambda>x. x \<noteq> a) (as @ a # bs) = as @ bs"
proof -
  have "filter (\<lambda>x. x \<noteq> a) as = as" "filter (\<lambda>x. x \<noteq> a) bs = bs"
    using assms by (auto intro!: filter_True)
  then show ?thesis by simp
qed

lemma count_Event_fd_drop:
  assumes "loop_entries loop = pre @ e # ys" "loop_wf loop"
  shows "trades w (event_fd_destroy w) (tcp_holds loop server) (tcp_holds (drop_entry (ev_addr e) loop) server)"
  using drop_entry_wf(2) [OF assms(2,1)] assms(1)
  by (auto simp: trades_def tcp_holds_def event_fd_destroy_def)

lemma takes_trades: "takes w t rs \<Longrightarrow> trades w t [] rs"
  by (simp add: takes_def trades_def)

text \<open>
  What the tcp server asks of what it is used with: that the threads and the other callbacks take
  no undefined step, as long as the component behind them is in a good state and what a peer
  sends is admissible.
\<close>

locale tcp_components =
  fixes conn_handler :: "int \<Rightarrow> ('z world_scheme thread, unit) cfun"
    and other :: "'u \<Rightarrow> ('z world_scheme, unit) cfun"
    and good :: "'z \<Rightarrow> bool"
    and admissible :: "int \<Rightarrow> 'z world_scheme \<Rightarrow> bool"
  assumes conn: "conn_handler fd (m, w) = (r, (m', t)) \<Longrightarrow> good (world.more w) \<Longrightarrow> admissible fd w \<Longrightarrow>
      undef (trace t) = undef (trace w) \<and> good (world.more t)"
    and admissible_still: "still w t \<Longrightarrow> admissible fd w \<Longrightarrow> admissible fd t"
    and other: "other u w = (r, t) \<Longrightarrow> good (world.more w) \<Longrightarrow>
      undef (trace t) = undef (trace w) \<and> bal (trace t) = bal (trace w) \<and> good (world.more t)"
begin

lemma handle_step:
  assumes h: "tcp_handle other (ev_handler e) fd rv loop (m, server) w = (hr, loop1, (m1, server1), w1)"
    and inv: "round_ok ret loop server" "pending (e # es) server" "good (world.more w)"
    and es: "loop_entries loop = pre @ e # ys"
  shows "round_ok (if is_ok hr then ret else hr) (if ev_once e then drop_entry (ev_addr e) loop1 else loop1) server1 \<and>
    pending es server1 \<and> good (world.more w1) \<and> tcp_accept_fd server1 = tcp_accept_fd server \<and>
    trades w w1 (tcp_holds loop server) (tcp_holds loop1 server1) \<and>
    loop_wf loop1 \<and> (\<exists>new. loop_entries loop1 = pre @ e # ys @ new)"
proof (cases "ev_handler e")
  case (Client_destroy_handler a)
  then have live: "a \<in> cl_addr ` set (client_queue server)" "ev_once e"
    using inv(1,2) es by (auto simp: pending_def round_ok_def)
  from h Client_destroy_handler have eqs: "hr = Inr ()" "loop1 = loop" "m1 = m"
    "client_destroy a server w = (server1, w1)"
    by (auto simp: client_destroy_handler_def split: prod.splits)
  have wf: "tcp_wf server" "loop_wf loop" using inv(1) by (simp_all add: round_ok_def)
  note cd = client_destroy_spec [OF eqs(4) wf(1) live(1)]
  note dr = drop_entry_wf [OF wf(2) es]
  have addrs: "client_addrs (pre @ e # ys) = client_addrs pre @ a # client_addrs ys"
    by (simp add: Client_destroy_handler)
  have q1: "map cl_addr (client_queue server1) = filter (\<lambda>x. x \<noteq> a) (map cl_addr (client_queue server))"
    using cd by (simp add: client_queue_remove_def filter_map comp_def)
  have "client_addrs pre @ client_addrs ys = map cl_addr (client_queue server1)" if "is_ok ret"
  proof -
    have "distinct (client_addrs pre @ a # client_addrs ys)"
      using inv(1) that wf(1) es addrs by (simp add: round_ok_def tcp_wf_def)
    from filter_removes [OF this] inv(1) that es addrs show ?thesis unfolding q1 by (simp add: round_ok_def)
  qed
  then have "round_ok (if is_ok hr then ret else hr) (drop_entry (ev_addr e) loop1) server1"
    using inv(1) cd dr eqs es by (auto simp: round_ok_def)
  moreover have "pending es server1"
    using inv(2) q1 Client_destroy_handler
    by (auto simp: pending_def simp flip: set_map)
  moreover have "trades w w1 (tcp_holds loop server) (tcp_holds loop1 server1)"
    using cd eqs(2) by (auto simp: tcp_holds_def trades_def)
  ultimately show ?thesis using cd live(2) inv(3) eqs(2) wf(2) es by auto
next
  case Accept_handler
  with h have acc: "tcp_server_accept loop server m w = (hr, loop1, (m1, server1), w1)"
    by (simp add: tcp_server_accept_handler_def)
  have wf: "tcp_wf server" "loop_wf loop" using inv(1) by (simp_all add: round_ok_def)
  note sp = accept_spec [OF acc wf(2,1)]
  have none: "client_of (ev_handler e) = None" by (simp add: Accept_handler)
  show ?thesis
  proof (cases hr)
    case (Inl err)
    with sp obtain new where new: "client_queue server1 = client_queue server"
      "loop_entries loop1 = loop_entries loop @ new"
      "\<forall>e \<in> set new. client_of (ev_handler e) \<noteq> None \<and> ev_once e" "takes w w1 (entries_added loop loop1)"
      by (auto simp: client_refused_def)
    have l1: "loop_entries loop1 = pre @ e # (ys @ new)" using new(2) es by simp
    have "round_ok hr loop1 server1" using sp inv(1) new Inl by (auto simp: round_ok_def)
    moreover have "round_ok hr (drop_entry (ev_addr e) loop1) server1"
      using drop_entry_wf [OF _ l1] sp inv(1) new Inl es by (auto simp: round_ok_def)
    moreover have "trades w w1 (tcp_holds loop server) (tcp_holds loop1 server1)"
      using takes_trades [OF new(4)] new(1,2)
      by (auto simp: tcp_holds_def entries_added_def replicate_add trades_def)
    moreover have "world.more w1 = world.more w" using new(4) by (simp add: takes_def)
    ultimately show ?thesis using inv(2,3) new(1) none Inl sp l1 by (auto simp: pending_def)
  next
    case (Inr u)
    with sp obtain c e' where new: "client_queue server1 = client_queue server @ [c]"
      "loop_entries loop1 = loop_entries loop @ [e']" "ev_handler e' = Client_destroy_handler (cl_addr c)"
      "ev_once e'" "takes w w1 (Event_fd # client_blocks c)"
      by (auto simp: client_created_def)
    have l1: "loop_entries loop1 = pre @ e # (ys @ [e'])" using new(2) es by simp
    have "round_ok ret loop1 server1" using sp inv(1) new by (auto simp: round_ok_def)
    moreover have "round_ok ret (drop_entry (ev_addr e) loop1) server1"
      using drop_entry_wf [OF _ l1] sp inv(1) new es none by (auto simp: round_ok_def)
    moreover have "trades w w1 (tcp_holds loop server) (tcp_holds loop1 server1)"
      using takes_trades [OF new(5)] new(1,2)
      by (auto simp: tcp_holds_def trades_def)
    moreover have "world.more w1 = world.more w" using new(5) by (simp add: takes_def)
    ultimately show ?thesis using inv(2,3) new(1) none Inr sp l1 by (auto simp: pending_def)
  qed
next
  case (Other_handler u)
  with h have eqs: "other u w = (hr, w1)" "loop1 = loop" "server1 = server" by (auto split: prod.splits)
  have none: "client_of (ev_handler e) = None" by (simp add: Other_handler)
  have "round_ok (if is_ok hr then ret else hr) loop server" using inv(1) by (auto simp: round_ok_def)
  moreover have "round_ok (if is_ok hr then ret else hr) (drop_entry (ev_addr e) loop) server"
    using drop_entry_wf [OF _ es] inv(1) es none by (auto simp: round_ok_def)
  ultimately show ?thesis
    using inv other [OF eqs(1)] none es eqs
    by (auto simp: pending_def trades_balance round_ok_def)
qed

lemma serve_round:
  "serve_ready (tcp_handle other) xs ret loop (m, server) w = (r, loop', (m', server'), t) \<Longrightarrow>
     round_ok ret loop server \<Longrightarrow> pending (map fst xs) server \<Longrightarrow> good (world.more w) \<Longrightarrow>
     loop_entries loop = pre @ map fst xs @ post \<Longrightarrow>
     round_ok r loop' server' \<and> good (world.more t) \<and> tcp_accept_fd server' = tcp_accept_fd server \<and>
     trades w t (tcp_holds loop server) (tcp_holds loop' server')"
proof (induction xs arbitrary: pre post ret loop m server w)
  case Nil
  then show ?case by (auto simp: trades_balance)
next
  case (Cons x xs)
  obtain e rv where x: "x = (e, rv)" by (cases x)
  from Cons.prems x have es: "loop_entries loop = pre @ e # (map fst xs @ post)" by simp
  show ?case
  proof (cases "rv = 0")
    case True
    have "pending (map fst xs) server"
      using Cons.prems(3) x by (auto simp: pending_def split: option.splits)
    with True x es Cons.IH [of ret loop m server w "pre @ [e]" post] Cons.prems show ?thesis by simp
  next
    case False
    define v where "v = log_events rv w"
    have v: "trades w v cs cs" "world.more v = world.more w" for cs
      using log_events_calm [of w rv] by (auto simp: v_def takes_def trades_def)
    obtain hr loop1 m1 server1 w1 where h: "tcp_handle other (ev_handler e) (ev_fd e) rv loop (m, server) v =
      (hr, loop1, (m1, server1), w1)" by (metis prod_cases3 surj_pair)
    have "pending (e # map fst xs) server" using Cons.prems(3) x by simp
    note st = handle_step [OF h Cons.prems(2) this _ es] v(2) Cons.prems(4)
    from st obtain new where l1: "loop_wf loop1" "loop_entries loop1 = pre @ e # (map fst xs @ post @ new)"
      by auto
    define ret1 where "ret1 = (if is_ok hr then ret else hr)"
    define loop2 where "loop2 = (if ev_once e then drop_entry (ev_addr e) loop1 else loop1)"
    define w2 where "w2 = (if ev_once e then event_fd_destroy w1 else w1)"
    have rest: "serve_ready (tcp_handle other) xs ret1 loop2 (m1, server1) w2 = (r, loop', (m', server'), t)"
      using Cons.prems(1) x False h by (simp add: v_def ret1_def loop2_def w2_def)
    have "trades w1 w2 (tcp_holds loop1 server1) (tcp_holds loop2 server1)"
      using count_Event_fd_drop [OF l1(2,1), of w1 server1] by (simp add: w2_def loop2_def trades_balance)
    with st v have tr: "trades w w2 (tcp_holds loop server) (tcp_holds loop2 server1)"
      by (auto intro: trades_trans)
    have "loop_entries loop2 = (if ev_once e then pre else pre @ [e]) @ map fst xs @ (post @ new)"
      using drop_entry_wf(2) [OF l1] l1(2) by (simp add: loop2_def)
    with Cons.IH [OF rest _ _ _ this] st have "round_ok r loop' server' \<and> good (world.more t) \<and>
        tcp_accept_fd server' = tcp_accept_fd server1 \<and>
        trades w2 t (tcp_holds loop2 server1) (tcp_holds loop' server')"
      by (simp add: ret1_def loop2_def w2_def event_fd_destroy_def)
    with tr st show ?thesis by (auto intro: trades_trans)
  qed
qed

end

lemma round_ok_pending: "round_ok (Inr ()) loop server \<Longrightarrow> pending (loop_entries loop) server"
  by (auto simp: round_ok_def pending_def tcp_wf_def)

lemma round_ok_failed: "round_ok ret loop server \<Longrightarrow> round_ok (Inl e) loop server"
  by (simp add: round_ok_def)

context tcp_components
begin

lemma run_round:
  assumes run: "event_loop_run (tcp_handle other) reported loop (m, server) w = (r, loop', (m', server'), t)"
    and inv: "round_ok (Inr ()) loop server" "good (world.more w)"
  shows "round_ok r loop' server' \<and> good (world.more t) \<and> tcp_accept_fd server' = tcp_accept_fd server \<and>
    undef (trace t) = undef (trace w) \<and>
    (\<forall>q. q \<noteq> Mem ''pollfds'' \<longrightarrow> bal (trace t) q + int (count_list (tcp_holds loop server) q) =
       bal (trace w) q + int (count_list (tcp_holds loop' server') q))"
proof -
  have wf: "loop_wf loop" using inv(1) by (simp add: round_ok_def)
  from tcp_loop.run_cases [OF run wf] show ?thesis
  proof (elim disjE exE conjE)
    fix n
    assume "\<not> is_ok r" "loop' = loop" "(m', server') = (m, server)" "takes w t (replicate n (Mem ''pollfds''))"
    with inv round_ok_failed show ?thesis by (cases r) (auto simp: takes_def)
  next
    fix u v
    assume u: "takes w u [Mem ''pollfds'']" "still w u"
      and s: "serve_ready (tcp_handle other) (snapshot reported loop) (Inr ()) loop (m, server) u =
        (r, loop', (m', server'), v)" and t: "t = release (Mem ''pollfds'') v"
    have es: "map fst (snapshot reported loop) = loop_entries loop" by (simp add: snapshot_def)
    have "pending (map fst (snapshot reported loop)) server"
      unfolding es by (rule round_ok_pending [OF inv(1)])
    moreover have "good (world.more u)" using u inv(2) by (simp add: takes_def)
    moreover have "loop_entries loop = [] @ map fst (snapshot reported loop) @ []" by (simp add: es)
    ultimately have "round_ok r loop' server' \<and> good (world.more v) \<and>
      tcp_accept_fd server' = tcp_accept_fd server \<and>
      trades u v (tcp_holds loop server) (tcp_holds loop' server')"
      by (rule serve_round [OF s inv(1)])
    with u t show ?thesis by (auto simp: takes_def trades_def)
  qed
qed

end

end
