(* ===== verification/TcpSystem.thy ===== *)
theory TcpSystem
  imports TcpServer
begin

text \<open>
  The tcp server of \<open>src/tcp_server.c\<close> as it runs: the threads of its clients between the rounds
  of the event loop, what holds in every state it can reach, and shutting it down.
\<close>

section \<open>Threads and rounds\<close>

text \<open>
  The whole server as a transition system. A client's thread runs to its end and writes to its
  eventfd; a round of the event loop calls the handlers of what \<open>poll\<close> reports, which is a
  client's clean-up entry only if its thread wrote; a round that fails ends the loop. The
  threads and the rounds share no data of this component but what a client is created with, so
  they are taken as steps. \<open>admissible\<close> restricts what the peers send, and \<open>t_taken\<close> is what the handlers of the connections took in balance.
\<close>

record ('u, 's) tcp_state =
  t_loop :: "'u tcp_handler event_loop"
  t_server :: tcp_server
  t_sigs :: sigset
  t_world :: 's
  t_running :: bool
  t_ended :: "nat set"
  t_written :: "nat set"
  t_taken :: "resource \<Rightarrow> int"

definition may_report :: "nat set \<Rightarrow> 'u tcp_handler \<Rightarrow> bool" where
  "may_report written h \<longleftrightarrow> (case client_of h of None \<Rightarrow> True | Some addr \<Rightarrow> addr \<in> written)"

inductive tcp_step ::
  "(int \<Rightarrow> ('z world_scheme thread, unit) cfun) \<Rightarrow> ('u \<Rightarrow> ('z world_scheme, unit) cfun) \<Rightarrow>
     (int \<Rightarrow> 'z world_scheme \<Rightarrow> bool) \<Rightarrow>
     ('u, 'z world_scheme) tcp_state \<Rightarrow> ('u, 'z world_scheme) tcp_state \<Rightarrow> bool"
  for conn_handler other admissible where
  client_thread: "admissible (cl_conn_fd c) (t_world s) \<Longrightarrow> c \<in> set (client_queue (t_server s)) \<Longrightarrow> cl_addr c \<notin> t_ended s \<Longrightarrow>
     client_thread_func conn_handler c (t_world s) = (r, t) \<Longrightarrow>
     tcp_step conn_handler other admissible s
       (s\<lparr>t_world := t, t_ended := insert (cl_addr c) (t_ended s),
          t_written := (if is_ok r then insert (cl_addr c) (t_written s) else t_written s),
          t_taken := (\<lambda>q. t_taken s q + bal (trace t) q - bal (trace (t_world s)) q)\<rparr>)"
| round: "t_running s \<Longrightarrow>
     (\<And>i. i < length (loop_entries (t_loop s)) \<Longrightarrow> reported i \<noteq> 0 \<Longrightarrow>
        may_report (t_written s) (ev_handler (loop_entries (t_loop s) ! i))) \<Longrightarrow>
     event_loop_run (tcp_handle other) reported (t_loop s) (t_sigs s, t_server s) (t_world s) =
       (r, loop, (sigs, server), t) \<Longrightarrow>
     tcp_step conn_handler other admissible s
       (s\<lparr>t_loop := loop, t_server := server, t_sigs := sigs, t_world := t, t_running := is_ok r\<rparr>)"

definition tcp_initial :: "(resource \<Rightarrow> int) \<Rightarrow> ('u, 'z world_scheme) tcp_state \<Rightarrow> bool" where
  "tcp_initial held s \<longleftrightarrow> t_running s \<and> t_taken s = (\<lambda>_. 0) \<and> client_queue (t_server s) = [] \<and>
     loop_wf (t_loop s) \<and> client_addrs (loop_entries (t_loop s)) = [] \<and> undef (trace (t_world s)) = [] \<and>
     (\<forall>q. bal (trace (t_world s)) q = held q + int (count_list (tcp_holds (t_loop s) (t_server s)) q))"

inductive tcp_reachable ::
  "(int \<Rightarrow> ('z world_scheme thread, unit) cfun) \<Rightarrow> ('u \<Rightarrow> ('z world_scheme, unit) cfun) \<Rightarrow>
     (int \<Rightarrow> 'z world_scheme \<Rightarrow> bool) \<Rightarrow>
     ('u, 'z world_scheme) tcp_state \<Rightarrow> ('u, 'z world_scheme) tcp_state \<Rightarrow> bool"
  for conn_handler other admissible s0 where
  start: "tcp_reachable conn_handler other admissible s0 s0"
| step: "tcp_reachable conn_handler other admissible s0 s \<Longrightarrow> tcp_step conn_handler other admissible s s' \<Longrightarrow>
     tcp_reachable conn_handler other admissible s0 s'"

inductive_simps tcp_step_iff: "tcp_step conn_handler other admissible s s'"

definition tcp_inv :: "('z \<Rightarrow> bool) \<Rightarrow> (resource \<Rightarrow> int) \<Rightarrow> ('u, 'z world_scheme) tcp_state \<Rightarrow> bool" where
  "tcp_inv good held s \<longleftrightarrow>
     round_ok (if t_running s then Inr () else Inl (-1)) (t_loop s) (t_server s) \<and>
     good (world.more (t_world s)) \<and> undef (trace (t_world s)) = [] \<and>
     (\<forall>q. q \<noteq> Mem ''pollfds'' \<longrightarrow> bal (trace (t_world s)) q =
        held q + t_taken s q + int (count_list (tcp_holds (t_loop s) (t_server s)) q))"

lemma tcp_initial_inv:
  assumes "tcp_initial held s" "good (world.more (t_world s))"
  shows "tcp_inv good held s"
proof -
  have "client_of (ev_handler e) = None" if "e \<in> set (loop_entries (t_loop s))" for e
    using assms(1) that client_addrs_set [of _ "loop_entries (t_loop s)"]
    by (cases "client_of (ev_handler e)") (auto simp: tcp_initial_def)
  with assms show ?thesis by (auto simp: tcp_initial_def tcp_inv_def round_ok_def tcp_wf_def)
qed

context tcp_components
begin

lemma client_thread_good:
  assumes "client_thread_func conn_handler c w = (r, t)" "good (world.more w)"
    and adm: "admissible (cl_conn_fd c) w"
  shows "undef (trace t) = undef (trace w) \<and> good (world.more t)"
proof -
  obtain x m u where u: "bindE signal_block_sigterms (\<lambda>_. conn_handler (cl_conn_fd c)) (sigfillset, w) =
    (x, (m, u))" by (metis surj_pair)
  obtain y m1 v where v: "signal_set_mask_internal sigterms_mask (sigfillset, w) = (y, (m1, v))"
    by (metis surj_pair)
  from set_mask_spec [OF v] have v': "undef (trace v) = undef (trace w)" "good (world.more v)"
    "admissible (cl_conn_fd c) v"
    using assms(2) admissible_still [OF _ adm] by (simp_all add: takes_def)
  have "undef (trace u) = undef (trace w) \<and> good (world.more u)"
  proof (cases y)
    case (Inl e)
    with u v v' show ?thesis by (simp add: signal_block_sigterms_def bindE_def)
  next
    case (Inr old)
    with u v have "conn_handler (cl_conn_fd c) (m1, v) = (x, (m, u))"
      by (simp add: signal_block_sigterms_def bindE_def ok_def)
    from conn [OF this v'(2,3)] v'(1) show ?thesis by simp
  qed
  moreover have "t = used u"
    using assms(1) u by (auto simp: client_thread_func_def eventfd_write_def bindE_def sys_def ok_def split: if_splits)
  ultimately show ?thesis by simp
qed

lemma tcp_step_inv:
  assumes "tcp_step conn_handler other admissible s s'" "tcp_inv good held s"
  shows "tcp_inv good held s'"
  using assms(1)
proof cases
  case (client_thread c r t)
  with client_thread_good [OF client_thread(5)] assms(2) show ?thesis
    by (auto simp: tcp_inv_def)
next
  case (round reported r loop sigs server t)
  with run_round [OF round(4)] assms(2) have "round_ok r loop server" by (auto simp: tcp_inv_def)
  then have "round_ok (if is_ok r then Inr () else Inl (-1)) loop server"
    by (auto simp: round_ok_def)
  with run_round [OF round(4)] round assms(2) show ?thesis
    by (auto simp: tcp_inv_def)
qed

lemma tcp_reachable_inv:
  assumes "tcp_reachable conn_handler other admissible s0 s" "tcp_initial held s0" "good (world.more (t_world s0))"
  shows "tcp_inv good held s"
  using assms
  by (induction rule: tcp_reachable.induct) (auto intro: tcp_initial_inv tcp_step_inv)

end

section \<open>Shutting down\<close>

lemma event_loop_destroy_trades:
  fixes loop :: "'b event_loop"
  shows "trades w (event_loop_destroy loop w)
     (Mem ''event_loop'' # replicate (length (loop_entries loop)) Event_fd) []"
proof -
  have "undef (trace (event_fd_queue_destroy es w)) = undef (trace w) \<and>
    (\<forall>q. bal (trace (event_fd_queue_destroy es w)) q =
       bal (trace w) q - int (count_list (replicate (length es) Event_fd) q))" for es :: "'b event_fd list"
    by (induction es arbitrary: w) (auto simp: event_fd_destroy_def)
  from this [of "loop_entries loop"] show ?thesis by (simp add: event_loop_destroy_def trades_def)
qed

lemma client_queue_destroy_spec:
  "client_queue_destroy cs server w = (server', t) \<Longrightarrow> tcp_wf server \<Longrightarrow> client_queue server = cs \<Longrightarrow>
     client_queue server' = [] \<and> trades w t (concat (map client_blocks cs)) []"
proof (induction cs arbitrary: server w)
  case Nil
  then show ?case by (simp add: trades_balance)
next
  case (Cons c cs)
  obtain server1 w1 where d: "client_destroy (cl_addr c) server w = (server1, w1)" by (metis surj_pair)
  have "cl_addr c \<notin> cl_addr ` set cs" using Cons.prems(2,3) by (auto simp: tcp_wf_def)
  then have "filter (\<lambda>d. cl_addr d \<noteq> cl_addr c) cs = cs"
    by (intro filter_True) (metis image_eqI)
  then have q: "client_queue server1 = cs" and blocks: "trades w w1 (client_blocks c) []"
    using d Cons.prems(3)
    by (auto simp: client_destroy_def client_queue_remove_def trades_def client_blocks_def file_close_def)
  have "cl_addr c \<in> cl_addr ` set (client_queue server)" using Cons.prems(3) by simp
  with client_destroy_spec [OF d Cons.prems(2)] have "tcp_wf server1" by blast
  from Cons.IH [OF _ this q] Cons.prems(1) d
  have "client_queue server' = [] \<and> trades w1 t (concat (map client_blocks cs)) []" by simp
  with trades_append [OF blocks] show ?case by auto
qed

definition tcp_shutdown :: "('u, 'z world_scheme) tcp_state \<Rightarrow> 'z world_scheme" where
  "tcp_shutdown s = event_loop_destroy (t_loop s) (tcp_server_destroy (t_server s) (t_world s))"

lemma tcp_shutdown_spec:
  assumes "tcp_inv good held s"
  shows "undef (trace (tcp_shutdown s)) = [] \<and>
    (\<forall>q. q \<noteq> Mem ''pollfds'' \<longrightarrow> bal (trace (tcp_shutdown s)) q = held q + t_taken s q -
       int (count_list [Tcp_server, Desc (tcp_accept_fd (t_server s)), Mem ''event_loop''] q))"
proof -
  let ?w = "net_close (tcp_accept_fd (t_server s)) (t_world s)"
  obtain server' u where u: "client_queue_destroy (client_queue (t_server s)) (t_server s) ?w = (server', u)"
    by (metis surj_pair)
  have "tcp_wf (t_server s)" using assms by (simp add: tcp_inv_def round_ok_def)
  note cl = client_queue_destroy_spec [OF u this refl, THEN conjunct2]
  note lo = event_loop_destroy_trades [of "release Tcp_server u" "t_loop s"]
  have eq: "tcp_shutdown s = event_loop_destroy (t_loop s) (release Tcp_server u)"
    by (simp only: tcp_shutdown_def tcp_server_destroy_def u snd_conv)
  have un: "undef (trace (tcp_shutdown s)) = undef (trace (t_world s))"
    using cl lo by (simp add: trades_def eq)
  have e1: "bal (trace u) q = bal (trace ?w) q -
      int (count_list (concat (map client_blocks (client_queue (t_server s)))) q)" for q
    using cl by (simp add: trades_def eq_diff_eq)
  have e2: "bal (trace (tcp_shutdown s)) q = bal (trace (release Tcp_server u)) q -
      int (count_list (Mem ''event_loop'' # replicate (length (loop_entries (t_loop s))) Event_fd) q)" for q
    using lo by (simp only: trades_def eq eq_diff_eq) simp
  have b: "bal (trace (tcp_shutdown s)) q = bal (trace (t_world s)) q -
      int (count_list (tcp_holds (t_loop s) (t_server s)) q) -
      int (count_list [Tcp_server, Desc (tcp_accept_fd (t_server s)), Mem ''event_loop''] q)" for q
    by (simp add: e1 e2 tcp_holds_def)
  show ?thesis using assms by (auto simp: tcp_inv_def un b)
qed

end
