(* ===== verification/Samples.thy ===== *)
theory Samples
  imports Server
begin

text \<open>
  A concrete json-c and a concrete libsodium, on which the theorems about them are applied.
  Values are a datatype; their text is a program for a stack machine, one character per
  instruction, which the parser runs. The encoder pads its input to the length of base64.
  Both satisfy the documented behaviour the theorems ask for.
\<close>

datatype jval =
    JNull
  | JInt int
  | JStr string
  | JArr "jval list"
  | JObj "(string \<times> jval) list"

fun jval_type :: "jval \<Rightarrow> json_type" where
  "jval_type JNull = json_type_null"
| "jval_type (JInt i) = json_type_int"
| "jval_type (JStr s) = json_type_string"
| "jval_type (JArr vs) = json_type_array"
| "jval_type (JObj ms) = json_type_object"

fun jval_string :: "jval \<Rightarrow> string" where
  "jval_string (JStr s) = s"
| "jval_string _ = []"

fun jval_int :: "jval \<Rightarrow> int option" where
  "jval_int (JInt i) = (if in_int64 i then Some i else None)"
| "jval_int _ = None"

fun jval_get :: "jval \<Rightarrow> string \<Rightarrow> jval option" where
  "jval_get (JObj ms) k = map_of ms k"
| "jval_get _ k = None"

fun put_member :: "string \<Rightarrow> jval \<Rightarrow> (string \<times> jval) list \<Rightarrow> (string \<times> jval) list" where
  "put_member k v [] = [(k, v)]"
| "put_member k v ((l, x) # ms) = (if l = k then (k, v) # ms else (l, x) # put_member k v ms)"

fun jval_add :: "jval \<Rightarrow> string \<Rightarrow> jval \<Rightarrow> jval" where
  "jval_add (JObj ms) k v = JObj (put_member k v ms)"
| "jval_add x k v = x"

fun jval_append :: "jval \<Rightarrow> jval \<Rightarrow> jval" where
  "jval_append (JArr vs) v = JArr (vs @ [v])"
| "jval_append x v = x"

fun jval_elems :: "jval \<Rightarrow> jval list" where
  "jval_elems (JArr vs) = vs"
| "jval_elems _ = []"

section \<open>Text\<close>

definition quote_char :: "char \<Rightarrow> string" where
  "quote_char c = [CHR ''+'', c]"

fun jval_text :: "jval \<Rightarrow> string" where
  "jval_text JNull = ''n''"
| "jval_text (JInt i) = CHR ''i'' # replicate (nat \<bar>i\<bar>) (if i < 0 then CHR ''d'' else CHR ''u'')"
| "jval_text (JStr s) = CHR ''s'' # concat (map quote_char s)"
| "jval_text (JArr vs) = CHR ''a'' # concat (map (\<lambda>v. jval_text v @ '','') vs)"
| "jval_text (JObj ms) =
     CHR ''o'' # concat (map (\<lambda>m. CHR ''s'' # concat (map quote_char (fst m)) @ jval_text (snd m) @ '':'') ms)"

definition do_literal :: "char \<Rightarrow> jval list \<Rightarrow> jval list option" where
  "do_literal c st =
     (if c = CHR ''n'' then Some (JNull # st)
      else if c = CHR ''i'' then Some (JInt 0 # st)
      else if c = CHR ''s'' then Some (JStr [] # st)
      else if c = CHR ''a'' then Some (JArr [] # st)
      else if c = CHR ''o'' then Some (JObj [] # st)
      else if c = CHR ''u'' then (case st of JInt i # r \<Rightarrow> Some (JInt (i + 1) # r) | _ \<Rightarrow> None)
      else if c = CHR ''d'' then (case st of JInt i # r \<Rightarrow> Some (JInt (i - 1) # r) | _ \<Rightarrow> None)
      else if c = CHR '','' then
        (case st of v # JArr vs # r \<Rightarrow> Some (JArr (vs @ [v]) # r) | _ \<Rightarrow> None)
      else if c = CHR '':'' then
        (case st of v # JStr k # JObj ms # r \<Rightarrow> Some (JObj (ms @ [(k, v)]) # r) | _ \<Rightarrow> None)
      else None)"

fun jval_run :: "string \<Rightarrow> jval list \<Rightarrow> jval option" where
  "jval_run [] st = (case st of [v] \<Rightarrow> Some v | _ \<Rightarrow> None)"
| "jval_run [c] st = (case do_literal c st of Some st' \<Rightarrow> jval_run [] st' | None \<Rightarrow> None)"
| "jval_run (c # d # cs) st =
     (if c = CHR ''+''
      then (case st of JStr s # r \<Rightarrow> jval_run cs (JStr (s @ [d]) # r) | _ \<Rightarrow> None)
      else (case do_literal c st of Some st' \<Rightarrow> jval_run (d # cs) st' | None \<Rightarrow> None))"

lemma run_literal:
  "c \<noteq> CHR ''+'' \<Longrightarrow> jval_run (c # cs) st =
     (case do_literal c st of Some st' \<Rightarrow> jval_run cs st' | None \<Rightarrow> None)"
  by (cases cs) (auto split: option.split)

lemma run_char: "jval_run (CHR ''+'' # d # cs) (JStr s # st) = jval_run cs (JStr (s @ [d]) # st)"
  by simp

declare jval_run.simps [simp del]
declare run_literal [simp] run_char [simp] do_literal_def [simp]

lemma run_string: "jval_run (concat (map quote_char s) @ cs) (JStr a # st) = jval_run cs (JStr (a @ s) # st)"
  by (induction s arbitrary: a) (simp_all add: quote_char_def)

lemma run_up: "jval_run (replicate n (CHR ''u'') @ cs) (JInt i # st) = jval_run cs (JInt (i + int n) # st)"
  by (induction n arbitrary: i) (simp_all add: algebra_simps)

lemma run_down: "jval_run (replicate n (CHR ''d'') @ cs) (JInt i # st) = jval_run cs (JInt (i - int n) # st)"
  by (induction n arbitrary: i) (simp_all add: algebra_simps)

lemma run_text: "jval_run (jval_text v @ cs) st = jval_run cs (v # st)"
proof (induction v arbitrary: cs st)
  case (JInt i)
  show ?case by (simp add: run_up run_down)
next
  case (JStr s)
  show ?case by (simp add: run_string)
next
  case (JArr vs)
  have "jval_run (concat (map (\<lambda>v. jval_text v @ '','') vs) @ cs) (JArr us # st) =
    jval_run cs (JArr (us @ vs) # st)" for us
    using JArr by (induction vs arbitrary: us) simp_all
  then show ?case by simp
next
  case (JObj ms)
  have "jval_run (concat (map (\<lambda>m. CHR ''s'' # concat (map quote_char (fst m)) @ jval_text (snd m) @ '':'') ms) @ cs)
      (JObj us # st) = jval_run cs (JObj (us @ ms) # st)" for us
    using JObj
  proof (induction ms arbitrary: us)
    case (Cons m ms)
    have "jval_run (jval_text (snd m) @ ds) st = jval_run ds (snd m # st)" for ds st
      using Cons.prems [of m "snd m"] by (cases m) simp
    moreover have "jval_run (concat (map (\<lambda>m. CHR ''s'' # concat (map quote_char (fst m)) @
        jval_text (snd m) @ '':'') ms) @ cs) (JObj vs # st) = jval_run cs (JObj (vs @ ms) # st)" for vs
    proof (rule Cons.IH)
      fix p v' ds st'
      assume "p \<in> set ms" "v' \<in> Basic_BNFs.snds p"
      then show "jval_run (jval_text v' @ ds) st' = jval_run ds (v' # st')"
        by (intro Cons.prems [of p v']) simp_all
    qed
    ultimately show ?case
      by (cases m) (simp add: run_string [of _ _ "[]", simplified])
  qed simp
  then show ?case by simp
qed simp

section \<open>The two libraries\<close>

definition sample_json :: "jval jsonc" where
  "sample_json =
     \<lparr>new_object = JObj [], new_array = JArr [], new_string = JStr, new_int64 = JInt,
      json_null = JNull, is_type = (\<lambda>v ty. jval_type v = ty), get_string = jval_string,
      get_int64 = jval_int, object_get_ex = jval_get, object_add_ex = jval_add,
      array_add = jval_append, array_elems = jval_elems, deep_copy = (\<lambda>v. v),
      to_json_string = jval_text, to_json_string_pretty = jval_text,
      tokener_parse = (\<lambda>s. jval_run s [])\<rparr>"

lemma put_member_lookup: "map_of (put_member k v ms) l = (if l = k then Some v else map_of ms l)"
  by (induction ms) auto

lemma sample_json_ok: "jsonc_ok sample_json"
proof -
  have "jval_get v k = None" if "jval_type v \<noteq> json_type_object" for v k
    using that by (cases v) auto
  moreover have "jval_type (jval_add v k x) = jval_type v" for v k x by (cases v) auto
  moreover have "jval_get (jval_add v k x) l = (if l = k then Some x else jval_get v l)"
    if "jval_type v = json_type_object" for v k x l
    using that by (cases v) (auto simp: put_member_lookup)
  moreover have "jval_type (jval_append v x) = jval_type v" for v x by (cases v) auto
  moreover have "jval_elems (jval_append v x) = jval_elems v @ [x]"
    if "jval_type v = json_type_array" for v x
    using that by (cases v) auto
  ultimately show ?thesis
    by (auto simp: jsonc_ok_def sample_json_def)
qed

lemma sample_wire:
  "NUL \<notin> set (jval_text v) \<Longrightarrow> length (jval_text v) + 1 < 2 ^ 32 \<Longrightarrow> wire_ok sample_json v"
  using run_text [of v "[]" "[]"]
  by (simp add: wire_ok_def sample_json_def jval_run.simps)

definition sample_sodium :: sodium where
  "sample_sodium =
     \<lparr>bin2base64 = (\<lambda>bs. if bs = [] then []
        else bs @ CHR ''='' # replicate ((length bs + 2) div 3 * 4 - length bs - 1) (CHR ''-'')),
      base642bin = (\<lambda>m s. let bs = rev (tl (dropWhile (\<lambda>c. c = CHR ''-'') (rev s)))
        in if length bs \<le> m then Some bs else None)\<rparr>"

lemma dropWhile_replicate: "dropWhile (\<lambda>c. c = a) (replicate n a @ xs) = dropWhile (\<lambda>c. c = a) xs"
  by (induction n) simp_all

lemma sample_sodium_ok: "sodium_ok sample_sodium"
proof -
  have len: "length (bin2base64 sample_sodium bs) = (length bs + 2) div 3 * 4" for bs
  proof (cases bs)
    case (Cons b cs)
    then have "0 < length bs" by simp
    then have "length bs < (length bs + 2) div 3 * 4" by presburger
    with Cons show ?thesis by (simp add: sample_sodium_def)
  qed (simp add: sample_sodium_def)
  have "base642bin sample_sodium m (bin2base64 sample_sodium bs) = Some bs" if "length bs \<le> m" for bs m
    using that
    by (cases "bs = []") (simp_all add: sample_sodium_def dropWhile_replicate Let_def)
  with len show ?thesis by (simp add: sodium_ok_def)
qed

text \<open>A server right after it was created on an empty database.\<close>

definition sample_server :: server_world where
  "sample_server = \<lparr>answers = [], trace = [], rx = (\<lambda>_. []), rpc_id = 0,
     sqldb = fresh_database, srv_stopping = False, srv_workers = [], srv_runs = []\<rparr>"

definition sample_run :: run where
  "sample_run = \<lparr>run_id = 1, repo_url = ''url'', repo_rev = ''rev'',
     run_status = RUN_STATUS_CREATED, run_exit_code = -1\<rparr>"

section \<open>A server with one request waiting\<close>

definition serving :: "jval \<Rightarrow> server_world" where
  "serving v = sample_server\<lparr>rx := (\<lambda>_. message sample_json v), sqldb := sample_db\<rparr>"

lemma serving_facts:
  "lucky (serving v)" "reliable (serving v)" "db_ok (sqldb (serving v))" "db_wf (sqldb (serving v))"
  "room (sqldb (serving v))" "sqldb (serving v) = sample_db" "srv_runs (serving v) = []"
  "rx (serving v) d = message sample_json v @ []" "sent d (trace (serving v)) = []"
  "entries (sqldb (serving v)) = [created_run 1 ''url'' ''r1'']"
  "trace (serving v) = []"
  using sample_db_facts(1,2,4) by (simp_all add: serving_def sample_server_def lucky_def reliable_def db_ok_wf)

definition sample_queue_run :: jval where
  "sample_queue_run = req_impl (queue_run_request sample_json 7 sample_run)"

lemma sample_queue_run:
  "wire_ok sample_json sample_queue_run" "valid_request sample_json sample_queue_run"
  "object_get_ex sample_json sample_queue_run ''id'' = Some (JInt 7)"
proof -
  show "wire_ok sample_json sample_queue_run"
    by (rule sample_wire)
      (simp_all add: sample_queue_run_def queue_run_request_def with_param_def update_params_def
        params_of_def request_object_def sample_json_def sample_run_def Let_def quote_char_def NUL_def)
  show "valid_request sample_json sample_queue_run"
    using built_own(1) [OF sample_json_ok] by (simp add: sample_queue_run_def own_request_def)
  show "object_get_ex sample_json sample_queue_run ''id'' = Some (JInt 7)"
    by (simp add: sample_queue_run_def queue_run_request_def built_lookup sample_json_ok)
      (simp add: sample_json_def)
qed

lemma sample_server_reliable: "reliable (sample_server\<lparr>rpc_id := i\<rparr>)" "reliable sample_server"
  by (simp_all add: sample_server_def reliable_def)

lemmas sample_text = queue_run_request_def start_run_request_def finished_run_request_def
  with_param_def update_params_def params_of_def request_object_def sample_json_def sample_sodium_def
  sample_run_def quote_char_def NUL_def output_bytes_def Let_def

end
