(* ===== verification/Lifecycle.thy ===== *)
theory Lifecycle
  imports Command EventLoop Signals
begin

text \<open>
  What the functions that create and destroy the server and the worker share: a chain of clean-up
  labels, each of which falls through to the ones after it, what the labels give back, and the
  accounts of a creation that fails on the way.
\<close>

section \<open>Labels\<close>

text \<open>\<open>goto f label\<close>: on an error go to a label, otherwise go on.\<close>

fun or_goto :: "(int + 'a) \<times> 's \<Rightarrow> ('s \<Rightarrow> 's) \<Rightarrow> ('a \<Rightarrow> 's \<Rightarrow> (int + 'b) \<times> 's) \<Rightarrow> (int + 'b) \<times> 's" where
  "or_goto (Inl e, w) label k = (Inl e, label w)"
| "or_goto (Inr x, w) label k = k x w"

text \<open>A call that takes \<open>rs\<close>, or fails and takes nothing.\<close>

definition all_or_none :: "('z world_scheme, 'a) cfun \<Rightarrow> resource list \<Rightarrow> bool" where
  "all_or_none f rs \<longleftrightarrow>
     (\<forall>w r t. f w = (r, t) \<longrightarrow> takes w t (if is_ok r then rs else []) \<and> still w t)"

lemma all_or_noneD:
  "all_or_none f rs \<Longrightarrow> f w = (r, t) \<Longrightarrow> takes w t (if is_ok r then rs else []) \<and> still w t"
  by (simp add: all_or_none_def)

lemma all_or_none_yields:
  assumes "yields f [] rs x"
  shows "all_or_none f rs"
  unfolding all_or_none_def
proof (intro allI impI)
  fix w r t
  assume "f w = (r, t)"
  from meetsD [OF yields_meets [OF assms] this]
  show "takes w t (if is_ok r then rs else []) \<and> still w t" by blast
qed

lemma all_or_none_onErr:
  assumes f: "all_or_none f rs" and g: "\<And>x. all_or_none (g x) qs" and c: "gives_back c rs"
  shows "all_or_none (bindE f (\<lambda>x. onErr (g x) c)) (rs @ qs)"
  unfolding all_or_none_def
proof (intro allI impI)
  fix w r t
  assume run: "bindE f (\<lambda>x. onErr (g x) c) w = (r, t)"
  obtain a u where u: "f w = (a, u)" by (cases "f w")
  show "takes w t (if is_ok r then rs @ qs else []) \<and> still w t"
  proof (cases a)
    case (Inl e)
    with run u all_or_noneD [OF f u] show ?thesis by (auto simp: bindE_def)
  next
    case (Inr x)
    obtain b v where v: "g x u = (b, v)" by (cases "g x u")
    with run u Inr have "r = b" "t = (if is_ok b then v else c v)"
      by (auto simp: bindE_def onErr_def split: sum.splits)
    with all_or_noneD [OF f u] all_or_noneD [OF g v] gives_backD [OF c, of v] Inr show ?thesis
      by (auto simp: takes_def swaps_def still_def split: if_splits)
  qed
qed

section \<open>Giving back\<close>

lemma gives_back_alt:
  "gives_back c rs \<longleftrightarrow>
     (\<forall>w. world.more (c w) = world.more w \<and> undef (trace (c w)) = undef (trace w) \<and> still w (c w) \<and>
        (\<forall>q. bal (trace (c w)) q = bal (trace w) q - int (count_list rs q)) \<and>
        (reliable w \<longrightarrow> reliable (c w)) \<and> (lucky w \<longrightarrow> lucky (c w)))"
  by (auto simp: gives_back_def swaps_def eq_diff_eq)

lemma gives_back_at:
  "gives_back c rs \<Longrightarrow> world.more (c w) = world.more w \<and> undef (trace (c w)) = undef (trace w) \<and> still w (c w) \<and>
     (\<forall>q. bal (trace (c w)) q = bal (trace w) q - int (count_list rs q)) \<and>
     (reliable w \<longrightarrow> reliable (c w)) \<and> (lucky w \<longrightarrow> lucky (c w))"
  by (simp add: gives_back_alt)

lemma gives_back_comp:
  assumes "gives_back c rs" "gives_back d qs"
  shows "gives_back (\<lambda>w. d (c w)) (rs @ qs)"
  using assms unfolding gives_back_alt by (auto intro: still_trans)

lemma gives_back_mset: "gives_back c rs \<Longrightarrow> mset rs = mset qs \<Longrightarrow> gives_back c qs"
  by (auto simp: gives_back_def swaps_def simp flip: count_mset)

lemma gives_back_used: "gives_back used []"
  by (auto simp: gives_back_def swaps_def still_def)

lemma gives_back_event_loop:
  fixes loop :: "'b event_loop"
  shows "gives_back (event_loop_destroy loop)
    (replicate (length (loop_entries loop)) Event_fd @ [Mem ''event_loop''])"
proof -
  have "gives_back (event_fd_queue_destroy es) (replicate (length es) Event_fd)" for es :: "'b event_fd list"
  proof (induction es)
    case (Cons e es)
    have eq: "event_fd_queue_destroy (e # es) = (\<lambda>w. event_fd_queue_destroy es (release Event_fd w))"
      by (simp add: fun_eq_iff event_fd_destroy_def)
    show ?case unfolding eq using gives_back_comp [OF gives_back_release Cons.IH] by simp
  qed (simp add: gives_back_alt)
  from gives_back_comp [OF this gives_back_release]
  show ?thesis by (simp add: event_loop_destroy_def [abs_def])
qed

definition dispatcher_blocks :: "('j, 'a, 's, 'c) cmd_dispatcher \<Rightarrow> resource list" where
  "dispatcher_blocks d =
     replicate (length (disp_cmds d)) (Mem ''cmd_name'') @ [Mem ''cmds'', Mem ''cmd_dispatcher'']"

lemma gives_back_dispatcher:
  fixes d :: "('j, 'a, 's, 'c) cmd_dispatcher"
  shows "gives_back (cmd_dispatcher_destroy d) (dispatcher_blocks d)"
proof -
  have "gives_back (free_cmds cs) (replicate (length cs) (Mem ''cmd_name''))"
    for cs :: "('j, 'a, 's) cmd_desc list"
  proof (induction cs)
    case (Cons c cs)
    have eq: "free_cmds (c # cs) = (\<lambda>w. free_cmds cs (release (Mem ''cmd_name'') w))"
      by (simp add: fun_eq_iff free_cmd_def)
    show ?case unfolding eq using gives_back_comp [OF gives_back_release Cons.IH] by simp
  qed (simp add: gives_back_alt)
  from gives_back_comp [OF gives_back_comp [OF this gives_back_release] gives_back_release]
  show ?thesis by (simp add: cmd_dispatcher_destroy_def [abs_def] dispatcher_blocks_def)
qed

lemma gives_back_close: "gives_back (file_close fd) [Desc fd]" "gives_back (signalfd_destroy fd) [Desc fd]"
  by (auto simp: gives_back_alt file_close_def signalfd_destroy_def still_def)

section \<open>Taking\<close>

lemma or_goto_cases:
  assumes "or_goto x label k = (r, t)"
  obtains (err) e u where "x = (Inl e, u)" "r = Inl e" "t = label u"
  | (go) a u where "x = (Inr a, u)" "k a u = (r, t)"
  using assms by (cases x; cases "fst x") auto

text \<open>All balances but those of the two kinds of object that are known to leak.\<close>

definition even :: "'z world_scheme \<Rightarrow> 'z world_scheme \<Rightarrow> bool" where
  "even w t \<longleftrightarrow> undef (trace t) = undef (trace w) \<and>
     (\<forall>q. q \<notin> {Lib ''sqlite3'', Mem ''cmd_name''} \<longrightarrow> bal (trace t) q = bal (trace w) q)"

text \<open>\<open>undone w t\<close>: an undefined step was taken, or everything was given back.\<close>

definition undone :: "'z world_scheme \<Rightarrow> 'z world_scheme \<Rightarrow> bool" where
  "undone w t \<longleftrightarrow> undef (trace t) \<noteq> undef (trace w) \<or> even w t"

lemma undone_after:
  assumes "takes w u rs" "undone u v" "gives_back c rs"
  shows "undone w (c v)"
  using assms by (auto simp: undone_def even_def takes_def gives_back_alt)

lemma undone_calm: "calm w t \<Longrightarrow> undone w t"
  by (simp add: undone_def even_def takes_def)

lemma dispatcher_create_spec:
  assumes "cmd_dispatcher_create cmds c w = (r, t)"
  shows "world.more t = world.more w \<and>
    (case r of Inl e \<Rightarrow> e < 0 \<and> even w t
     | Inr d \<Rightarrow> d = \<lparr>disp_cmds = cmds, disp_ctx = c\<rparr> \<and> takes w t (dispatcher_blocks d))"
proof (cases "answer w < 0")
  case True
  with assms show ?thesis by (auto simp: cmd_dispatcher_create_def bindE_def alloc_def even_def)
next
  case False
  define w1 where "w1 = emit (Acquire (Mem ''cmd_dispatcher'')) (used w)"
  show ?thesis
  proof (cases "answer w1 < 0")
    case True
    with False assms show ?thesis
      by (auto simp: cmd_dispatcher_create_def bindE_def alloc_def onErr_def even_def simp flip: w1_def)
        (auto simp: w1_def)
  next
    case ok1: False
    define w2 where "w2 = emit (Acquire (Mem ''cmds'')) (used w1)"
    have w2: "takes w w2 [Mem ''cmd_dispatcher'', Mem ''cmds'']" by (simp add: w2_def w1_def takes_def)
    obtain a u where u: "copy_cmds_loop [] cmds w2 = (a, u)" by (cases "copy_cmds_loop [] cmds w2")
    have t: "r = (case a of Inl e \<Rightarrow> Inl e | Inr cs \<Rightarrow> Inr \<lparr>disp_cmds = cs, disp_ctx = c\<rparr>)"
      "t = (case a of Inl e \<Rightarrow> release (Mem ''cmd_dispatcher'') (release (Mem ''cmds'') u) | Inr _ \<Rightarrow> u)"
      using assms False ok1 u
      by (cases a; simp add: cmd_dispatcher_create_def copy_cmds_def bindE_def alloc_def onErr_def ok_def
          flip: w1_def w2_def)+
    from copy_cmds_loop_spec [OF u] w2 show ?thesis
      by (auto simp: t takes_def even_def dispatcher_blocks_def count_list_0_iff)
  qed
qed

text \<open>\<open>pays w t cs\<close>: an undefined step was taken, or exactly \<open>cs\<close> was given back.\<close>

definition pays :: "'z world_scheme \<Rightarrow> 'z world_scheme \<Rightarrow> resource list \<Rightarrow> bool" where
  "pays w t cs \<longleftrightarrow> undef (trace t) \<noteq> undef (trace w) \<or> undef (trace t) = undef (trace w) \<and>
     (\<forall>q. q \<notin> {Lib ''sqlite3'', Mem ''cmd_name''} \<longrightarrow>
        bal (trace t) q = bal (trace w) q - int (count_list cs q))"

lemma pays_label: "undone w u \<Longrightarrow> gives_back c cs \<Longrightarrow> pays w (c u) cs"
  by (auto simp: pays_def undone_def even_def gives_back_alt)

lemma pays_labels:
  assumes "takes w u rs" "gives_back c rs" "gives_back d cs"
  shows "pays w (d (c u)) cs"
  using assms by (simp add: pays_def takes_def gives_back_alt)

lemma in_world_eq: "in_world f (m, w) = (r, (m', t)) \<longleftrightarrow> f w = (r, t) \<and> m' = m"
  by (auto simp: in_world_def split: prod.splits)

text \<open>\<open>got w u rs\<close>: exactly \<open>rs\<close> was taken since \<open>w\<close>.\<close>

definition got :: "'z world_scheme \<Rightarrow> 'z world_scheme \<Rightarrow> resource list \<Rightarrow> bool" where
  "got w u rs \<longleftrightarrow> undef (trace u) = undef (trace w) \<and>
     (\<forall>q. bal (trace u) q = bal (trace w) q + int (count_list rs q))"

lemma got_takes: "got w u rs \<Longrightarrow> takes u v qs \<Longrightarrow> got w v (qs @ rs)"
  by (simp add: got_def takes_def)

lemma got_label:
  assumes "got w u rs" "even u v" "gives_back c rs"
  shows "pays w (c v) []"
  using assms by (simp add: pays_def got_def even_def gives_back_alt)

lemma got_pays: "got w u rs \<Longrightarrow> pays u t rs \<Longrightarrow> pays w t []"
  by (auto simp: got_def pays_def)

lemma calm_even: "calm u v \<Longrightarrow> even u v"
  by (simp add: takes_def even_def)

end
