(* ===== verification/ServerMain.thy ===== *)
theory ServerMain
  imports ServerCommands TcpSystem Samples Lifecycle
begin

text \<open>
  The rest of \<open>src/server.c\<close>: creating a server from all its parts, the loop of the listening
  thread, and destroying it. The connections are served by \<open>cmd_dispatcher_handle_conn\<close>, and the
  descriptor of the termination signals calls \<open>server_set_stopping\<close>.
\<close>

section \<open>The parts of a server\<close>

text \<open>The fields of \<open>struct server\<close> that the threads do not share.\<close>

type_synonym ('j, 's) server_dispatcher = "('j, unit cmd_conn_ctx, 's, unit) cmd_dispatcher"

type_synonym server_loop = "unit tcp_handler event_loop"

record ('j, 's) server_parts =
  sp_dispatcher :: "('j, 's) server_dispatcher"
  sp_loop :: server_loop
  sp_signalfd :: int
  sp_tcp_server :: tcp_server

abbreviation Server :: resource where "Server \<equiv> Mem ''server''"
abbreviation Mutex :: resource where "Mutex \<equiv> Lib ''pthread_mutex''"
abbreviation Cond :: resource where "Cond \<equiv> Lib ''pthread_cond''"

definition pthread_init :: "resource \<Rightarrow> ('z world_scheme, unit) cfun" where
  "pthread_init r = bindE lib (\<lambda>_. andThen (emit (Acquire r)) (ok ()))"

definition pthread_destroy :: "resource \<Rightarrow> 'z world_scheme \<Rightarrow> 'z world_scheme" where
  "pthread_destroy r w = release r (used w)"

definition server_handle :: "(unit tcp_handler, sigset \<times> tcp_server, 'z server_world_scheme) event_handler" where
  "server_handle = tcp_handle (\<lambda>_. server_set_stopping)"

definition server_conn_handler ::
  "'j jsonc \<Rightarrow> ('j, 'z world_scheme) server_dispatcher \<Rightarrow> int \<Rightarrow> ('z world_scheme thread, unit) cfun" where
  "server_conn_handler J dispatcher fd = in_world (cmd_dispatcher_handle_conn J fd dispatcher)"

section \<open>Creation\<close>

text \<open>The labels at the end of \<open>server_create\<close>, each falling through to the ones above it.\<close>

definition free_server :: "'z world_scheme \<Rightarrow> 'z world_scheme" where
  "free_server w = release Server w"

definition destroy_mtx :: "'z world_scheme \<Rightarrow> 'z world_scheme" where
  "destroy_mtx w = free_server (pthread_destroy Mutex w)"

definition destroy_cv :: "'z world_scheme \<Rightarrow> 'z world_scheme" where
  "destroy_cv w = destroy_mtx (pthread_destroy Cond w)"

definition destroy_cmd_dispatcher :: "('j, 'a, 's, 'c) cmd_dispatcher \<Rightarrow> 'z world_scheme \<Rightarrow> 'z world_scheme" where
  "destroy_cmd_dispatcher d w = destroy_cv (cmd_dispatcher_destroy d w)"

definition destroy_event_loop ::
  "('j, 'a, 's, 'c) cmd_dispatcher \<Rightarrow> server_loop \<Rightarrow> 'z world_scheme \<Rightarrow> 'z world_scheme" where
  "destroy_event_loop d loop w = destroy_cmd_dispatcher d (event_loop_destroy loop w)"

definition close_signalfd ::
  "('j, 'a, 's, 'c) cmd_dispatcher \<Rightarrow> server_loop \<Rightarrow> int \<Rightarrow> 'z world_scheme \<Rightarrow> 'z world_scheme" where
  "close_signalfd d loop sfd w = destroy_event_loop d loop (signalfd_destroy sfd w)"

definition destroy_worker_queue ::
  "('j, 'a, 's, 'c) cmd_dispatcher \<Rightarrow> server_loop \<Rightarrow> int \<Rightarrow> 'z server_world_scheme \<Rightarrow> 'z server_world_scheme" where
  "destroy_worker_queue d loop sfd w = close_signalfd d loop sfd (worker_queue_destroy (srv_workers w) w)"

definition destroy_storage ::
  "('j, 'a, 's, 'c) cmd_dispatcher \<Rightarrow> server_loop \<Rightarrow> int \<Rightarrow> 'z server_world_scheme \<Rightarrow> 'z server_world_scheme" where
  "destroy_storage d loop sfd w = destroy_worker_queue d loop sfd (storage_destroy STORAGE_TYPE_SQLITE w)"

definition destroy_run_queue ::
  "('j, 'a, 's, 'c) cmd_dispatcher \<Rightarrow> server_loop \<Rightarrow> int \<Rightarrow> 'z server_world_scheme \<Rightarrow> 'z server_world_scheme" where
  "destroy_run_queue d loop sfd w = destroy_storage d loop sfd (run_queue_destroy (srv_runs w) w)"

definition destroy_tcp_server ::
  "('j, 'a, 's, 'c) cmd_dispatcher \<Rightarrow> server_loop \<Rightarrow> int \<Rightarrow> tcp_server \<Rightarrow> 'z server_world_scheme \<Rightarrow>
     'z server_world_scheme" where
  "destroy_tcp_server d loop sfd tcp w = destroy_run_queue d loop sfd (tcp_server_destroy tcp w)"

text \<open>\<open>storage_create\<close> with the settings it is given, which are destroyed right after it.\<close>

definition open_storage :: "string \<Rightarrow> ('z db_world_scheme, int) cfun" where
  "open_storage path =
     bindE (storage_sqlite_settings_create path) (\<lambda>_.
       after (storage_create STORAGE_TYPE_SQLITE) (storage_settings_destroy STORAGE_TYPE_SQLITE))"

text \<open>From the storage on; everything before it is in the loop and the dispatcher.\<close>

definition server_create_rest ::
  "addrinfo list option \<Rightarrow> string \<Rightarrow> ('j, 'z server_world_scheme) server_dispatcher \<Rightarrow> server_loop \<Rightarrow> int \<Rightarrow>
     ('z server_world_scheme, ('j, 'z server_world_scheme) server_parts) cfun" where
  "server_create_rest port path d loop sfd w =
     or_goto (open_storage path (w\<lparr>srv_workers := worker_queue_create\<rparr>)) (destroy_worker_queue d loop sfd) (\<lambda>_ w1.
     or_goto (storage_get_run_queue STORAGE_TYPE_SQLITE w1) (destroy_storage d loop sfd) (\<lambda>runs w2.
     or_goto (tcp_server_create port loop (w2\<lparr>srv_runs := runs\<rparr>)) (destroy_run_queue d loop sfd) (\<lambda>(tcp, loop1) w3.
     or_goto (pthread_init Thread w3) (destroy_tcp_server d loop1 sfd tcp) (\<lambda>_ w4.
       (Inr \<lparr>sp_dispatcher = d, sp_loop = loop1, sp_signalfd = sfd, sp_tcp_server = tcp\<rparr>, w4)))))"

definition server_create ::
  "'j jsonc \<Rightarrow> sodium \<Rightarrow> addrinfo list option \<Rightarrow> string \<Rightarrow>
     ('z server_world_scheme thread, ('j, 'z server_world_scheme) server_parts) cfun" where
  "server_create J S port path =
     bindE (in_world (alloc Server)) (\<lambda>_ m.
     or_goto (in_world (pthread_init Mutex) m) (map_prod id free_server) (\<lambda>_ m.
     or_goto (in_world (pthread_init Cond) m) (map_prod id destroy_mtx) (\<lambda>_ m.
     or_goto (in_world (cmd_dispatcher_create (server_commands J S) ())
         (map_prod id (\<lambda>w. w\<lparr>srv_stopping := False\<rparr>) m)) (map_prod id destroy_cv) (\<lambda>d m.
     or_goto (in_world event_loop_create m) (map_prod id (destroy_cmd_dispatcher d)) (\<lambda>loop m.
     or_goto (signalfd_create_sigterms m) (map_prod id (destroy_event_loop d loop)) (\<lambda>sfd m.
     or_goto (in_world (event_loop_add loop sfd POLLIN (Other_handler ())) m)
         (map_prod id (close_signalfd d loop sfd)) (\<lambda>loop m.
       in_world (server_create_rest port path d loop sfd) m)))))))"

section \<open>Destruction\<close>

text \<open>\<open>pthread_join\<close> waits for the main thread to return.\<close>

definition server_destroy ::
  "('j, 's) server_parts \<Rightarrow> 'z server_world_scheme \<Rightarrow> 'z server_world_scheme" where
  "server_destroy p w =
     (let w1 = tcp_server_destroy (sp_tcp_server p) (release Thread (used w));
          w2 = storage_destroy STORAGE_TYPE_SQLITE w1;
          w3 = run_queue_destroy (srv_runs w2) w2;
          w4 = worker_queue_destroy (srv_workers w3) w3;
          w5 = signalfd_destroy (sp_signalfd p) w4;
          w6 = event_loop_destroy (sp_loop p) w5;
          w7 = cmd_dispatcher_destroy (sp_dispatcher p) w6
      in release Server (pthread_destroy Mutex (pthread_destroy Cond w7)))"

section \<open>The listening thread\<close>

text \<open>
  Each element of the list is one time around the loop: what the other threads do before the
  test of \<open>stopping\<close>, and what \<open>poll\<close> then reports. The result is \<open>None\<close> if the loop is still
  running at the end of the list.
\<close>

fun server_listen_thread ::
  "(('z server_world_scheme \<Rightarrow> 'z server_world_scheme) \<times> (nat \<Rightarrow> 16 word)) list \<Rightarrow> server_loop \<Rightarrow>
     sigset \<times> tcp_server \<Rightarrow> 'z server_world_scheme \<Rightarrow>
     ((int + unit) \<times> server_loop \<times> (sigset \<times> tcp_server) \<times> 'z server_world_scheme) option" where
  "server_listen_thread [] loop a w = None"
| "server_listen_thread ((others, reported) # rest) loop a w =
     (let w1 = others w
      in if srv_stopping w1 then Some (Inr (), loop, a, w1)
         else
           (case event_loop_run server_handle reported loop a w1 of
              (Inl e, loop1, a1, w2) \<Rightarrow> Some (Inl e, loop1, a1, w2)
            | (Inr _, loop1, a1, w2) \<Rightarrow> server_listen_thread rest loop1 a1 w2))"

definition server_main ::
  "(('z server_world_scheme \<Rightarrow> 'z server_world_scheme) \<times> (nat \<Rightarrow> 16 word)) list \<Rightarrow> server_loop \<Rightarrow>
     sigset \<times> tcp_server \<Rightarrow> 'z server_world_scheme \<Rightarrow>
     ((int + unit) \<times> server_loop \<times> (sigset \<times> tcp_server) \<times> 'z server_world_scheme) option" where
  "server_main rounds loop a w = server_listen_thread rounds loop a w"

section \<open>The tcp server serves the commands\<close>

definition served :: "'j jsonc \<Rightarrow> sodium \<Rightarrow> ('j, 'z server_world_scheme) server_dispatcher" where
  "served J S = \<lparr>disp_cmds = server_commands J S, disp_ctx = ()\<rparr>"

lemma set_stopping_run:
  assumes "server_set_stopping w = (r, t)"
  shows "undef (trace t) = undef (trace w) \<and> bal (trace t) = bal (trace w) \<and> sqldb t = sqldb w \<and>
    srv_stopping t = (srv_stopping w \<or> is_ok r)"
  using assms
  by (auto simp: server_set_stopping_def server_lock_def server_unlock_def server_notify_def bindE_def lib_def
      andThen_def ok_def fun_eq_iff split: if_splits)

interpretation server_tcp: tcp_components "server_conn_handler J (served J S)" "\<lambda>_. server_set_stopping"
  "\<lambda>m. jsonc_ok J \<and> server_good m" "\<lambda>fd w. \<not> unterminated w fd" for J S
proof (unfold_locales, goal_cases)
  case (1 fd m w r m' t)
  then have "cmd_dispatcher_handle_conn J fd \<lparr>disp_cmds = server_commands J S, disp_ctx = ()\<rparr> w = (r, t)"
    by (auto simp: server_conn_handler_def in_world_def served_def split: prod.splits)
  from server.handle_conn_spec [OF this] 1 show ?case by (auto simp: accounts_def)
next
  case (2 w t fd)
  then show ?case by (simp add: still_def unterminated_def)
next
  case (3 u w r t)
  with set_stopping_run [OF 3(1)] show ?case by (simp add: server_ledger)
qed

lemmas server_reaches = server_tcp.tcp_reachable_inv

section \<open>Stopping\<close>

lemma accept_more:
  fixes w :: "'z world_scheme"
  assumes "tcp_server_accept loop server m w = (r, loop', a, t)"
  shows "world.more t = world.more w"
proof -
  have ac: "world.more u = world.more v" if "net_accept fd v = (x, u)"
    for fd x and u v :: "'z world_scheme"
    using that by (auto simp: net_accept_def sys_fd_def bindE_def sys_def andThen_def ok_def split: if_splits)
  have al: "world.more u = world.more v" if "alloc q v = (x, u)" for q x and u v :: "'z world_scheme"
    using that by (auto simp: alloc_def split: if_splits)
  have ev: "world.more u = world.more v" if "eventfd v = (x, u)" for x and u v :: "'z world_scheme"
    using that by (auto simp: eventfd_def bindE_def sys_def andThen_def ok_def split: if_splits)
  have ad: "world.more u = world.more v" if "event_loop_add_once l fd e h v = (x, u)"
    for l fd e h x and u v :: "'z world_scheme"
    using event_loop_add_once_spec [OF that] by (cases x) (simp_all add: takes_def)
  have th: "world.more u = world.more v" if "client_create_thread (k, v) = (x, (k', u))"
    for k k' x and u v :: "'z world_scheme"
    using client_create_thread_spec [OF that] by (cases x) (simp_all add: takes_def)
  have cl: "world.more u = world.more v" if "client_create fd loop server m v = (x, l, b, u)"
    for fd x l b and u v :: "'z world_scheme"
    using that
    by (auto simp: client_create_def Let_def file_close_def split: prod.splits sum.splits
        dest!: al ev ad th)
  from assms show ?thesis
    by (auto simp: tcp_server_accept_def split: prod.splits sum.splits dest!: ac cl)
qed

lemma same_stopping:
  "world.more t = world.more w \<Longrightarrow> srv_stopping t = srv_stopping (w :: 'z server_world_scheme)"
  by (cases t; cases w) simp

lemma handle_stopping:
  assumes "server_handle h fd rv loop a w = (r, loop', a', t)"
  shows "(srv_stopping w \<longrightarrow> srv_stopping t) \<and> (h = Other_handler () \<and> is_ok r \<longrightarrow> srv_stopping t)"
proof (cases h)
  case Accept_handler
  with assms show ?thesis
    by (cases a)
      (auto simp: server_handle_def tcp_server_accept_handler_def dest!: accept_more same_stopping)
next
  case (Client_destroy_handler addr)
  with assms show ?thesis
    by (cases a)
      (auto simp: server_handle_def client_destroy_handler_def client_destroy_def file_close_def
        split: prod.splits option.splits)
next
  case (Other_handler u)
  with assms show ?thesis
    by (cases a) (auto simp: server_handle_def dest: set_stopping_run split: prod.splits)
qed

lemma log_events_stopping: "srv_stopping (log_events rv w) = srv_stopping (w :: 'z server_world_scheme)"
  using log_events_calm [of w rv] by (intro same_stopping) (simp add: takes_def)

lemma serve_stopping:
  "serve_ready server_handle xs ret loop a w = (r, loop', a', t) \<Longrightarrow>
     (is_ok r \<longrightarrow> is_ok ret) \<and> (srv_stopping w \<longrightarrow> srv_stopping t) \<and>
     ((\<exists>x \<in> set xs. snd x \<noteq> 0 \<and> ev_handler (fst x) = Other_handler ()) \<and> is_ok r \<longrightarrow> srv_stopping t)"
proof (induction xs arbitrary: ret loop a w)
  case (Cons x xs)
  obtain e rv where x: "x = (e, rv)" by (cases x)
  show ?case
  proof (cases "rv = 0")
    case True
    with Cons x show ?thesis by auto
  next
    case False
    obtain hr loop1 a1 w1 where
      h: "server_handle (ev_handler e) (ev_fd e) rv loop a (log_events rv w) = (hr, loop1, a1, w1)"
      by (metis prod_cases3 surj_pair)
    define w2 where "w2 = (if ev_once e then event_fd_destroy w1 else w1)"
    have w2: "srv_stopping w2 = srv_stopping w1" by (simp add: w2_def event_fd_destroy_def)
    from Cons.prems x False h have
      "serve_ready server_handle xs (if is_ok hr then ret else hr)
         (if ev_once e then drop_entry (ev_addr e) loop1 else loop1) a1 w2 = (r, loop', a', t)"
      by (simp add: w2_def)
    from Cons.IH [OF this] handle_stopping [OF h] x w2 log_events_stopping [of rv w]
    show ?thesis by (auto split: if_splits)
  qed
qed simp

lemma round_stopping:
  assumes "event_loop_run server_handle reported loop a w = (r, loop', a', t)" "loop_wf loop"
    "k < length (loop_entries loop)" "ev_handler (loop_entries loop ! k) = Other_handler ()" "reported k \<noteq> 0"
    "is_ok r"
  shows "srv_stopping t"
proof -
  have mem: "(loop_entries loop ! k, reported k) \<in> set (snapshot reported loop)"
    using assms(3) by (force simp: snapshot_def set_zip intro: exI [of _ k])
  from assms(1,6) [unfolded server_handle_def tcp_loop.event_loop_run_serve [OF assms(2)]]
  obtain loop1 a1 w2 w3 where
    s: "serve_ready (tcp_handle (\<lambda>_. server_set_stopping)) (snapshot reported loop) (Inr ()) loop a w2 =
      (r, loop1, a1, w3)" "t = release (Mem ''pollfds'') w3"
    by (auto split: prod.splits sum.splits)
  from serve_stopping [unfolded server_handle_def, OF s(1)] mem assms(4-6) s(2) show ?thesis by force
qed

section \<open>Properties of the running server\<close>

definition sample_tcp_state :: "(unit, server_world) tcp_state" where
  "sample_tcp_state =
     \<lparr>t_loop = \<lparr>nfds = 1, loop_entries =
        [\<lparr>ev_addr = 0, ev_fd = 3, ev_events = POLLIN, ev_handler = Accept_handler, ev_once = False\<rparr>],
        fresh_addr = 1\<rparr>,
      t_server = \<lparr>tcp_accept_fd = 3, client_queue = [], fresh_client = 0\<rparr>, t_sigs = [],
      t_world = sample_server\<lparr>trace := [Acquire Event_fd], sqldb := sample_db\<rparr>, t_running = True,
      t_ended = {}, t_written = {}, t_taken = (\<lambda>_. 0)\<rparr>"

lemma sample_tcp_state:
  "tcp_initial (\<lambda>_. 0) sample_tcp_state" "db_wf (sqldb (t_world sample_tcp_state))"
  using sample_db_facts(1) by (auto simp: sample_tcp_state_def tcp_initial_def tcp_holds_def loop_wf_def db_ok_wf)

lemma sample_tcp_round:
  assumes "event_loop_run (tcp_handle (\<lambda>_. server_set_stopping)) (\<lambda>_. POLLIN) (t_loop sample_tcp_state)
      ([], t_server sample_tcp_state) (t_world sample_tcp_state) = (r, loop, (sigs, server), t)"
  shows "tcp_reachable conn_handler (\<lambda>_. server_set_stopping) adm sample_tcp_state
    (sample_tcp_state\<lparr>t_loop := loop, t_server := server, t_sigs := sigs, t_world := t, t_running := is_ok r\<rparr>)"
proof (rule tcp_reachable.step [OF tcp_reachable.start tcp_step.round])
  show "event_loop_run (tcp_handle (\<lambda>_. server_set_stopping)) (\<lambda>_. POLLIN) (t_loop sample_tcp_state)
      (t_sigs sample_tcp_state, t_server sample_tcp_state) (t_world sample_tcp_state) = (r, loop, (sigs, server), t)"
    using assms by (simp add: sample_tcp_state_def)
qed (simp_all add: sample_tcp_state_def may_report_def)

text \<open>C36: However connections arrive, end and fail, the loop of the server never touches a client
  that was freed and takes no other undefined step; the database stays well formed; and as long as
  the loop runs its one-shot clean-up entries are those of the live clients, in the same order.\<close>

theorem clients_tracked:
  assumes "tcp_reachable (server_conn_handler J (served J S)) (\<lambda>_. server_set_stopping)
      (\<lambda>fd w. \<not> unterminated w fd) s0 s"
    and "tcp_initial held s0" "db_wf (sqldb (t_world s0))" "jsonc_ok J"
  shows "undef (trace (t_world s)) = [] \<and> db_wf (sqldb (t_world s)) \<and>
    (t_running s \<longrightarrow> client_addrs (loop_entries (t_loop s)) = map cl_addr (client_queue (t_server s)))"
  using server_reaches [OF assms(1,2)] assms(3,4)
  by (auto simp: server_ledger tcp_inv_def round_ok_def)

theorem clients_tracked_witness:
  "undef (trace (snd (snd (snd (event_loop_run (tcp_handle (\<lambda>_. server_set_stopping)) (\<lambda>_. POLLIN)
     (t_loop sample_tcp_state) ([], t_server sample_tcp_state) (t_world sample_tcp_state)))))) = []"
proof -
  obtain r loop sigs server t where rt: "event_loop_run (tcp_handle (\<lambda>_. server_set_stopping)) (\<lambda>_. POLLIN)
      (t_loop sample_tcp_state) ([], t_server sample_tcp_state) (t_world sample_tcp_state) =
      (r, loop, (sigs, server), t)" by (metis prod_cases3 surj_pair)
  from clients_tracked [OF sample_tcp_round [OF rt] sample_tcp_state sample_json_ok]
  show ?thesis by (simp add: rt)
qed



text \<open>C38: A termination signal ends the listening loop: once \<open>poll\<close> reports the signal descriptor,
  the loop is left at the next test at the latest, with success or with the error of a handler,
  whatever else is reported and whatever the other threads do, as long as they do not reset
  \<open>stopping\<close>.\<close>

theorem stop_signal_ends_listening:
  assumes "loop_wf loop" "k < length (loop_entries loop)"
    and "ev_handler (loop_entries loop ! k) = Other_handler ()" "reported k \<noteq> 0"
    and "\<And>v. srv_stopping v \<Longrightarrow> srv_stopping (others2 v)"
  shows "\<exists>r loop' a' t. server_listen_thread ((others1, reported) # (others2, reported2) # rest) loop a w =
      Some (r, loop', a', t) \<and> (is_ok r \<longrightarrow> srv_stopping t)"
proof (cases "srv_stopping (others1 w)")
  case True
  then show ?thesis by simp
next
  case False
  obtain r loop1 a1 t where run: "event_loop_run server_handle reported loop a (others1 w) = (r, loop1, a1, t)"
    by (metis prod_cases3 surj_pair)
  show ?thesis
  proof (cases r)
    case (Inl e)
    with False run show ?thesis by simp
  next
    case (Inr u)
    with round_stopping [OF run assms(1-4)] have "srv_stopping t" by simp
    with assms(5) False run Inr show ?thesis by simp
  qed
qed

theorem stop_signal_ends_listening_witness:
  "server_listen_thread [((\<lambda>v. v), (\<lambda>_. POLLIN)), ((\<lambda>v. v), (\<lambda>_. 0))]
     \<lparr>nfds = 1, loop_entries = [\<lparr>ev_addr = 0, ev_fd = 6, ev_events = POLLIN, ev_handler = Other_handler (),
        ev_once = False\<rparr>], fresh_addr = 1\<rparr>
     ([], \<lparr>tcp_accept_fd = 3, client_queue = [], fresh_client = 0\<rparr>) sample_server \<noteq> None"
proof -
  let ?loop = "\<lparr>nfds = 1, loop_entries = [\<lparr>ev_addr = 0, ev_fd = 6, ev_events = POLLIN,
    ev_handler = Other_handler (), ev_once = False\<rparr>], fresh_addr = 1\<rparr> :: server_loop"
  have "loop_wf ?loop" by (simp add: loop_wf_def)
  from stop_signal_ends_listening [OF this, of 0 "\<lambda>_. POLLIN" "\<lambda>v. v" "\<lambda>v. v" "\<lambda>_. 0" "[]"
      "([], \<lparr>tcp_accept_fd = 3, client_queue = [], fresh_client = 0\<rparr>)" sample_server]
  show ?thesis by auto
qed

end
