(* ===== verification/ServerThreads.thy ===== *)
theory ServerThreads
  imports Samples Transitions
begin

text \<open>
  The threads of \<open>src/server.c\<close> interleaved: \<open>server_main_thread\<close> with its loop and its wait on
  the condition variable, and any number of other threads (one per connection, and the event
  loop's) that each run \<open>server_enqueue_run\<close>, \<open>server_enqueue_worker\<close> or \<open>server_set_stopping\<close>
  at a time. A step is what happens between two synchronisation points.
\<close>

section \<open>States\<close>

text \<open>
  Where the main thread is: before \<open>server_lock\<close>; at the test of \<open>server_wait_for_action\<close>;
  blocked in \<open>pthread_cond_wait\<close>; woken but without the mutex; after the loop, about to look at
  \<open>stopping\<close>; at the label \<open>unlock\<close>; returned.
\<close>

datatype main_pc = MStart | MCheck | MWaiting | MWoken | MAct | MUnlock | MDone

datatype op = AddRun run | AddWorker worker | SetStopping

text \<open>Another thread: outside, with the mutex, after its change, after \<open>server_notify\<close>.\<close>

datatype helper_pc = HIdle | HLocked op | HNotify | HUnlock

datatype tid = Main | Helper nat

text \<open>
  \<open>enqueued\<close> and \<open>delivered\<close> are histories: the runs put into the queue so far and the runs
  whose start request went out in full.
\<close>

record sys =
  shared :: server_world
  owner :: "tid option"
  main :: main_pc
  helpers :: "nat \<Rightarrow> helper_pc"
  enqueued :: "run list"
  delivered :: "run list"

fun apply_op :: "op \<Rightarrow> 'z server_world_scheme \<Rightarrow> 'z server_world_scheme" where
  "apply_op (AddRun x) w = w\<lparr>srv_runs := run_queue_add_last (srv_runs w) x\<rparr>"
| "apply_op (AddWorker y) w = w\<lparr>srv_workers := worker_queue_add_last (srv_workers w) y\<rparr>"
| "apply_op SetStopping w = w\<lparr>srv_stopping := True\<rparr>"

fun added_runs :: "op \<Rightarrow> run list" where
  "added_runs (AddRun x) = [x]"
| "added_runs _ = []"

text \<open>The sequential functions are lock, change, notify, unlock.\<close>

lemma ops_of_functions:
  assumes "\<not> 0 < answer w"
  defines "v \<equiv> emit (Acquire Server_mtx) (used w)"
  shows "server_set_stopping w = (Inr (), server_unlock (server_notify (apply_op SetStopping v)))"
    "server_enqueue_worker y w = (Inr (), server_unlock (server_notify (apply_op (AddWorker y) v)))"
  using assms(1)
  by (simp_all add: server_set_stopping_def server_enqueue_worker_def server_lock_def bindE_def
      lib_def andThen_def ok_def v_def)

section \<open>Steps\<close>

inductive main_step :: "'j jsonc \<Rightarrow> sys \<Rightarrow> sys \<Rightarrow> bool" for J :: "'j jsonc" where
  main_lock: "main s = MStart \<Longrightarrow> owner s = None \<Longrightarrow>
    main_step J s (s\<lparr>owner := Some Main, main := MCheck\<rparr>)"
| main_ready: "main s = MCheck \<Longrightarrow> server_ready_for_action (shared s) \<Longrightarrow>
    main_step J s (s\<lparr>main := MAct\<rparr>)"
| main_wait: "main s = MCheck \<Longrightarrow> \<not> server_ready_for_action (shared s) \<Longrightarrow>
    main_step J s (s\<lparr>owner := None, main := MWaiting\<rparr>)"
| main_relock: "main s = MWoken \<Longrightarrow> owner s = None \<Longrightarrow>
    main_step J s (s\<lparr>owner := Some Main, main := MCheck\<rparr>)"
| main_stop: "main s = MAct \<Longrightarrow> srv_stopping (shared s) \<Longrightarrow> main_step J s (s\<lparr>main := MUnlock\<rparr>)"
| main_assign: "main s = MAct \<Longrightarrow> \<not> srv_stopping (shared s) \<Longrightarrow>
    w = server_assign_run J (shared s) \<Longrightarrow>
    main_step J s (s\<lparr>shared := w, main := MCheck,
      delivered := delivered s @ take (length (srv_runs (shared s)) - length (srv_runs w))
        (srv_runs (shared s))\<rparr>)"
| main_unlock: "main s = MUnlock \<Longrightarrow> main_step J s (s\<lparr>owner := None, main := MDone\<rparr>)"

text \<open>A wait may end without a signal.\<close>

inductive spurious_step :: "sys \<Rightarrow> sys \<Rightarrow> bool" where
  spurious: "main s = MWaiting \<Longrightarrow> spurious_step s (s\<lparr>main := MWoken\<rparr>)"

inductive helper_step :: "nat \<Rightarrow> sys \<Rightarrow> sys \<Rightarrow> bool" for i :: nat where
  helper_lock: "helpers s i = HIdle \<Longrightarrow> owner s = None \<Longrightarrow>
    helper_step i s (s\<lparr>owner := Some (Helper i), helpers := (helpers s)(i := HLocked c)\<rparr>)"
| helper_change: "helpers s i = HLocked c \<Longrightarrow>
    helper_step i s (s\<lparr>shared := apply_op c (shared s), helpers := (helpers s)(i := HNotify),
      enqueued := enqueued s @ added_runs c\<rparr>)"
| helper_notify: "helpers s i = HNotify \<Longrightarrow>
    helper_step i s (s\<lparr>helpers := (helpers s)(i := HUnlock),
      main := (if main s = MWaiting then MWoken else main s)\<rparr>)"
| helper_unlock: "helpers s i = HUnlock \<Longrightarrow>
    helper_step i s (s\<lparr>owner := None, helpers := (helpers s)(i := HIdle)\<rparr>)"

definition step :: "'j jsonc \<Rightarrow> sys \<Rightarrow> sys \<Rightarrow> bool" where
  "step J s t \<longleftrightarrow> main_step J s t \<or> spurious_step s t \<or> (\<exists>i. helper_step i s t)"

text \<open>After \<open>server_create\<close>: nothing runs yet, the run queue is what the storage returned.\<close>

definition initial :: "sys \<Rightarrow> bool" where
  "initial s \<longleftrightarrow> owner s = None \<and> main s = MStart \<and> (\<forall>i. helpers s i = HIdle) \<and>
     \<not> srv_stopping (shared s) \<and> srv_workers (shared s) = [] \<and>
     enqueued s = srv_runs (shared s) \<and> delivered s = [] \<and> undef (trace (shared s)) = []"

inductive_cases main_stepE: "main_step J s t"
inductive_cases spurious_stepE: "spurious_step s t"
inductive_cases helper_stepE: "helper_step i s t"
inductive_simps main_step_done: "main_step J (s\<lparr>main := MDone\<rparr>) t"

section \<open>Invariants\<close>

text \<open>Whoever is between lock and unlock owns the mutex, and everybody else is outside.\<close>

definition locking :: "sys \<Rightarrow> bool" where
  "locking s \<longleftrightarrow>
     (case owner s of
        None \<Rightarrow> main s \<notin> {MCheck, MAct, MUnlock} \<and> (\<forall>i. helpers s i = HIdle)
      | Some Main \<Rightarrow> main s \<in> {MCheck, MAct, MUnlock} \<and> (\<forall>i. helpers s i = HIdle)
      | Some (Helper i) \<Rightarrow> main s \<notin> {MCheck, MAct, MUnlock} \<and> helpers s i \<noteq> HIdle \<and>
          (\<forall>j. j \<noteq> i \<longrightarrow> helpers s j = HIdle))"

text \<open>
  The main thread acts only when there is something to do; while it waits there is nothing to
  do, unless a thread is about to signal; and no run gets lost, duplicated or overtaken.
\<close>

definition progress :: "sys \<Rightarrow> bool" where
  "progress s \<longleftrightarrow> (main s = MAct \<longrightarrow> server_ready_for_action (shared s)) \<and>
     (main s = MWaiting \<and> server_ready_for_action (shared s) \<longrightarrow> (\<exists>i. helpers s i = HNotify)) \<and>
     delivered s @ srv_runs (shared s) = enqueued s \<and> undef (trace (shared s)) = []"

lemma ready_queues:
  "server_ready_for_action w \<Longrightarrow> \<not> srv_stopping w \<Longrightarrow>
     \<exists>x xs y ys. srv_runs w = x # xs \<and> srv_workers w = y # ys"
  by (cases "srv_runs w"; cases "srv_workers w")
    (simp_all add: server_ready_for_action_def server_has_runs_def server_has_workers_def
      rq.queue_laws wq.queue_laws)

lemma locking_owner:
  assumes "locking s"
  shows "main s \<in> {MCheck, MAct, MUnlock} \<longleftrightarrow> owner s = Some Main"
    and "helpers s i \<noteq> HIdle \<longleftrightarrow> owner s = Some (Helper i)"
  using assms by (auto simp: locking_def split: option.splits tid.splits) metis

lemma locking_step:
  assumes "locking s" "step J s t"
  shows "locking t"
  using assms(2) unfolding step_def
proof (elim disjE exE)
  assume "main_step J s t"
  then show ?thesis using assms(1) by cases (auto simp: locking_def split: option.splits tid.splits)
next
  assume "spurious_step s t"
  then show ?thesis using assms(1) by cases (auto simp: locking_def split: option.splits tid.splits)
next
  fix i
  assume st: "helper_step i s t"
  from st show ?thesis
  proof cases
    case (helper_lock c)
    with assms(1) show ?thesis by (simp add: locking_def)
  qed (use assms(1) locking_owner(2) [OF assms(1), of i] in \<open>auto simp: locking_def\<close>)
qed

lemma apply_op_frame [simp]:
  "trace (apply_op c w) = trace w" "srv_runs (apply_op c w) = srv_runs w @ added_runs c"
  by (cases c; simp add: run_queue_add_last_def)+

lemma progress_step:
  assumes "locking s" "progress s" "step J s t"
  shows "progress t"
  using assms(3) unfolding step_def
proof (elim disjE exE)
  assume "main_step J s t"
  then show ?thesis
  proof cases
    case (main_assign w)
    with assms(2) have "server_ready_for_action (shared s)" by (simp add: progress_def)
    from ready_queues [OF this main_assign(3)] obtain x xs y ys where
      q: "srv_runs (shared s) = x # xs" "srv_workers (shared s) = y # ys" by auto
    from server_assign_run_spec [OF q, of J] obtain rest :: "char list" where
      "srv_runs w = (if rest = [] then xs else x # xs)" "undef (trace w) = undef (trace (shared s))"
      by (auto simp: Let_def main_assign accounts_def)
    with assms(2) main_assign q show ?thesis
      by (auto simp: progress_def)
  qed (use assms(1,2) in \<open>auto simp: progress_def\<close>)
next
  assume "spurious_step s t"
  then show ?thesis using assms(2) by cases (auto simp: progress_def)
next
  fix i
  assume "helper_step i s t"
  then show ?thesis
  proof cases
    case (helper_change c)
    then have "main s \<notin> {MCheck, MAct, MUnlock}"
      using locking_owner [OF assms(1)] by (metis helper_pc.distinct(1) option.inject tid.distinct(1))
    with assms(2) helper_change show ?thesis by (auto simp: progress_def)
  next
    case helper_notify
    with assms(2) show ?thesis by (auto simp: progress_def)
  next
    case (helper_lock c)
    with assms show ?thesis by (auto simp: progress_def locking_def)
  next
    case helper_unlock
    moreover from this have "helpers s j \<noteq> HNotify" for j
      using locking_owner(2) [OF assms(1), of i] locking_owner(2) [OF assms(1), of j]
      by (cases "j = i") auto
    ultimately show ?thesis using assms(2) by (auto simp: progress_def)
  qed
qed

interpretation server_threads: inductive_invariant initial "step J" "\<lambda>s. locking s \<and> progress s"
  for J :: "'j jsonc"
proof
  fix s
  assume "initial s"
  then show "locking s \<and> progress s" by (auto simp: initial_def locking_def progress_def)
next
  fix s t
  assume "locking s \<and> progress s" "step J s t"
  then show "locking t \<and> progress t" using locking_step progress_step by blast
qed

section \<open>No deadlock, and an end\<close>

lemma not_stuck:
  assumes "locking s" "progress s"
  shows "(\<exists>t. main_step J s t) \<or> (\<exists>i t. helpers s i \<noteq> HIdle \<and> helper_step i s t) \<or>
    main s = MDone \<or> (main s = MWaiting \<and> \<not> server_ready_for_action (shared s))"
proof (cases "\<exists>i. helpers s i \<noteq> HIdle")
  case True
  then obtain i where "helpers s i \<noteq> HIdle" by auto
  then have "\<exists>t. helper_step i s t"
    by (cases "helpers s i") (auto intro: helper_step.intros)
  with \<open>helpers s i \<noteq> HIdle\<close> show ?thesis by blast
next
  case False
  then have h: "\<And>i. helpers s i = HIdle" by auto
  show ?thesis
  proof (cases "owner s = None \<or> main s \<in> {MCheck, MAct, MUnlock}")
    case True
    with assms h show ?thesis
      by (cases "main s"; cases "server_ready_for_action (shared s)"; cases "srv_stopping (shared s)")
        (auto simp: locking_def progress_def intro: main_step.intros)
  next
    case f: False
    with assms(1) h show ?thesis by (auto simp: locking_def split: option.splits tid.splits)
  qed
qed

text \<open>Once \<open>stopping\<close> is set it stays set, and every step of the main thread is one of its last.\<close>

definition steps_left :: "main_pc \<Rightarrow> nat" where
  "steps_left p = (case p of MDone \<Rightarrow> 0 | MUnlock \<Rightarrow> 1 | MAct \<Rightarrow> 2 | MCheck \<Rightarrow> 3 | MStart \<Rightarrow> 4
     | MWoken \<Rightarrow> 4 | MWaiting \<Rightarrow> 5)"

lemma stopping_kept: "step J s t \<Longrightarrow> srv_stopping (shared s) \<Longrightarrow> srv_stopping (shared t)"
  unfolding step_def
proof (elim disjE exE)
  assume "main_step J s t" "srv_stopping (shared s)"
  then show ?thesis by cases auto
next
  assume "spurious_step s t" "srv_stopping (shared s)"
  then show ?thesis by cases auto
next
  fix i
  assume "helper_step i s t" "srv_stopping (shared s)"
  then show ?thesis
  proof cases
    case (helper_change c)
    with \<open>srv_stopping (shared s)\<close> show ?thesis by (cases c) auto
  qed auto
qed

lemma stopping_main_step:
  assumes "main_step J s t" "srv_stopping (shared s)"
  shows "steps_left (main t) < steps_left (main s) \<and> delivered t = delivered s \<and> shared t = shared s"
  using assms
  by cases (auto simp: steps_left_def server_ready_for_action_def)

lemma stopping_other_step:
  assumes "helper_step i s t \<or> spurious_step s t"
  shows "steps_left (main t) \<le> steps_left (main s) \<and> delivered t = delivered s"
  using assms
proof
  assume "helper_step i s t"
  then show ?thesis by cases (auto simp: steps_left_def)
next
  assume "spurious_step s t"
  then show ?thesis by cases (auto simp: steps_left_def)
qed

section \<open>A run that can be handed out is handed out\<close>

text \<open>The main thread leaves its loop only to stop.\<close>

definition leaving :: "sys \<Rightarrow> bool" where
  "leaving s \<longleftrightarrow> (main s \<in> {MUnlock, MDone} \<longrightarrow> srv_stopping (shared s))"

lemma leaving_step:
  assumes "step J s t" "leaving s"
  shows "leaving t"
  using assms(1) unfolding step_def
proof (elim disjE exE)
  assume "main_step J s t"
  then show ?thesis using assms(2) by cases (auto simp: leaving_def)
next
  assume "spurious_step s t"
  then show ?thesis using assms(2) by cases (auto simp: leaving_def)
next
  fix i
  assume h: "helper_step i s t"
  show ?thesis
  proof (cases "main s \<in> {MUnlock, MDone}")
    case True
    with assms(2) have "srv_stopping (shared s)" by (auto simp: leaving_def)
    with stopping_kept [OF assms(1)] show ?thesis by (simp add: leaving_def)
  next
    case False
    with h have "main t \<notin> {MUnlock, MDone}" by cases auto
    then show ?thesis by (simp add: leaving_def)
  qed
qed

interpretation leaving_threads: inductive_invariant initial "step J" leaving for J :: "'j jsonc"
proof
  fix s t
  assume "leaving s" "step J s t"
  then show "leaving t" by (rule leaving_step [rotated])
qed (simp add: initial_def leaving_def)

inductive runs_to :: "'j jsonc \<Rightarrow> nat \<Rightarrow> sys \<Rightarrow> sys \<Rightarrow> bool" for J :: "'j jsonc" where
  runs_none: "runs_to J 0 s s"
| runs_more: "step J s u \<Longrightarrow> runs_to J n u t \<Longrightarrow> runs_to J (Suc n) s t"

text \<open>Within \<open>n\<close> steps \<open>x\<close> can be the next run that is handed out.\<close>

definition delivers :: "'j jsonc \<Rightarrow> nat \<Rightarrow> sys \<Rightarrow> run \<Rightarrow> bool" where
  "delivers J n s x \<longleftrightarrow> (\<exists>m t. m \<le> n \<and> runs_to J m s t \<and> delivered t = delivered s @ [x])"

lemma delivers_step:
  "step J s u \<Longrightarrow> delivered u = delivered s \<Longrightarrow> delivers J k u x \<Longrightarrow> k < n \<Longrightarrow> delivers J n s x"
  unfolding delivers_def by (metis Suc_leI le_trans not_less_eq_eq runs_more Suc_le_mono)

lemma delivers_more: "delivers J k s x \<Longrightarrow> k \<le> n \<Longrightarrow> delivers J n s x"
  unfolding delivers_def by (meson le_trans)

text \<open>There is work, and the next thing the main thread does with it is to hand out \<open>x\<close>.\<close>

definition due :: "run \<Rightarrow> sys \<Rightarrow> bool" where
  "due x s \<longleftrightarrow> \<not> srv_stopping (shared s) \<and> reliable (shared s) \<and> srv_workers (shared s) \<noteq> [] \<and>
     (\<exists>xs. srv_runs (shared s) = x # xs)"

lemma due_ready: "due x s \<Longrightarrow> server_ready_for_action (shared s)"
  by (auto simp: due_def server_ready_for_action_def server_has_runs_def server_has_workers_def
      rq.queue_laws wq.queue_laws neq_Nil_conv)

lemma due_cong: "shared t = shared s \<Longrightarrow> due x t \<longleftrightarrow> due x s"
  by (simp add: due_def)

lemma assigned:
  assumes "main s = MAct" "due x s"
  shows "delivers J 1 s x"
proof -
  from assms(2) obtain xs y ys where q: "srv_runs (shared s) = x # xs" "srv_workers (shared s) = y # ys"
    and ok: "\<not> srv_stopping (shared s)" "reliable (shared s)"
    by (auto simp: due_def neq_Nil_conv)
  let ?t = "s\<lparr>shared := server_assign_run J (shared s), main := MCheck, delivered := delivered s @ [x]\<rparr>"
  from server_assign_run_spec [OF q, of J] ok(2)
  have "srv_runs (server_assign_run J (shared s)) = xs" by (auto simp: Let_def)
  with main_assign [OF assms(1) ok(1) refl, of J] q(1) have "step J s ?t" by (simp add: step_def)
  then have "runs_to J (Suc 0) s ?t" by (rule runs_more [OF _ runs_none])
  then show ?thesis unfolding delivers_def by (intro exI [of _ "Suc 0"] exI [of _ ?t]) simp
qed

lemma checked:
  assumes "main s = MCheck" "due x s"
  shows "delivers J 2 s x"
proof (rule delivers_step)
  show "step J s (s\<lparr>main := MAct\<rparr>)"
    using main_ready [OF assms(1) due_ready [OF assms(2)]] by (auto simp: step_def)
  show "delivers J 1 (s\<lparr>main := MAct\<rparr>) x" using assms(2) by (intro assigned) (simp_all add: due_def)
qed simp_all

lemma unowned:
  assumes "owner s = None" "main s \<in> {MStart, MWoken}" "due x s"
  shows "delivers J 3 s x"
proof (rule delivers_step)
  let ?u = "s\<lparr>owner := Some Main, main := MCheck\<rparr>"
  show "step J s ?u" using assms(1,2) by (auto simp: step_def intro: main_lock main_relock)
  show "delivers J 2 ?u x" using assms(3) by (intro checked) (simp_all add: due_def)
qed simp_all

lemma released:
  assumes "helpers s i = HUnlock" "main s \<in> {MStart, MWoken}" "due x s"
  shows "delivers J 4 s x"
proof (rule delivers_step)
  let ?u = "s\<lparr>owner := None, helpers := (helpers s)(i := HIdle)\<rparr>"
  show "step J s ?u" using helper_unlock [OF assms(1)] by (auto simp: step_def)
  show "delivers J 3 ?u x" using assms(2,3) by (intro unowned) (simp_all add: due_def)
qed simp_all

lemma notified:
  assumes "helpers s i = HNotify" "main s \<in> {MStart, MWaiting, MWoken}" "due x s"
  shows "delivers J 5 s x"
proof (rule delivers_step)
  let ?u = "s\<lparr>helpers := (helpers s)(i := HUnlock),
    main := (if main s = MWaiting then MWoken else main s)\<rparr>"
  show "step J s ?u" using helper_notify [OF assms(1)] by (auto simp: step_def)
  show "delivers J 4 ?u x" using assms(2,3) by (intro released [of _ i]) (auto simp: due_def)
qed simp_all

lemma changed:
  assumes "helpers s i = HLocked c" "c \<noteq> SetStopping" "main s \<in> {MStart, MWaiting, MWoken}" "due x s"
  shows "delivers J 6 s x"
proof (rule delivers_step)
  let ?u = "s\<lparr>shared := apply_op c (shared s), helpers := (helpers s)(i := HNotify),
    enqueued := enqueued s @ added_runs c\<rparr>"
  show "step J s ?u" using helper_change [OF assms(1)] by (auto simp: step_def)
  have "due x ?u"
    using assms(2,4) by (cases c) (auto simp: due_def run_queue_add_last_def worker_queue_add_last_def)
  then show "delivers J 5 ?u x" using assms(3) by (intro notified [of _ i]) simp_all
qed simp_all

section \<open>Properties\<close>

definition sample_start :: sys where
  "sample_start = \<lparr>shared = sample_server, owner = None, main = MStart, helpers = (\<lambda>_. HIdle),
     enqueued = [], delivered = []\<rparr>"

definition sample_waiting :: sys where
  "sample_waiting = sample_start\<lparr>main := MWaiting\<rparr>"

definition sample_queued :: sys where
  "sample_queued = sample_waiting\<lparr>shared := sample_server\<lparr>srv_runs := [sample_run]\<rparr>,
     owner := Some (Helper 3), helpers := (\<lambda>_. HIdle)(3 := HNotify), enqueued := [sample_run]\<rparr>"

lemmas sample_defs = sample_server_def sample_start_def sample_waiting_def sample_queued_def

lemma sample_start_initial: "initial sample_start"
  by (simp add: initial_def sample_defs)

lemma sample_waiting_reachable: "reachable initial (step J) sample_waiting"
proof -
  let ?s1 = "sample_start\<lparr>owner := Some Main, main := MCheck\<rparr>"
  have "main_step J sample_start ?s1"
    by (rule main_lock) (simp_all add: sample_defs)
  moreover have "\<not> server_ready_for_action (shared ?s1)"
    by (simp add: sample_defs server_ready_for_action_def server_has_runs_def rq.queue_laws)
  then have "main_step J ?s1 (?s1\<lparr>owner := None, main := MWaiting\<rparr>)"
    by (intro main_wait) simp_all
  moreover have "?s1\<lparr>owner := None, main := MWaiting\<rparr> = sample_waiting" by (simp add: sample_defs)
  ultimately show ?thesis
    by (metis further start sample_start_initial step_def)
qed

lemma sample_queued_reachable: "reachable initial (step J) sample_queued"
proof -
  let ?s1 = "sample_waiting\<lparr>owner := Some (Helper 3),
    helpers := (helpers sample_waiting)(3 := HLocked (AddRun sample_run))\<rparr>"
  have "helper_step 3 sample_waiting ?s1"
    by (rule helper_lock) (simp_all add: sample_defs)
  moreover have "helper_step 3 ?s1 (?s1\<lparr>shared := apply_op (AddRun sample_run) (shared ?s1),
      helpers := (helpers ?s1)(3 := HNotify), enqueued := enqueued ?s1 @ added_runs (AddRun sample_run)\<rparr>)"
    by (rule helper_change) simp
  moreover have "?s1\<lparr>shared := apply_op (AddRun sample_run) (shared ?s1),
      helpers := (helpers ?s1)(3 := HNotify), enqueued := enqueued ?s1 @ added_runs (AddRun sample_run)\<rparr> =
      sample_queued"
    by (simp add: sample_defs run_queue_add_last_def fun_eq_iff)
  ultimately show ?thesis
    using sample_waiting_reachable [of J] by (metis further step_def)
qed



text \<open>C14: At most one thread at a time is between \<open>server_lock\<close> and \<open>server_unlock\<close>: while one of
  the helper threads is, the main thread is not and every other helper is outside.\<close>

theorem mutual_exclusion:
  assumes "reachable initial (step J) s" "helpers s i \<noteq> HIdle"
  shows "main s \<notin> {MCheck, MAct, MUnlock} \<and> {j. helpers s j \<noteq> HIdle} = {i}"
proof -
  from server_threads.holds [OF assms(1)] have "locking s" by simp
  with assms(2) locking_owner [OF this] show ?thesis by auto
qed

theorem mutual_exclusion_witness:
  "main sample_queued \<notin> {MCheck, MAct, MUnlock} \<and> {j. helpers sample_queued j \<noteq> HIdle} = {3}"
  by (rule mutual_exclusion [OF sample_queued_reachable [of sample_json]]) (simp add: sample_defs)

text \<open>C15: No wake-up is lost: if the main thread waits on the condition variable and no other
  thread is inside its critical section, then the server is not stopping and there is no run
  that a waiting worker could get.\<close>

theorem no_lost_wakeup:
  assumes "reachable initial (step J) s" "main s = MWaiting" "\<forall>i. helpers s i = HIdle"
  shows "\<not> srv_stopping (shared s) \<and> (srv_runs (shared s) = [] \<or> srv_workers (shared s) = [])"
proof -
  from server_threads.holds [OF assms(1)] assms(2,3) have "\<not> server_ready_for_action (shared s)"
    by (auto simp: progress_def)
  then show ?thesis
    by (simp add: server_ready_for_action_def server_has_runs_def server_has_workers_def
        rq.queue_laws wq.queue_laws)
qed

theorem no_lost_wakeup_witness:
  "\<not> srv_stopping (shared sample_waiting) \<and>
     (srv_runs (shared sample_waiting) = [] \<or> srv_workers (shared sample_waiting) = [])"
  by (rule no_lost_wakeup [OF sample_waiting_reachable [of sample_json]]) (simp_all add: sample_defs)

text \<open>C16: The server does not deadlock: in every reachable state the main thread can take a step,
  or a thread inside its critical section can, or the main thread has returned, or it waits and
  there is nothing to do.\<close>

theorem never_stuck:
  "reachable initial (step J) s \<Longrightarrow>
     (\<exists>t. main_step J s t) \<or> (\<exists>i t. helpers s i \<noteq> HIdle \<and> helper_step i s t) \<or>
     main s = MDone \<or> (main s = MWaiting \<and> \<not> server_ready_for_action (shared s))"
  using server_threads.holds [of J s] not_stuck [of s J] by simp

theorem never_stuck_witness:
  "(\<exists>t. main_step sample_json sample_queued t) \<or>
     (\<exists>i t. helpers sample_queued i \<noteq> HIdle \<and> helper_step i sample_queued t) \<or>
     main sample_queued = MDone \<or>
     (main sample_queued = MWaiting \<and> \<not> server_ready_for_action (shared sample_queued))"
  by (rule never_stuck [OF sample_queued_reachable [of sample_json]])

text \<open>C18: Once \<open>stopping\<close> is set, no thread unsets it, no further run is handed to a worker, and
  the main thread gets strictly closer to returning with each of its steps while no other step
  takes it further away (it has at most five steps left).\<close>

theorem stopping_ends_main_thread:
  assumes "srv_stopping (shared s)" "step J s t"
  shows "srv_stopping (shared t) \<and> delivered t = delivered s \<and>
    steps_left (main t) \<le> steps_left (main s) \<and> steps_left (main s) \<le> 5 \<and>
    (main_step J s t \<longrightarrow> steps_left (main t) < steps_left (main s))"
proof -
  have "steps_left p \<le> 5" for p by (cases p) (simp_all add: steps_left_def)
  with stopping_kept [OF assms(2,1)] stopping_main_step [OF _ assms(1)] stopping_other_step assms(2)
  show ?thesis unfolding step_def by (meson less_imp_le)
qed


text \<open>A run was queued at the start, and a thread has just added a worker.\<close>

definition sample_ready :: sys where
  "sample_ready = sample_start\<lparr>
     shared := sample_server\<lparr>srv_runs := [sample_run], srv_workers := [\<lparr>worker_fd = 4\<rparr>]\<rparr>,
     owner := Some (Helper 3), helpers := (\<lambda>_. HIdle)(3 := HNotify), enqueued := [sample_run]\<rparr>"

lemma sample_ready_reachable: "reachable initial (step J) sample_ready"
proof -
  let ?s0 = "sample_start\<lparr>shared := sample_server\<lparr>srv_runs := [sample_run]\<rparr>, enqueued := [sample_run]\<rparr>"
  let ?s1 = "?s0\<lparr>owner := Some (Helper 3), helpers := (\<lambda>_. HIdle)(3 := HLocked (AddWorker \<lparr>worker_fd = 4\<rparr>))\<rparr>"
  have "reachable initial (step J) ?s0" by (rule start) (simp add: initial_def sample_defs)
  moreover have "helper_step 3 ?s0 ?s1"
    using helper_lock [of ?s0 3 "AddWorker \<lparr>worker_fd = 4\<rparr>"] by (simp add: sample_defs)
  then have "step J ?s0 ?s1" unfolding step_def by blast
  ultimately have "reachable initial (step J) ?s1" by (rule further)
  moreover have "helper_step 3 ?s1 sample_ready"
    using helper_change [of ?s1 3 "AddWorker \<lparr>worker_fd = 4\<rparr>"]
    by (simp add: sample_ready_def sample_defs worker_queue_add_last_def)
  then have "step J ?s1 sample_ready" unfolding step_def by blast
  ultimately show ?thesis by (rule further)
qed


definition sample_stopping :: sys where
  "sample_stopping = sample_start\<lparr>shared := sample_server\<lparr>srv_stopping := True\<rparr>,
     owner := Some Main, main := MCheck\<rparr>"

theorem stopping_ends_main_thread_witness:
  "steps_left (main (sample_stopping\<lparr>main := MAct\<rparr>)) < steps_left (main sample_stopping)"
proof -
  have "main_step sample_json sample_stopping (sample_stopping\<lparr>main := MAct\<rparr>)"
    by (rule main_ready) (simp_all add: sample_stopping_def server_ready_for_action_def)
  with stopping_ends_main_thread [of sample_stopping sample_json "sample_stopping\<lparr>main := MAct\<rparr>"]
  show ?thesis by (simp add: step_def sample_stopping_def)
qed

end
