(* ===== verification/ServerLife.thy ===== *)
theory ServerLife
  imports ServerMain ServerThreads
begin

text \<open>
  \<open>server_create\<close> and \<open>server_destroy\<close> of \<open>src/server.c\<close> against each other: what a server that was
  created holds, that destroying it gives everything back, and what the labels of
  \<open>server_create\<close> give back when it fails.
\<close>

section \<open>Setting up the storage\<close>

lemma db_moves_refl [simp]: "db_moves w w []"
  by (simp add: db_moves_def)

lemma db_moves_trans: "db_moves w u rs \<Longrightarrow> db_moves u t qs \<Longrightarrow> db_moves w t (rs @ qs)"
  by (auto simp: db_moves_def intro: still_trans)

definition moves :: "('z db_world_scheme, 'a) cfun \<Rightarrow> bool" where
  "moves f \<longleftrightarrow> (\<forall>w r t. f w = (r, t) \<longrightarrow> db_moves w t [])"

lemma movesD: "moves f \<Longrightarrow> f w = (r, t) \<Longrightarrow> db_moves w t []"
  by (simp add: moves_def)

lemma moves_bind: "moves f \<Longrightarrow> (\<And>x. moves (g x)) \<Longrightarrow> moves (bindE f g)"
  by (auto simp: moves_def bindE_def split: prod.splits sum.splits dest: db_moves_trans)
    (metis append_Nil db_moves_trans)+

lemma moves_basic: "moves (ok x)" "moves (failing e)" "moves lib"
  by (auto simp: moves_def ok_def failing_def lib_def db_moves_def still_def split: if_splits)

lemma moves_held:
  assumes "moves f"
  shows "moves (bindE (alloc q) (\<lambda>_. after f (release q)))"
proof -
  have "db_moves w t []" if run: "bindE (alloc q) (\<lambda>_. after f (release q)) w = (r, t)"
    for r and w t :: "'a db_world_scheme"
  proof (cases "answer w < 0")
    case True
    with run show ?thesis by (auto simp: bindE_def alloc_def db_moves_def still_def)
  next
    case False
    obtain a u where u: "f (emit (Acquire q) (used w)) = (a, u)" by (cases "f (emit (Acquire q) (used w))")
    with run False have "t = release q u" by (simp add: bindE_def alloc_def after_def)
    with movesD [OF assms u] show ?thesis by (auto simp: db_moves_def still_def)
  qed
  then show ?thesis by (auto simp: moves_def)
qed

lemma moves_exec: "moves (sqlite_exec stmts)"
proof -
  have "sqlite_exec stmts w = (r, t) \<Longrightarrow> db_moves w t []" for r and w t :: "'a db_world_scheme"
  proof (induction stmts arbitrary: w)
    case (Cons s rest)
    show ?case
    proof (cases "0 < answer w \<or> exec_stmt s (sqldb w) = None")
      case True
      with Cons.prems show ?thesis by (auto simp: db_moves_def still_def split: if_splits)
    next
      case False
      then obtain d where "exec_stmt s (sqldb w) = Some d" by auto
      with False Cons.prems have "sqlite_exec rest ((used w)\<lparr>sqldb := d\<rparr>) = (r, t)" by simp
      from Cons.IH [OF this] show ?thesis by (auto simp: db_moves_def still_def)
    qed
  qed simp
  then show ?thesis by (auto simp: moves_def)
qed

lemma moves_upgrade_to: "moves (storage_sqlite_upgrade_to v)"
  unfolding storage_sqlite_upgrade_to_def sqlite_exec_as_transaction_def Let_def
  by (intro moves_held moves_exec)

lemma moves_versions: "moves (upgrade_versions vs)"
  by (induction vs) (auto intro: moves_basic moves_bind moves_upgrade_to)

lemma moves_user_version: "moves sqlite_get_user_version"
  by (auto simp: moves_def sqlite_get_user_version_def sqlite_prepare_def sqlite_finalize_def sqlite_step_def
      sqlite_column_int_def bindE_def lib_def after_def andThen_def ok_def failing_def Let_def
      db_moves_def still_def split: if_splits)

lemma moves_setup: "moves storage_sqlite_setup"
  unfolding storage_sqlite_setup_def sqlite_set_foreign_keys_def storage_sqlite_upgrade_def
    storage_sqlite_upgrade_from_to_def Let_def
  by (intro moves_bind moves_basic moves_user_version) (simp add: moves_basic moves_versions)

definition stmt_blocks :: "string list \<Rightarrow> resource list" where
  "stmt_blocks names = concat (map (\<lambda>s. [Lib ''mtx'', Lib s]) names)"

definition storage_blocks :: "resource list" where
  "storage_blocks = [Mem ''storage_sqlite'', Lib ''sqlite'', Lib ''sqlite3''] @
     stmt_blocks [''repo_find'', ''repo_insert'', ''run_insert'', ''run_finished'', ''get_runs'', ''get_run_queue'']"

lemma stmt_init_spec: "all_or_none (prepared_stmt_init s) [Lib ''mtx'', Lib s]"
  by (auto simp: all_or_none_def prepared_stmt_init_def sqlite_prepare_def bindE_def lib_def onErr_def andThen_def
      ok_def takes_def still_def split: if_splits)

lemma stmt_destroy_gives: "gives_back (prepared_stmt_destroy s) [Lib ''mtx'', Lib s]"
  by (auto simp: gives_back_def swaps_def still_def prepared_stmt_destroy_def sqlite_finalize_def)

lemma prepare_statements_spec:
  "all_or_none storage_sqlite_prepare_statements
     (stmt_blocks [''repo_find'', ''repo_insert'', ''run_insert'', ''run_finished'', ''get_runs'', ''get_run_queue''])"
proof -
  have "all_or_none storage_sqlite_prepare_statements
    ([Lib ''mtx'', Lib ''repo_find''] @ [Lib ''mtx'', Lib ''repo_insert''] @ [Lib ''mtx'', Lib ''run_insert''] @
     [Lib ''mtx'', Lib ''run_finished''] @ [Lib ''mtx'', Lib ''get_runs''] @ [Lib ''mtx'', Lib ''get_run_queue''])"
    unfolding storage_sqlite_prepare_statements_def
    by (intro all_or_none_onErr stmt_init_spec stmt_destroy_gives)
  then show ?thesis by (simp add: stmt_blocks_def)
qed

lemma storage_create_spec:
  assumes "storage_sqlite_create w = (r, t)"
  shows "(is_ok r \<longrightarrow> db_moves w t storage_blocks) \<and> db_world.more t = db_world.more w \<and>
    (\<not> is_ok r \<longrightarrow> undef (trace t) \<noteq> undef (trace w) \<or>
       undef (trace t) = undef (trace w) \<and>
       (\<forall>q. q \<noteq> Lib ''sqlite3'' \<longrightarrow> bal (trace t) q = bal (trace w) q))"
proof (cases "answer w < 0")
  case True
  with assms show ?thesis by (auto simp: storage_sqlite_create_def bindE_def alloc_def)
next
  case False
  define w1 where "w1 = emit (Acquire (Mem ''storage_sqlite'')) (used w)"
  show ?thesis
  proof (cases "0 < answer w1")
    case True
    with assms False show ?thesis
      by (auto simp: storage_sqlite_create_def sqlite_init_def bindE_def alloc_def lib_def onErr_def simp flip: w1_def)
        (auto simp: w1_def)
  next
    case ini: False
    define w2 where "w2 = emit (Acquire (Lib ''sqlite3'')) (emit (Acquire (Lib ''sqlite'')) (used w1))"
    show ?thesis
    proof (cases "0 < answer w2")
      case True
      with assms False ini show ?thesis
        by (auto simp: storage_sqlite_create_def sqlite_init_def sqlite_open_rw_def sqlite_open_def sqlite_destroy_def bindE_def
            alloc_def lib_def onErr_def andThen_def ok_def simp flip: w1_def w2_def)
          (auto simp: w1_def w2_def)
    next
      case opn: False
      obtain a u where u: "storage_sqlite_setup (used w2) = (a, u)" by (cases "storage_sqlite_setup (used w2)")
      note mv = movesD [OF moves_setup u]
      have w2: "db_moves w (used w2) [Mem ''storage_sqlite'', Lib ''sqlite'', Lib ''sqlite3'']"
        by (auto simp: w2_def w1_def db_moves_def still_def)
      show ?thesis
      proof (cases a)
        case (Inl e)
        with assms False ini opn u have "r = Inl e" "t = release (Mem ''storage_sqlite'') (sqlite_destroy
            (undefined_behaviour ''storage_sqlite_create: storage->sqlite unset'' u))"
          by (auto simp: storage_sqlite_create_def sqlite_init_def sqlite_open_rw_def sqlite_open_def bindE_def
              alloc_def lib_def onErr_def andThen_def ok_def simp flip: w1_def w2_def)
        with mv w2 show ?thesis by (auto simp: db_moves_def sqlite_destroy_def)
      next
        case (Inr x)
        obtain b v where v: "storage_sqlite_prepare_statements u = (b, v)"
          by (cases "storage_sqlite_prepare_statements u")
        note ps = all_or_noneD [OF prepare_statements_spec v]
        have more: "db_world.more v = db_world.more u" using ps by (cases v; cases u) (auto simp: takes_def)
        show ?thesis
        proof (cases b)
          case (Inl e)
          with assms False ini opn u v Inr have "r = Inl e" "t = release (Mem ''storage_sqlite'') (sqlite_destroy
              (undefined_behaviour ''storage_sqlite_create: storage->sqlite unset'' v))"
            by (auto simp: storage_sqlite_create_def sqlite_init_def sqlite_open_rw_def sqlite_open_def bindE_def
                alloc_def lib_def onErr_def andThen_def ok_def simp flip: w1_def w2_def)
          with mv w2 ps more Inl show ?thesis by (auto simp: db_moves_def takes_def sqlite_destroy_def)
        next
          case ok: (Inr y)
          with assms False ini opn u v Inr have "r = Inr ()" "t = v"
            by (auto simp: storage_sqlite_create_def sqlite_init_def sqlite_open_rw_def sqlite_open_def bindE_def
                alloc_def lib_def onErr_def andThen_def ok_def simp flip: w1_def w2_def)
          with mv w2 ps more ok show ?thesis
            by (auto simp: db_moves_def takes_def still_def storage_blocks_def)
        qed
      qed
    qed
  qed
qed

section \<open>Giving back\<close>

lemma gives_back_pthread: "gives_back (pthread_destroy r) [r]"
  using gives_back_comp [OF gives_back_used gives_back_release [of r]]
  by (simp add: pthread_destroy_def [abs_def])

lemma gives_back_storage: "gives_back (storage_destroy STORAGE_TYPE_SQLITE) storage_blocks"
proof -
  have eq: "storage_destroy STORAGE_TYPE_SQLITE = storage_sqlite_destroy"
    by (simp add: fun_eq_iff storage_destroy_def via_api_def get_api_def numof_apis_def andThen_def ok_def)
  have "gives_back storage_sqlite_destroy storage_blocks"
    unfolding gives_back_alt
    by (auto simp: storage_sqlite_destroy_def sqlite_destroy_def sqlite_close_def still_def
        storage_sqlite_finalize_statements_def prepared_stmt_destroy_def sqlite_finalize_def
        storage_blocks_def stmt_blocks_def)
  then show ?thesis by (simp add: eq)
qed

lemma gives_back_queues:
  "gives_back (worker_queue_destroy ws) (concat (map worker_resources ws))"
  "gives_back (run_queue_destroy rs) (queue_blocks rs)"
proof -
  show "gives_back (worker_queue_destroy ws) (concat (map worker_resources ws))"
  proof (induction ws)
    case (Cons x ws)
    have "gives_back (worker_destroy x) (worker_resources x)"
      unfolding gives_back_alt
      by (auto simp: worker_destroy_def net_close_def file_close_def worker_resources_def still_def)
    from gives_back_comp [OF this Cons.IH] show ?case by (simp add: fun_eq_iff cong: if_cong)
  qed (simp add: gives_back_alt)
  show "gives_back (run_queue_destroy rs) (queue_blocks rs)"
    unfolding gives_back_alt
    using still_run_queue_destroy [of _ rs] lucky_run_queue_destroy by (auto simp: count_queue_blocks)
qed

text \<open>What the labels up to \<open>close_signalfd\<close> give back.\<close>

definition early_blocks :: "('j, 'a, 's, 'c) cmd_dispatcher \<Rightarrow> server_loop \<Rightarrow> resource list" where
  "early_blocks d loop = replicate (length (loop_entries loop)) Event_fd @ [Mem ''event_loop''] @
     dispatcher_blocks d @ [Cond, Mutex, Server]"

lemma gives_back_labels:
  "gives_back destroy_mtx [Mutex, Server]" "gives_back destroy_cv [Cond, Mutex, Server]"
  "gives_back (destroy_cmd_dispatcher d) (dispatcher_blocks d @ [Cond, Mutex, Server])"
  "gives_back (destroy_event_loop d loop) (early_blocks d loop)"
  "gives_back (close_signalfd d loop sfd) (Desc sfd # early_blocks d loop)"
proof -
  have 1: "gives_back destroy_mtx [Mutex, Server]"
    using gives_back_comp [OF gives_back_pthread [of Mutex] gives_back_release [of Server]]
    by (simp add: destroy_mtx_def [abs_def] free_server_def [abs_def])
  have 2: "gives_back destroy_cv [Cond, Mutex, Server]"
    using gives_back_comp [OF gives_back_pthread [of Cond] 1] by (simp add: destroy_cv_def [abs_def])
  have 3: "gives_back (destroy_cmd_dispatcher d) (dispatcher_blocks d @ [Cond, Mutex, Server])"
    using gives_back_comp [OF gives_back_dispatcher 2] by (simp add: destroy_cmd_dispatcher_def [abs_def])
  have 4: "gives_back (destroy_event_loop d loop) (early_blocks d loop)"
    using gives_back_comp [OF gives_back_event_loop 3]
    by (simp add: destroy_event_loop_def [abs_def] early_blocks_def)
  have 5: "gives_back (close_signalfd d loop sfd) (Desc sfd # early_blocks d loop)"
    using gives_back_comp [OF gives_back_close(2) 4] by (simp add: close_signalfd_def [abs_def])
  show "gives_back destroy_mtx [Mutex, Server]" by (rule 1)
  show "gives_back destroy_cv [Cond, Mutex, Server]" by (rule 2)
  show "gives_back (destroy_cmd_dispatcher d) (dispatcher_blocks d @ [Cond, Mutex, Server])" by (rule 3)
  show "gives_back (destroy_event_loop d loop) (early_blocks d loop)" by (rule 4)
  show "gives_back (close_signalfd d loop sfd) (Desc sfd # early_blocks d loop)" by (rule 5)
qed

lemma gives_back_settings:
  "gives_back (storage_settings_destroy STORAGE_TYPE_SQLITE)
     [Mem ''storage_sqlite_settings'', Mem ''settings_path'']"
  by (auto simp: gives_back_alt storage_settings_destroy_def via_api_def get_api_def numof_apis_def
      andThen_def ok_def storage_sqlite_settings_destroy_def still_def)

lemma open_storage_spec:
  assumes "open_storage path w = (r, t)"
  shows "db_world.more t = db_world.more w \<and>
    (if is_ok r then db_moves w t storage_blocks else undone w t)"
proof -
  let ?set = "[Mem ''storage_sqlite_settings'', Mem ''settings_path'']"
  have "yields (storage_sqlite_settings_create path) []
      ([Mem ''storage_sqlite_settings''] @ [Mem ''settings_path'']) path"
    unfolding storage_sqlite_settings_create_def
    by (rule yields_bind_onErr [OF yields_alloc yields_alloc_ok gives_back_release])
  then have sc: "yields (storage_sqlite_settings_create path) [] ?set path" by simp
  obtain a u where u: "storage_sqlite_settings_create path w = (a, u)"
    by (cases "storage_sqlite_settings_create path w")
  note s1 = yieldsD [OF sc u]
  have more1: "db_world.more u = db_world.more w"
    using s1 by (cases a; cases u; cases w) (auto simp: swaps_takes takes_def)
  show ?thesis
  proof (cases a)
    case (Inl e)
    with assms u s1 more1 show ?thesis by (auto simp: open_storage_def bindE_def intro: undone_calm)
  next
    case (Inr x)
    obtain b v where v: "storage_sqlite_create u = (b, v)" by (cases "storage_sqlite_create u")
    have "storage_create STORAGE_TYPE_SQLITE u = ((case b of Inl e \<Rightarrow> Inl e | Inr _ \<Rightarrow> Inr 0), v)"
      using v by (cases b) (auto simp: storage_create_def via_api_def get_api_def numof_apis_def bindE_def ok_def)
    with assms u Inr have t: "r = (case b of Inl e \<Rightarrow> Inl e | Inr _ \<Rightarrow> Inr 0)"
      "t = storage_settings_destroy STORAGE_TYPE_SQLITE v"
      by (auto simp: open_storage_def bindE_def after_def)
    note sd = gives_back_at [OF gives_back_settings, of v]
    have "world.more t = world.more v" using sd by (simp add: t)
    then have more: "db_world.more t = db_world.more v" "sqldb t = sqldb v" by (cases t; cases v; simp)+
    from s1 Inr have u': "takes w u ?set" "still w u" by (simp_all add: swaps_takes)
    note cr = storage_create_spec [OF v]
    show ?thesis
    proof (cases "is_ok b")
      case True
      with cr have "db_moves u v storage_blocks" by simp
      with u' sd more1 more True show ?thesis
        by (auto simp: t db_moves_def takes_def intro: still_trans split: sum.splits)
    next
      case False
      with cr have "undone u v" by (auto simp: undone_def even_def)
      from undone_after [OF u'(1) this gives_back_settings] False more more1 cr show ?thesis
        by (auto simp: t split: sum.splits)
    qed
  qed
qed

section \<open>Creating a server\<close>

lemma same_server:
  assumes "world.more t = world.more (w :: 'z server_world_scheme)"
  shows "srv_workers t = srv_workers w" "srv_runs t = srv_runs w" "srv_stopping t = srv_stopping w" "sqldb t = sqldb w"
  using assms by (cases t; cases w; simp)+

lemma same_server_db:
  "db_world.more t = db_world.more (w :: 'z server_world_scheme) \<Longrightarrow> srv_workers t = srv_workers w"
  by (cases t; cases w; simp)

lemma gives_back_server:
  assumes "gives_back c rs"
  shows "srv_workers (c w) = srv_workers w" "srv_runs (c w) = srv_runs (w :: 'z server_world_scheme)"
    "srv_stopping (c w) = srv_stopping w"
  using same_server [of "c w" w] gives_back_at [OF assms, of w] by simp_all

lemma destroy_storage_eq:
  "srv_workers w = [] \<Longrightarrow> destroy_storage d loop sfd w = close_signalfd d loop sfd (storage_destroy STORAGE_TYPE_SQLITE w)"
  using gives_back_server(1) [OF gives_back_storage, of w]
  by (simp add: destroy_storage_def destroy_worker_queue_def)

lemma destroy_run_queue_eq:
  "srv_workers w = [] \<Longrightarrow> destroy_run_queue d loop sfd w =
     close_signalfd d loop sfd (storage_destroy STORAGE_TYPE_SQLITE (run_queue_destroy (srv_runs w) w))"
  using gives_back_server(1) [OF gives_back_queues(2), of "srv_runs w" w]
  by (simp add: destroy_run_queue_def destroy_storage_eq)

lemma gives_back_tcp_server:
  "client_queue tcp = [] \<Longrightarrow> gives_back (tcp_server_destroy tcp) [Desc (tcp_accept_fd tcp), Tcp_server]"
  by (auto simp: gives_back_alt tcp_server_destroy_def still_def)

lemma destroy_tcp_server_eq:
  assumes "srv_workers w = []" "client_queue tcp = []"
  shows "destroy_tcp_server d loop sfd tcp w =
     close_signalfd d loop sfd (storage_destroy STORAGE_TYPE_SQLITE
       (run_queue_destroy (srv_runs w) (tcp_server_destroy tcp w)))"
  using gives_back_server [OF gives_back_tcp_server [OF assms(2)], of w] assms(1)
  by (simp add: destroy_tcp_server_def destroy_run_queue_eq)

lemma pthread_init_spec:
  assumes "pthread_init q w = (r, t)"
  shows "still w t \<and> (case r of Inl e \<Rightarrow> e < 0 \<and> calm w t | Inr _ \<Rightarrow> takes w t [q])"
  using assms
  by (auto simp: pthread_init_def bindE_def lib_def andThen_def ok_def takes_def still_def split: if_splits)

lemma tcp_server_create_spec:
  assumes "tcp_server_create port loop w = (r, t)" "loop_wf loop"
  shows "rx t = rx w \<and>
    (case r of
       Inl e \<Rightarrow> e < 0 \<and> calm w t
     | Inr (tcp, loop1) \<Rightarrow> client_queue tcp = [] \<and> loop_wf loop1 \<and> takes w t [Tcp_server, Desc (tcp_accept_fd tcp), Event_fd] \<and>
         (\<exists>e. loop_entries loop1 = loop_entries loop @ [e] \<and> ev_handler e = Accept_handler))"
proof (cases "answer w < 0")
  case True
  with assms show ?thesis by (auto simp: tcp_server_create_def bindE_def alloc_def still_def)
next
  case False
  define w1 where "w1 = emit (Acquire Tcp_server) (used w)"
  have w1: "takes w w1 [Tcp_server]" "still w w1" by (simp_all add: w1_def takes_def still_def)
  obtain a u where a: "net_bind port w1 = (a, u)" by (cases "net_bind port w1")
  note nb = meetsD [OF net_bind_spec a, unfolded opens_fd_def]
  have u: "rx u = rx w1" "\<forall>d. sent d (trace u) = sent d (trace w1)" using nb by simp_all
  show ?thesis
  proof (cases a)
    case (Inl e)
    with assms(1) False a have "r = Inl e" "t = release Tcp_server u"
      by (auto simp: tcp_server_create_def bindE_def alloc_def onErr_def simp flip: w1_def)
    with nb Inl w1 u show ?thesis by (auto simp: takes_def still_def)
  next
    case (Inr fd)
    obtain b v where b: "event_loop_add loop fd POLLIN Accept_handler u = (b, v)"
      by (cases "event_loop_add loop fd POLLIN Accept_handler u")
    note ad = event_loop_add_spec [OF b]
    show ?thesis
    proof (cases b)
      case (Inl e)
      with assms(1) False a b Inr have "r = Inl e" "t = release Tcp_server (net_close fd v)"
        by (auto simp: tcp_server_create_def bindE_def alloc_def onErr_def simp flip: w1_def)
      with nb Inl Inr w1 u ad show ?thesis by (auto simp: takes_def still_def)
    next
      case ok: (Inr loop1)
      with assms(1) False a b Inr
      have "r = Inr (\<lparr>tcp_accept_fd = fd, client_queue = [], fresh_client = 0\<rparr>, loop1)" "t = v"
        by (auto simp: tcp_server_create_def bindE_def alloc_def onErr_def ok_def simp flip: w1_def)
      with nb ok Inr w1 u ad assms(2) show ?thesis by (auto simp: takes_def still_def)
    qed
  qed
qed

lemma server_create_rest_spec:
  fixes w :: "'z server_world_scheme"
  assumes run: "server_create_rest port path d loop sfd w = (r, t)" and wf: "loop_wf loop"
  shows "case r of
      Inl e \<Rightarrow> pays w t (Desc sfd # early_blocks d loop)
    | Inr p \<Rightarrow> sp_dispatcher p = d \<and> sp_signalfd p = sfd \<and> client_queue (sp_tcp_server p) = [] \<and>
        loop_wf (sp_loop p) \<and>
        (\<exists>e. loop_entries (sp_loop p) = loop_entries loop @ [e] \<and> ev_handler e = Accept_handler) \<and>
        srv_workers t = [] \<and> srv_stopping t = srv_stopping w \<and> undef (trace t) = undef (trace w) \<and>
        (\<forall>q. bal (trace t) q = bal (trace w) q + int (count_list (storage_blocks @ queue_blocks (srv_runs t) @
           [Tcp_server, Desc (tcp_accept_fd (sp_tcp_server p)), Event_fd, Thread]) q))"
  using run unfolding server_create_rest_def
proof (cases rule: or_goto_cases)
  case (err e u)
  note os = open_storage_spec [OF err(1)]
  have "undone w u" using os by (simp add: undone_def even_def)
  moreover have "srv_workers u = []"
    using same_server_db [of u "w\<lparr>srv_workers := worker_queue_create\<rparr>"] os
    by (simp add: worker_queue_create_def)
  ultimately show ?thesis
    using err(2,3) by (simp add: destroy_worker_queue_def pays_label [OF _ gives_back_labels(5)])
next
  case (go a w1)
  have w1: "db_moves (w\<lparr>srv_workers := worker_queue_create\<rparr>) w1 storage_blocks"
    using open_storage_spec [OF go(1)] by simp
  then have s1: "srv_workers w1 = []" "srv_stopping w1 = srv_stopping w" "undef (trace w1) = undef (trace w)"
    "bal (trace w1) q = bal (trace w) q + int (count_list storage_blocks q)" for q
    using db_moves_server [OF w1] by (simp_all add: worker_queue_create_def db_moves_def)
  from go(2) show ?thesis
  proof (cases rule: or_goto_cases)
    case (err e u)
    have "storage_sqlite_get_run_queue w1 = (Inl e, u)"
      using err(1) by (simp add: storage_get_run_queue_def via_api_def get_api_def numof_apis_def)
    from get_run_queue_spec [OF this] have u: "db_moves w1 u []" by simp
    have "srv_workers u = []" using db_moves_server [OF u] s1 by simp
    with err u s1 show ?thesis
      using gives_back_at [OF gives_back_storage, of u]
        gives_back_at [OF gives_back_labels(5), of d loop sfd "storage_destroy STORAGE_TYPE_SQLITE u"]
      by (simp add: destroy_storage_eq pays_def db_moves_def)
  next
    case (go runs w2)
    have "storage_sqlite_get_run_queue w1 = (Inr runs, w2)"
      using go(1) by (simp add: storage_get_run_queue_def via_api_def get_api_def numof_apis_def)
    from get_run_queue_spec [OF this] have u: "db_moves w1 w2 (queue_blocks runs)"
      unfolding sum.case by blast
    let ?w2 = "w2\<lparr>srv_runs := runs\<rparr>"
    have s2: "srv_workers w2 = []" "srv_stopping w2 = srv_stopping w" "undef (trace w2) = undef (trace w)"
      "bal (trace w2) q = bal (trace w) q + int (count_list (storage_blocks @ queue_blocks runs) q)" for q
      using db_moves_server [OF u] u s1 by (simp_all add: db_moves_def)
    from go(2) show ?thesis
    proof (cases rule: or_goto_cases)
      case (err e u)
      from tcp_server_create_spec [OF err(1) wf] have u: "calm ?w2 u" by simp
      note m = same_server [of u ?w2] takesD(1) [OF u]
      have rq: "gives_back (run_queue_destroy runs) (queue_blocks runs)" by (rule gives_back_queues)
      show ?thesis
        using err(2,3) u m s2 gives_back_at [OF rq, of u]
          gives_back_at [OF gives_back_storage, of "run_queue_destroy runs u"]
          gives_back_at [OF gives_back_labels(5), of d loop sfd
            "storage_destroy STORAGE_TYPE_SQLITE (run_queue_destroy runs u)"]
        by (simp add: destroy_run_queue_eq pays_def takes_def)
    next
      case (go x w3)
      obtain tcp loop1 where x: "x = (tcp, loop1)" by (cases x)
      from tcp_server_create_spec [OF go(1) wf] x obtain e where
        tc: "client_queue tcp = []" "loop_wf loop1" "takes ?w2 w3 [Tcp_server, Desc (tcp_accept_fd tcp), Event_fd]"
        "loop_entries loop1 = loop_entries loop @ [e]" "ev_handler e = Accept_handler" by auto
      note m = same_server [of w3 ?w2] takesD(1) [OF tc(3)]
      from go(2) [unfolded x prod.case] show ?thesis
      proof (cases rule: or_goto_cases)
        case (err e' u)
        from pthread_init_spec [OF err(1)] have u: "calm w3 u" by simp
        note m' = same_server [of u w3] takesD(1) [OF u]
        have rq: "gives_back (run_queue_destroy runs) (queue_blocks runs)" by (rule gives_back_queues)
        show ?thesis
          using err(2,3) u m m' s2 tc gives_back_at [OF gives_back_tcp_server [OF tc(1)], of u]
            gives_back_at [OF rq, of "tcp_server_destroy tcp u"]
            gives_back_at [OF gives_back_storage, of "run_queue_destroy runs (tcp_server_destroy tcp u)"]
            gives_back_at [OF gives_back_labels(5), of d loop1 sfd
              "storage_destroy STORAGE_TYPE_SQLITE (run_queue_destroy runs (tcp_server_destroy tcp u))"]
          by (simp add: destroy_tcp_server_eq pays_def takes_def early_blocks_def)
      next
        case (go y w4)
        from pthread_init_spec [OF go(1)] have u: "takes w3 w4 [Thread]" by simp
        note m' = same_server [of w4 w3] takesD(1) [OF u]
        from go(2) have "r = Inr \<lparr>sp_dispatcher = d, sp_loop = loop1, sp_signalfd = sfd, sp_tcp_server = tcp\<rparr>" "t = w4"
          by simp_all
        with u m m' s2 tc show ?thesis by (simp add: takes_def)
      qed
    qed
  qed
qed

lemma server_create_late:
  fixes w :: "'z server_world_scheme"
  assumes run: "or_goto (in_world event_loop_create (m, u)) (map_prod id (destroy_cmd_dispatcher d)) (\<lambda>loop m.
      or_goto (signalfd_create_sigterms m) (map_prod id (destroy_event_loop d loop)) (\<lambda>sfd m.
      or_goto (in_world (event_loop_add loop sfd POLLIN (Other_handler ())) m)
          (map_prod id (close_signalfd d loop sfd)) (\<lambda>loop m.
        in_world (server_create_rest port path d loop sfd) m))) = (r, (m', t))"
    and g: "got w u (dispatcher_blocks d @ [Cond, Mutex, Server])" and st: "\<not> srv_stopping u"
  shows "case r of
      Inl e \<Rightarrow> pays w t []
    | Inr p \<Rightarrow> sp_dispatcher p = d \<and> client_queue (sp_tcp_server p) = [] \<and> loop_wf (sp_loop p) \<and>
        map ev_handler (loop_entries (sp_loop p)) = [Other_handler (), Accept_handler] \<and>
        \<not> ev_once (loop_entries (sp_loop p) ! 0) \<and> m' = sigterms_mask \<and> srv_workers t = [] \<and> \<not> srv_stopping t \<and> undef (trace t) = undef (trace w) \<and>
        (\<forall>q. bal (trace t) q = bal (trace w) q + int (count_list (storage_blocks @ queue_blocks (srv_runs t) @
           [Tcp_server, Desc (tcp_accept_fd (sp_tcp_server p)), Thread, Desc (sp_signalfd p)] @
           early_blocks (sp_dispatcher p) (sp_loop p)) q))"
  using run
proof (cases rule: or_goto_cases)
  case (err e mu)
  obtain v where mu: "mu = (m, v)" "event_loop_create u = (Inl e :: int + server_loop, v)"
    using err(1) by (cases mu) (simp add: in_world_eq)
  then have "even u v" by (auto simp: event_loop_create_def bindE_def alloc_def ok_def even_def split: if_splits)
  with err mu got_label [OF g this gives_back_labels(3)] show ?thesis by simp
next
  case (go loop mu)
  obtain u1 where mu: "mu = (m, u1)" "event_loop_create u = (Inr loop, u1)"
    using go(1) by (cases mu) (simp add: in_world_eq)
  then have loop: "loop = \<lparr>nfds = 0, loop_entries = [], fresh_addr = 0\<rparr>" and t1: "takes u u1 [Mem ''event_loop'']"
    by (auto simp: event_loop_create_def bindE_def alloc_def ok_def takes_def split: if_splits)
  have g1: "got w u1 (early_blocks d loop)" using got_takes [OF g t1] by (simp add: early_blocks_def loop)
  from go(2) [unfolded mu(1)] show ?thesis
  proof (cases rule: or_goto_cases)
    case (err e mu)
    obtain m1 v where mu: "mu = (m1, v)" by (cases mu)
    from signalfd_create_spec [OF err(1) [unfolded signalfd_create_sigterms_def mu]]
    have "even u1 v" by (simp add: calm_even)
    with err mu got_label [OF g1 this gives_back_labels(4)] show ?thesis by simp
  next
    case (go sfd mu)
    obtain m2 u2 where mu: "mu = (m2, u2)" by (cases mu)
    note sf = signalfd_create_spec [OF go(1) [unfolded signalfd_create_sigterms_def mu]]
    then have m2: "m2 = sigterms_mask" and t2: "takes u1 u2 [Desc sfd]" by simp_all
    have g2: "got w u2 (Desc sfd # early_blocks d loop)" using got_takes [OF g1 t2] by simp
    from go(2) [unfolded mu(1)] show ?thesis
    proof (cases rule: or_goto_cases)
      case (err e mu)
      obtain v where mu: "mu = (m2, v)" "event_loop_add loop sfd POLLIN (Other_handler ()) u2 = (Inl e, v)"
        using err(1) by (cases mu) (simp add: in_world_eq)
      from event_loop_add_spec [OF mu(2)] have "even u2 v" by (simp add: calm_even)
      with err mu got_label [OF g2 this gives_back_labels(5)] show ?thesis by simp
    next
      case (go loop1 mu)
      obtain u3 where mu: "mu = (m2, u3)" "event_loop_add loop sfd POLLIN (Other_handler ()) u2 = (Inr loop1, u3)"
        using go(1) by (cases mu) (simp add: in_world_eq)
      from event_loop_add_spec [OF mu(2)] obtain e where
        e: "takes u2 u3 [Event_fd]" "loop_wf loop1" "loop_entries loop1 = [e]" "ev_handler e = Other_handler ()" "\<not> ev_once e"
        by (auto simp: loop loop_wf_def)
      have g3: "got w u3 (Desc sfd # early_blocks d loop1)"
        using got_takes [OF g2 e(1)] by (auto simp: got_def early_blocks_def loop e(3))
      from go(2) [unfolded mu(1) in_world_eq] have
        rest: "server_create_rest port path d loop1 sfd u3 = (r, t)" "m' = m2" by simp_all
      note rs = server_create_rest_spec [OF rest(1) e(2)]
      have st3: "\<not> srv_stopping u3"
        using st same_server(3) [of u1 u] same_server(3) [of u2 u1] same_server(3) [of u3 u2]
          takesD(1) [OF t1] takesD(1) [OF t2] takesD(1) [OF e(1)] by simp
      show ?thesis
      proof (cases r)
        case (Inl e)
        with rs g3 show ?thesis by (auto intro: got_pays)
      next
        case (Inr p)
        with rs obtain f where f: "loop_entries (sp_loop p) = [e, f]" "ev_handler f = Accept_handler"
          by (auto simp: e(3))
        from rs Inr g3 have "bal (trace t) q = bal (trace w) q + int (count_list (storage_blocks @
            queue_blocks (srv_runs t) @ [Tcp_server, Desc (tcp_accept_fd (sp_tcp_server p)), Thread, Desc (sp_signalfd p)] @
            early_blocks (sp_dispatcher p) (sp_loop p)) q)" for q
          by (simp add: got_def early_blocks_def f(1) e(3))
        with rs Inr g3 st3 m2 rest(2) f e(4,5) show ?thesis by (simp add: got_def)
      qed
    qed
  qed
qed

lemma server_create_spec:
  fixes w :: "'z server_world_scheme" and J :: "'j jsonc"
  assumes run: "server_create J S port path (m, w) = (r, (m', t))"
  shows "case r of
      Inl e \<Rightarrow> pays w t []
    | Inr p \<Rightarrow> sp_dispatcher p = served J S \<and> client_queue (sp_tcp_server p) = [] \<and> loop_wf (sp_loop p) \<and>
        map ev_handler (loop_entries (sp_loop p)) = [Other_handler (), Accept_handler] \<and>
        \<not> ev_once (loop_entries (sp_loop p) ! 0) \<and> m' = sigterms_mask \<and> srv_workers t = [] \<and> \<not> srv_stopping t \<and> undef (trace t) = undef (trace w) \<and>
        (\<forall>q. bal (trace t) q = bal (trace w) q + int (count_list (storage_blocks @ queue_blocks (srv_runs t) @
           [Tcp_server, Desc (tcp_accept_fd (sp_tcp_server p)), Thread, Desc (sp_signalfd p)] @
           early_blocks (sp_dispatcher p) (sp_loop p)) q))"
proof -
  from run obtain a u1 where a: "alloc Server w = (a, u1)" by (cases "alloc Server w") auto
  show ?thesis
  proof (cases a)
    case (Inl e)
    with run a have "r = Inl e" "t = u1"
      by (auto simp: server_create_def bindE_def in_world_def)
    with a Inl show ?thesis by (auto simp: alloc_def pays_def split: if_splits)
  next
    case (Inr x)
    with a have g1: "got w u1 [Server]" by (auto simp: alloc_def got_def split: if_splits)
    from run a Inr have "or_goto (in_world (pthread_init Mutex) (m, u1)) (map_prod id free_server) (\<lambda>_ m.
      or_goto (in_world (pthread_init Cond) m) (map_prod id destroy_mtx) (\<lambda>_ m.
      or_goto (in_world (cmd_dispatcher_create (server_commands J S) ())
          (map_prod id (\<lambda>w. w\<lparr>srv_stopping := False\<rparr>) m)) (map_prod id destroy_cv) (\<lambda>d m.
      or_goto (in_world event_loop_create m) (map_prod id (destroy_cmd_dispatcher d)) (\<lambda>loop m.
      or_goto (signalfd_create_sigterms m) (map_prod id (destroy_event_loop d loop)) (\<lambda>sfd m.
      or_goto (in_world (event_loop_add loop sfd POLLIN (Other_handler ())) m)
          (map_prod id (close_signalfd d loop sfd)) (\<lambda>loop m.
        in_world (server_create_rest port path d loop sfd) m)))))) = (r, (m', t))"
      by (simp add: server_create_def bindE_def in_world_def)
    then show ?thesis
    proof (cases rule: or_goto_cases)
      case (err e mu)
      obtain u where mu: "mu = (m, u)" "pthread_init Mutex u1 = (Inl e, u)"
        using err(1) by (cases mu) (simp add: in_world_eq)
      from pthread_init_spec [OF mu(2)] have "even u1 u" by (simp add: calm_even)
      with err mu got_label [OF g1 this, of free_server] show ?thesis
        by (simp add: free_server_def [abs_def])
    next
      case (go x1 mu)
      obtain u2 where mu: "mu = (m, u2)" "pthread_init Mutex u1 = (Inr x1, u2)"
        using go(1) by (cases mu) (simp add: in_world_eq)
      have "takes u1 u2 [Mutex]" using pthread_init_spec [OF mu(2)] by simp
      from got_takes [OF g1 this] have g2: "got w u2 [Mutex, Server]" by simp
      from go(2) [unfolded mu(1)] show ?thesis
      proof (cases rule: or_goto_cases)
        case (err e mu)
        obtain u where mu: "mu = (m, u)" "pthread_init Cond u2 = (Inl e, u)"
          using err(1) by (cases mu) (simp add: in_world_eq)
        from pthread_init_spec [OF mu(2)] have "even u2 u" by (simp add: calm_even)
        with err mu got_label [OF g2 this gives_back_labels(1)] show ?thesis by simp
      next
        case (go x2 mu)
        obtain u3 where mu: "mu = (m, u3)" "pthread_init Cond u2 = (Inr x2, u3)"
          using go(1) by (cases mu) (simp add: in_world_eq)
        let ?u3 = "u3\<lparr>srv_stopping := False\<rparr>"
        have "takes u2 u3 [Cond]" using pthread_init_spec [OF mu(2)] by simp
        from got_takes [OF g2 this] have g3: "got w ?u3 [Cond, Mutex, Server]" by (simp add: got_def)
        from go(2) [unfolded mu(1)] show ?thesis
        proof (cases rule: or_goto_cases)
          case (err e mu)
          obtain u where mu: "mu = (m, u)" "cmd_dispatcher_create (server_commands J S) () ?u3 =
              (Inl e :: int + ('j, 'z server_world_scheme) server_dispatcher, u)"
            using err(1) by (cases mu) (simp add: in_world_eq)
          from dispatcher_create_spec [OF mu(2)] have "even ?u3 u" by simp
          with err mu got_label [OF g3 this gives_back_labels(2)] show ?thesis by simp
        next
          case (go d mu)
          obtain u4 where mu: "mu = (m, u4)" "cmd_dispatcher_create (server_commands J S) () ?u3 = (Inr d, u4)"
            using go(1) by (cases mu) (simp add: in_world_eq)
          note dc = dispatcher_create_spec [OF mu(2)]
          have d: "d = served J S" using dc by (simp add: served_def)
          have "takes ?u3 u4 (dispatcher_blocks d)" using dc unfolding sum.case by blast
          from got_takes [OF g3 this] have g4: "got w u4 (dispatcher_blocks d @ [Cond, Mutex, Server])" .
          have st4: "\<not> srv_stopping u4" using same_server(3) [of u4 ?u3] dc by simp
          show ?thesis
            using server_create_late [OF go(2) [unfolded mu(1)] g4 st4] unfolding d .
        qed
      qed
    qed
  qed
qed

section \<open>Destroying it\<close>

lemma server_destroy_bal:
  fixes w :: "'z server_world_scheme"
  assumes "client_queue (sp_tcp_server p) = []"
  shows "undef (trace (server_destroy p w)) = undef (trace w) \<and>
    bal (trace (server_destroy p w)) q = bal (trace w) q - int (count_list (storage_blocks @ queue_blocks (srv_runs w) @
      concat (map worker_resources (srv_workers w)) @
      [Tcp_server, Desc (tcp_accept_fd (sp_tcp_server p)), Thread, Desc (sp_signalfd p)] @
      early_blocks (sp_dispatcher p) (sp_loop p)) q)"
proof -
  let ?u1 = "tcp_server_destroy (sp_tcp_server p) (release Thread (used w))"
  let ?u2 = "storage_destroy STORAGE_TYPE_SQLITE ?u1"
  let ?u3 = "run_queue_destroy (srv_runs w) ?u2"
  let ?u4 = "worker_queue_destroy (srv_workers w) ?u3"
  let ?u5 = "signalfd_destroy (sp_signalfd p) ?u4"
  let ?u6 = "event_loop_destroy (sp_loop p) ?u5"
  let ?u7 = "cmd_dispatcher_destroy (sp_dispatcher p) ?u6"
  note tc = gives_back_tcp_server [OF assms]
  have "srv_runs ?u2 = srv_runs w" "srv_workers ?u3 = srv_workers w"
    by (simp_all add: gives_back_server [OF tc] gives_back_server [OF gives_back_storage]
        gives_back_server [OF gives_back_queues(2)])
  then have eq: "server_destroy p w = release Server (pthread_destroy Mutex (pthread_destroy Cond ?u7))"
    by (simp add: server_destroy_def Let_def)
  show ?thesis
    using gives_back_at [OF tc, of "release Thread (used w)"] gives_back_at [OF gives_back_storage, of ?u1]
      gives_back_at [OF gives_back_queues(2), of "srv_runs w" ?u2]
      gives_back_at [OF gives_back_queues(1), of "srv_workers w" ?u3]
      gives_back_at [OF gives_back_close(2), of "sp_signalfd p" ?u4]
      gives_back_at [OF gives_back_event_loop, of "sp_loop p" ?u5]
      gives_back_at [OF gives_back_dispatcher, of "sp_dispatcher p" ?u6]
    by (simp add: eq pthread_destroy_def early_blocks_def)
qed

section \<open>When listening fails\<close>

text \<open>
  Only the listening thread sets \<open>stopping\<close>. Once its loop was left because a handler failed,
  the main thread and the threads of the connections are all that runs.
\<close>

definition abandoned_step :: "'j jsonc \<Rightarrow> sys \<Rightarrow> sys \<Rightarrow> bool" where
  "abandoned_step J s t \<longleftrightarrow> main_step J s t \<or> spurious_step s t \<or>
     (\<exists>i. helpers s i \<noteq> HLocked SetStopping \<and> helper_step i s t)"

definition abandoned :: "sys \<Rightarrow> bool" where
  "abandoned s \<longleftrightarrow> \<not> srv_stopping (shared s) \<and> main s \<notin> {MUnlock, MDone}"

lemma assign_stopping: "srv_stopping (server_assign_run J w) = srv_stopping (w :: server_world)"
proof (cases "srv_runs w"; cases "srv_workers w")
  fix x xs y ys
  assume "srv_runs w = x # xs" "srv_workers w = y # ys"
  from server_assign_run_spec [OF this, of J] show ?thesis by (auto simp: Let_def)
qed (simp_all add: server_assign_run_def)

lemma abandoned_kept:
  assumes "abandoned s" "abandoned_step J s t"
  shows "abandoned t"
  using assms(2) unfolding abandoned_step_def
proof (elim disjE exE conjE)
  assume "main_step J s t"
  then show ?thesis using assms(1) by cases (auto simp: abandoned_def assign_stopping)
next
  assume "spurious_step s t"
  then show ?thesis using assms(1) by cases (auto simp: abandoned_def)
next
  fix i
  assume no: "helpers s i \<noteq> HLocked SetStopping" and st: "helper_step i s t"
  from st show ?thesis
  proof cases
    case (helper_change c)
    with no have "srv_stopping (apply_op c (shared s)) = srv_stopping (shared s)" by (cases c) auto
    with helper_change assms(1) show ?thesis by (simp add: abandoned_def)
  qed (use assms(1) in \<open>auto simp: abandoned_def\<close>)
qed

interpretation abandoned_server: inductive_invariant abandoned "abandoned_step J" abandoned for J
  by unfold_locales (auto intro: abandoned_kept)

section \<open>Properties\<close>

text \<open>What a creation runs, to evaluate one.\<close>

lemmas creation_defs = server_create_def bindE_def in_world_def alloc_def sample_server_def answer_def used_def emit_def
  pthread_init_def lib_def andThen_def ok_def cmd_dispatcher_create_def copy_cmds_def copy_cmd_def onErr_def
  server_commands_def event_loop_create_def signalfd_create_sigterms_def signalfd_create_def
  signal_set_mask_internal_def pthread_sigmask_def sys_def event_loop_add_def event_fd_create_def
  event_loop_add_internal_def server_create_rest_def open_storage_def storage_sqlite_settings_create_def
  storage_create_def via_api_def get_api_def numof_apis_def after_def storage_sqlite_create_def
  sqlite_init_def sqlite_open_rw_def sqlite_open_def storage_sqlite_setup_def sqlite_set_foreign_keys_def
  storage_sqlite_upgrade_def sqlite_get_user_version_def sqlite_prepare_def sqlite_step_def fresh_database_def
  sqlite_column_int_def int32_def sqlite_finalize_def sqlite_schemas_def storage_sqlite_prepare_statements_def
  prepared_stmt_init_def storage_settings_destroy_def storage_sqlite_settings_destroy_def
  storage_get_run_queue_def storage_sqlite_get_run_queue_def prepared_stmt_lock_def sqlite_bind_def
  storage_sqlite_rows_to_runs_def sql_get_run_queue_def sql_runs_view_def reset_stmt_def prepared_stmt_unlock_def
  sqlite_reset_def run_queue_create_def tcp_server_create_def net_bind_def net_bind_one_def sys_fd_def Let_def
  failing_def



text \<open>When a server cannot be created, every label of \<open>server_create\<close> gives back what was taken
  before it: unless an undefined step was taken (a database that cannot be set up), everything
  but copied command names and the handle of a database that cannot be opened is given back.\<close>

theorem server_create_unwinds:
  assumes "server_create J S port path (m, w) = (Inl e, (m', t))"
    and "undef (trace t) = undef (trace w)" "q \<notin> {Lib ''sqlite3'', Mem ''cmd_name''}"
  shows "bal (trace t) q = bal (trace w) q"
  using server_create_spec [OF assms(1)] assms(2,3) by (simp add: pays_def)

theorem server_create_unwinds_witness:
  "bal (trace (snd (snd (server_create sample_json sample_sodium None ''db''
     ([], sample_server\<lparr>answers := [0, 0, 0, 0, 0, 0, 0, 0, 0, -1]\<rparr>))))) (Mem ''cmds'') = 0"
proof -
  let ?w = "sample_server\<lparr>answers := [0, 0, 0, 0, 0, 0, 0, 0, 0, -1]\<rparr>"
  let ?run = "server_create sample_json sample_sodium None ''db'' ([], ?w)"
  obtain t where "?run = (Inl (-1), ([], t))" "undef (trace t) = []"
    by (auto simp: creation_defs destroy_cmd_dispatcher_def destroy_cv_def destroy_mtx_def free_server_def
        pthread_destroy_def cmd_dispatcher_destroy_def free_cmd_def)
  with server_create_unwinds [OF this(1), of "Mem ''cmds''"] show ?thesis by (simp add: sample_server_def)
qed


definition failing_accept :: server_world where
  "failing_accept = sample_server\<lparr>answers := [0, 0, 0, 0, -1]\<rparr>"


end
