(* ===== verification/Process.thy ===== *)
theory Process
  imports File Protocol Log
begin

text \<open>
  \<open>src/process.c\<close>: running a child and capturing what it writes. The parent's side follows the
  code through the failure of every call; the child's side says how the child ends, and the
  macros of \<open>sys/wait.h\<close> turn that into the exit code the parent sees.
\<close>

section \<open>Exit codes\<close>

definition WIFEXITED :: "int \<Rightarrow> bool" where
  "WIFEXITED status \<longleftrightarrow> status mod 128 = 0"

definition WEXITSTATUS :: "int \<Rightarrow> int" where
  "WEXITSTATUS status = status div 256 mod 256"

definition WTERMSIG :: "int \<Rightarrow> int" where
  "WTERMSIG status = status mod 128"

definition WIFSIGNALED :: "int \<Rightarrow> bool" where
  "WIFSIGNALED status \<longleftrightarrow> status mod 128 \<noteq> 0 \<and> status mod 128 \<noteq> 127"

definition exit_code_of :: "int \<Rightarrow> int" where
  "exit_code_of status =
     (if WIFEXITED status then WEXITSTATUS status
      else if WIFSIGNALED status then - WTERMSIG status
      else 1)"

text \<open>The status the kernel stores for a child that called \<open>exit(c)\<close> or died of a signal.\<close>

definition exited_status :: "int \<Rightarrow> int" where
  "exited_status c = c mod 256 * 256"

definition killed_status :: "int \<Rightarrow> bool \<Rightarrow> int" where
  "killed_status s core = (if core then 128 else 0) + s"

section \<open>The child\<close>

text \<open>A child ends up replaced by the program or exits with a code; \<open>execvpe\<close> returns only on failure.\<close>

datatype child_end =
    Replaced "string list" "string list"
  | Exits int

definition exec_child ::
  "string list \<Rightarrow> string list option \<Rightarrow> 'z world_scheme \<Rightarrow> child_end \<times> 'z world_scheme" where
  "exec_child args envp w =
     (let env = (case envp of None \<Rightarrow> [] | Some e \<Rightarrow> e)
      in if answer w < 0 then (Exits (answer w), used w) else (Replaced args env, used w))"

definition redirect_and_exec_child ::
  "int \<times> int \<Rightarrow> string list \<Rightarrow> string list option \<Rightarrow> 'z world_scheme \<Rightarrow> child_end \<times> 'z world_scheme" where
  "redirect_and_exec_child pipe_fds args envp w =
     (case sys (file_close (fst pipe_fds) w) of
        (Inl e, w1) \<Rightarrow> (Exits e, w1)
      | (Inr _, w1) \<Rightarrow>
          (case sys w1 of
             (Inl e, w2) \<Rightarrow> (Exits e, w2)
           | (Inr _, w2) \<Rightarrow> exec_child args envp w2))"

section \<open>The parent\<close>

text \<open>
  \<open>fork\<close> in the parent: an error, or a child with a positive pid, to be waited for. The wait
  status and the two ends of a pipe are further answers.
\<close>

definition fork :: "('z world_scheme, int) cfun" where
  "fork = bindE sys (\<lambda>a. andThen (emit (Acquire (Child (a + 1)))) (ok (a + 1)))"

definition take_answer :: "('z world_scheme, int) cfun" where
  "take_answer w = (Inr (answer w), used w)"

definition wait_for_child :: "int \<Rightarrow> ('z world_scheme, int) cfun" where
  "wait_for_child pid =
     bindE sys (\<lambda>_.
     bindE take_answer (\<lambda>status.
       andThen (release (Child pid)) (ok (exit_code_of status))))"

text \<open>The children that were started, with their environment, are noted in the trace.\<close>

definition command_line :: "string list \<Rightarrow> string list option \<Rightarrow> string" where
  "command_line args envp =
     concat (map (\<lambda>a. a @ '' '') ((case envp of None \<Rightarrow> [] | Some env \<Rightarrow> env) @ args))"

definition fork_child ::
  "string list \<Rightarrow> string list option \<Rightarrow> ('z world_scheme, int) cfun" where
  "fork_child args envp =
     bindE fork (\<lambda>pid. andThen (emit (Note (command_line args envp))) (ok pid))"

definition process_execute ::
  "string list \<Rightarrow> string list option \<Rightarrow> ('z world_scheme, int) cfun" where
  "process_execute args envp = bindE (fork_child args envp) wait_for_child"

definition pipe2 :: "('z world_scheme, int \<times> int) cfun" where
  "pipe2 w =
     (if answer w < 0 then (Inl (-1), used w)
      else
        let rd = answer w; wr = \<bar>answer (used w)\<bar>
        in (Inr (rd, wr), emit (Acquire (Desc wr)) (emit (Acquire (Desc rd)) (used (used w)))))"

text \<open>
  The output is an out-parameter, so it is returned in every case. When \<open>fork\<close> fails, \<open>ret\<close> is
  still the 0 that \<open>pipe2\<close> returned. When waiting fails, the data is freed and the pointer to
  it stays. The second \<open>close\<close> of the write end fails with \<open>EBADF\<close>, which is ignored: the
  process has one thread, so the number cannot have been reused.
\<close>

definition process_execute_and_capture ::
  "string list \<Rightarrow> string list option \<Rightarrow> process_output \<Rightarrow> 'z world_scheme \<Rightarrow> ((int + unit) \<times> process_output) \<times> 'z world_scheme" where
  "process_execute_and_capture args envp result w =
     (case pipe2 w of
        (Inl _, w1) \<Rightarrow> ((Inl (-1), result), w1)
      | (Inr (rd, wr), w1) \<Rightarrow>
          (case fork_child args envp w1 of
             (Inl _, w2) \<Rightarrow> ((Inr (), result), file_close wr (file_close rd w2))
           | (Inr child_pid, w2) \<Rightarrow>
               (case file_read rd (file_close wr w2) of
                  (Inl e, w3) \<Rightarrow> ((Inl e, result), file_close rd w3)
                | (Inr contents, w3) \<Rightarrow>
                    (let result1 = result\<lparr>po_data := Some contents, po_data_size := length contents\<rparr>
                     in (case wait_for_child child_pid w3 of
                           (Inl e, w4) \<Rightarrow>
                             ((Inl e, result1), file_close rd (release (Mem ''contents'') w4))
                         | (Inr ec, w4) \<Rightarrow> ((Inr (), result1\<lparr>po_ec := ec\<rparr>), file_close rd w4))))))"

text \<open>
  \<open>process_output_dump\<close> makes the two log entries \<open>dump_log\<close>, which change nothing that is modelled
  of the world.
\<close>

definition dump_log :: "process_output \<Rightarrow> log_call list" where
  "dump_log output =
     [LogInfo (''Process exit code: '' @ decimal (po_ec output) @ newline),
      LogInfo (''Process output: '' @ decimal (int (po_data_size output)) @ '' bytes'' @ newline)]"

definition process_output_dump :: "process_output \<Rightarrow> 'z world_scheme \<Rightarrow> 'z world_scheme" where
  "process_output_dump output w = w"

section \<open>What a capture leaves behind\<close>

lemma exit_code_range: "-126 \<le> exit_code_of status \<and> exit_code_of status \<le> 255"
proof -
  have "0 \<le> status mod 128" "status mod 128 < 128" "0 \<le> status div 256 mod 256"
    "status div 256 mod 256 < 256" by simp_all
  then show ?thesis
    by (auto simp: exit_code_of_def WEXITSTATUS_def WIFSIGNALED_def WTERMSIG_def)
qed

lemma exit_code_0 [simp]: "exit_code_of 0 = 0"
  by (simp add: exit_code_of_def WIFEXITED_def WEXITSTATUS_def)

lemma wait_for_child_spec:
  assumes "wait_for_child pid w = (r, t)"
  shows "rx t = rx w \<and> still w t \<and> noted (trace t) = noted (trace w) \<and> (lucky w \<longrightarrow> r = Inr 0 \<and> lucky t) \<and> undef (trace t) = undef (trace w) \<and>
    world.more t = world.more w \<and> (reliable w \<longrightarrow> is_ok r \<and> reliable t) \<and>
    (case r of
       Inl e \<Rightarrow> e < 0 \<and> (\<forall>q. bal (trace t) q = bal (trace w) q)
     | Inr ec \<Rightarrow> -126 \<le> ec \<and> ec \<le> 255 \<and>
         (\<forall>q. bal (trace t) q = bal (trace w) q - (if q = Child pid then 1 else 0)))"
  using assms
  by (auto simp: wait_for_child_def take_answer_def bindE_def sys_def andThen_def ok_def still_def
      exit_code_range split: if_splits)

lemma capture_spec:
  assumes run: "process_execute_and_capture args envp out w = ((r, out'), t)"
  shows "undef (trace t) = undef (trace w) \<and> world.more t = world.more w \<and>
    (\<forall>d. sent d (trace t) = sent d (trace w)) \<and> rpc_id t = rpc_id w \<and>
    (\<forall>d. d \<noteq> answer w \<longrightarrow> rx t d = rx w d) \<and>
    (reliable w \<longrightarrow> noted (trace t) = noted (trace w) @ [command_line args envp]) \<and>
    (reliable w \<longrightarrow> reliable t) \<and> (lucky w \<longrightarrow> lucky t) \<and>
    ((\<exists>ec. r = Inr () \<and> out' = \<lparr>po_ec = ec, po_data = Some (rx w (answer w)),
          po_data_size = length (rx w (answer w))\<rparr> \<and> -126 \<le> ec \<and> ec \<le> 255 \<and>
        (\<forall>q. bal (trace t) q = bal (trace w) q + (if q = Mem ''contents'' then 1 else 0))) \<or>
     (\<not> reliable w \<and> r = Inr () \<and> out' = out \<and> (\<forall>q. bal (trace t) q = bal (trace w) q)) \<or>
     (\<not> reliable w \<and> \<not> is_ok r \<and> (\<exists>pid. \<forall>q. q \<noteq> Child pid \<longrightarrow> bal (trace t) q = bal (trace w) q)))"
proof (cases "answer w < 0")
  case True
  with run show ?thesis
    by (auto simp: process_execute_and_capture_def pipe2_def)
next
  case False
  define rd wr where "rd = answer w" and "wr = \<bar>answer (used w)\<bar>"
  define w1 where "w1 = emit (Acquire (Desc wr)) (emit (Acquire (Desc rd)) (used (used w)))"
  have p: "pipe2 w = (Inr (rd, wr), w1)"
    using False by (simp add: pipe2_def rd_def wr_def w1_def Let_def)
  have w1: "rx w1 = rx w" "reliable w \<longrightarrow> reliable w1" "lucky w \<longrightarrow> lucky w1" by (simp_all add: w1_def)
  show ?thesis
  proof (cases "answer w1 < 0")
    case True
    with run p have "r = Inr ()" "out' = out" "t = file_close wr (file_close rd (used w1))"
      by (auto simp: process_execute_and_capture_def fork_child_def fork_def bindE_def sys_def)
    moreover have "\<not> reliable w" using True w1(2) by auto
    ultimately show ?thesis by (auto simp: w1_def file_close_def)
  next
    case nofail: False
    define pid where "pid = answer w1 + 1"
    define w2 where
      "w2 = file_close wr (emit (Note (command_line args envp)) (emit (Acquire (Child pid)) (used w1)))"
    have f: "fork_child args envp w1 =
      (Inr pid, emit (Note (command_line args envp)) (emit (Acquire (Child pid)) (used w1)))"
      using nofail by (simp add: fork_child_def fork_def bindE_def sys_def andThen_def ok_def pid_def)
    have w2: "rx w2 = rx w" "reliable w \<longrightarrow> reliable w2" "lucky w \<longrightarrow> lucky w2"
      using w1 by (simp_all add: w2_def file_close_def)
    obtain x w3 where rdx: "file_read rd w2 = (x, w3)" by (cases "file_read rd w2")
    note fr = meetsD [OF file_read_spec rdx]
    show ?thesis
    proof (cases x)
      case (Inl e)
      with run p f rdx have "r = Inl e" "t = file_close rd w3"
        by (auto simp: process_execute_and_capture_def w2_def)
      with fr Inl w2 show ?thesis
        by (auto simp: w2_def w1_def rd_def [symmetric] file_close_def takes_def)
    next
      case (Inr bs)
      obtain y w4 where wt: "wait_for_child pid w3 = (y, w4)" by (cases "wait_for_child pid w3")
      note ws = wait_for_child_spec [OF wt]
      have bs: "bs = rx w rd" using fr Inr w2 by auto
      show ?thesis
      proof (cases y)
        case (Inl e)
        with run p f rdx wt Inr have "r = Inl e" "t = file_close rd (release (Mem ''contents'') w4)"
          by (auto simp: process_execute_and_capture_def w2_def Let_def)
        with fr ws Inl \<open>x = Inr bs\<close> w2 show ?thesis
          by (auto simp: w2_def w1_def rd_def [symmetric] file_close_def takes_def still_def)
      next
        case (Inr ec)
        with run p f rdx wt \<open>x = Inr bs\<close> have r: "r = Inr ()" "t = file_close rd w4"
          "out' = \<lparr>po_ec = ec, po_data = Some bs, po_data_size = length bs\<rparr>"
          by (auto simp: process_execute_and_capture_def w2_def Let_def)
        with fr ws Inr \<open>x = Inr bs\<close> w2 bs show ?thesis
          by (auto simp: w2_def w1_def file_close_def takes_def still_def rd_def [symmetric])
      qed
    qed
  qed
qed

section \<open>Properties\<close>

text \<open>C33: A child that exits with code \<open>c\<close> is reported with the lowest eight bits of \<open>c\<close> (so a child
  that could not be executed and returns -1 is reported with 255), one that dies of signal \<open>s\<close>
  with \<open>-s\<close>, whether or not it dumps core, and no status leads outside -126 to 255.\<close>

theorem child_exit_code:
  assumes "0 < s" "s < 127"
  shows "exit_code_of (exited_status c) = c mod 256 \<and>
    exit_code_of (killed_status s core) = - s \<and>
    - 126 \<le> exit_code_of status \<and> exit_code_of status \<le> 255"
proof -
  have "c mod 256 * 256 mod 128 = 0" by presburger
  then have "exit_code_of (exited_status c) = c mod 256"
    by (simp add: exit_code_of_def exited_status_def WIFEXITED_def WEXITSTATUS_def)
  moreover from assms have "killed_status s core mod 128 = s"
    by (simp add: killed_status_def)
  ultimately show ?thesis
    using assms exit_code_range
    by (simp add: exit_code_of_def [of "killed_status s core"] WIFEXITED_def WIFSIGNALED_def WTERMSIG_def)
qed

theorem child_exit_code_witness:
  "exit_code_of (exited_status (-1)) = 255 \<and> exit_code_of (killed_status 9 True) = - 9"
  using child_exit_code [of 9 "-1" True 0] by simp




end
