(* ===== verification/Ci.thy ===== *)
theory Ci
  imports Process Strings
begin

text \<open>
  \<open>src/ci.c\<close>, with \<open>src/git.c\<close> and the directory functions of \<open>src/file.c\<close> it is built from:
  cloning a repository to a temporary directory, checking out a revision, running its CI
  script there, and cleaning up. libgit2 and the file system are not part of the sources:
  their calls are answered by the environment, and what a checkout puts into the working
  directory is given by the parameter \<open>revisions\<close>.
\<close>

section \<open>Files and directories\<close>

text \<open>
  \<open>cwd\<close> is the current directory and \<open>trees d\<close> the entries of directory \<open>d\<close>, by the names
  the scripts have (\<open>./ci\<close> and so on).
\<close>

record ci_world = world +
  cwd :: string
  trees :: "string \<Rightarrow> string \<Rightarrow> file_type option"

abbreviation Tmp_dir :: resource where "Tmp_dir \<equiv> Lib ''tmp_dir''"
abbreviation Old_pwd :: resource where "Old_pwd \<equiv> Mem ''old_pwd''"
abbreviation Repo :: resource where "Repo \<equiv> Lib ''git_repository''"
abbreviation Object :: resource where "Object \<equiv> Lib ''git_object''"

text \<open>
  \<open>nftw\<close> with \<open>FTW_DEPTH\<close> visits the entries below a directory and then the directory itself
  (\<open>None\<close>), and stops at the first call back that does not return 0. Opening the walk can fail
  too. \<open>walk d\<close> lists the entries of \<open>d\<close>.
\<close>

definition unlink_cb :: "string \<Rightarrow> string option \<Rightarrow> ('z ci_world_scheme, unit) cfun" where
  "unlink_cb dir fpath =
     bindE sys (\<lambda>_.
       andThen
         (case fpath of
            Some entry \<Rightarrow> (\<lambda>w. w\<lparr>trees := (trees w)(dir := (trees w dir)(entry := None))\<rparr>)
          | None \<Rightarrow> release Tmp_dir)
         (ok ()))"

fun nftw :: "string \<Rightarrow> string option list \<Rightarrow> ('z ci_world_scheme, unit) cfun" where
  "nftw dir [] = ok ()"
| "nftw dir (fpath # rest) = bindE (unlink_cb dir fpath) (\<lambda>_. nftw dir rest)"

definition rm_rf :: "(string \<Rightarrow> string list) \<Rightarrow> string \<Rightarrow> ('z ci_world_scheme, unit) cfun" where
  "rm_rf walk dir = bindE sys (\<lambda>_. nftw dir (map Some (walk dir) @ [None]))"

text \<open>
  With \<open>want_old\<close> (a non-null \<open>old\<close>) the previous directory is stored; on a failure it is
  freed again.
\<close>

definition chdir_wrapper :: "string \<Rightarrow> bool \<Rightarrow> ('z ci_world_scheme, string) cfun" where
  "chdir_wrapper dir want_old =
     bindE (if want_old then alloc Old_pwd else ok ()) (\<lambda>_ w.
       onErr (bindE sys (\<lambda>_ v. (Inr (cwd w), v\<lparr>cwd := dir\<rparr>)))
         (if want_old then release Old_pwd else (\<lambda>v. v)) w)"

section \<open>git\<close>

record git_repository =
  repo_workdir :: string
  repo_origin :: string

definition libgit_init :: "('z world_scheme, unit) cfun" where
  "libgit_init = bindE sys (\<lambda>_. andThen (emit (Acquire (Lib ''libgit2''))) (ok ()))"

definition libgit_shutdown :: "'z world_scheme \<Rightarrow> 'z world_scheme" where
  "libgit_shutdown w = release (Lib ''libgit2'') w"

text \<open>Nothing is checked out by the clone (\<open>GIT_CHECKOUT_NONE\<close>).\<close>

definition libgit_clone :: "string \<Rightarrow> string \<Rightarrow> ('z ci_world_scheme, git_repository) cfun" where
  "libgit_clone url dir =
     bindE sys (\<lambda>_.
     bindE sys (\<lambda>_.
       andThen (emit (Acquire Repo)) (ok \<lparr>repo_workdir = dir, repo_origin = url\<rparr>)))"

definition mkdtemp :: "('z ci_world_scheme, string) cfun" where
  "mkdtemp w =
     (if answer w < 0 then (Inl (-1), used w)
      else
        let dir = ''/tmp/git.'' @ decimal (answer w)
        in (Inr dir, emit (Acquire Tmp_dir) ((used w)\<lparr>trees := (trees w)(dir := (\<lambda>_. None))\<rparr>)))"

text \<open>When the clone fails, the temporary directory stays.\<close>

definition libgit_clone_to_tmp :: "string \<Rightarrow> ('z ci_world_scheme, git_repository) cfun" where
  "libgit_clone_to_tmp url = bindE mkdtemp (\<lambda>dir. libgit_clone url dir)"

definition libgit_repository_free :: "'z world_scheme \<Rightarrow> 'z world_scheme" where
  "libgit_repository_free w = release Repo w"

type_synonym revisions = "string \<Rightarrow> string \<Rightarrow> string \<Rightarrow> file_type option"

definition libgit_checkout ::
  "revisions \<Rightarrow> git_repository \<Rightarrow> string \<Rightarrow> ('z ci_world_scheme, unit) cfun" where
  "libgit_checkout revisions repo rv =
     bindE sys (\<lambda>_.
       andThen (emit (Acquire Object))
         (after
            (bindE sys (\<lambda>_.
             bindE sys (\<lambda>_.
               andThen
                 (\<lambda>w. w\<lparr>trees := (trees w)(repo_workdir repo := revisions (repo_origin repo) rv)\<rparr>)
                 (bindE sys (\<lambda>_. ok ())))))
            (release Object)))"

section \<open>A run\<close>

definition ci_scripts :: "string list" where
  "ci_scripts = [''./.ci.sh'', ''./.ci'', ''./ci.sh'', ''./ci'']"

definition ci_env :: "string list" where
  "ci_env = [''CI=y'', ''CIMPLE=y'']"

type_synonym 's runner = "process_output \<Rightarrow> 's \<Rightarrow> ((int + unit) \<times> process_output) \<times> 's"

definition ci_run_script :: "string \<Rightarrow> 'z world_scheme runner" where
  "ci_run_script script result = process_execute_and_capture [script] (Some ci_env) result"

fun ci_run_loop :: "string list \<Rightarrow> 'z ci_world_scheme runner" where
  "ci_run_loop [] result w = ((Inl (-1), result), w)"
| "ci_run_loop (script # rest) result w =
     (if \<not> file_exists (trees w (cwd w)) script then ci_run_loop rest result w
      else ci_run_script script result w)"

definition ci_run :: "'z ci_world_scheme runner" where
  "ci_run result = ci_run_loop ci_scripts result"

definition ci_cleanup_git_repo ::
  "(string \<Rightarrow> string list) \<Rightarrow> git_repository \<Rightarrow> 'z ci_world_scheme \<Rightarrow> 'z ci_world_scheme" where
  "ci_cleanup_git_repo walk repo w =
     libgit_repository_free (snd (rm_rf walk (repo_workdir repo) w))"

definition ci_prepare_git_repo ::
  "revisions \<Rightarrow> (string \<Rightarrow> string list) \<Rightarrow> string \<Rightarrow> string \<Rightarrow>
     ('z ci_world_scheme, git_repository) cfun" where
  "ci_prepare_git_repo revisions walk url rv =
     bindE (libgit_clone_to_tmp url) (\<lambda>repo.
       onErr (bindE (libgit_checkout revisions repo rv) (\<lambda>_. ok repo))
         (ci_cleanup_git_repo walk repo))"

definition ci_run_git_repo ::
  "revisions \<Rightarrow> (string \<Rightarrow> string list) \<Rightarrow> string \<Rightarrow> string \<Rightarrow> 'z ci_world_scheme runner" where
  "ci_run_git_repo revisions walk url rv output w =
     (case ci_prepare_git_repo revisions walk url rv w of
        (Inl e, w1) \<Rightarrow> ((Inl e, output), w1)
      | (Inr repo, w1) \<Rightarrow>
          (case chdir_wrapper (repo_workdir repo) True w1 of
             (Inl e, w2) \<Rightarrow> ((Inl e, output), ci_cleanup_git_repo walk repo w2)
           | (Inr oldpwd, w2) \<Rightarrow>
               (case ci_run output w2 of
                  (x, w3) \<Rightarrow>
                    (x, ci_cleanup_git_repo walk repo
                          (release Old_pwd (snd (chdir_wrapper oldpwd False w3)))))))"

section \<open>What a run does\<close>

lemma ci_fields:
  "ci_world.more (emit e w) = ci_world.more w" "ci_world.more (used w) = ci_world.more w"
  "cwd (emit e w) = cwd w" "cwd (used w) = cwd w" "trees (emit e w) = trees w" "trees (used w) = trees w"
  "reliable (w\<lparr>cwd := d\<rparr>) = reliable w" "reliable (w\<lparr>trees := f\<rparr>) = reliable w"
  "answer (w\<lparr>cwd := d\<rparr>) = answer w" "answer (w\<lparr>trees := f\<rparr>) = answer w"
  "used (w\<lparr>cwd := d\<rparr>) = (used w)\<lparr>cwd := d\<rparr>" "used (w\<lparr>trees := f\<rparr>) = (used w)\<lparr>trees := f\<rparr>"
  by (simp_all add: emit_def used_def reliable_def answer_def)

declare ci_fields [simp]

lemma same_cwd: "world.more t = world.more w \<Longrightarrow> cwd t = cwd w"
  by (cases t; cases w) simp

text \<open>\<open>quiet w t\<close>: nothing was read, sent, counted, started or left undefined.\<close>

definition quiet :: "'z ci_world_scheme \<Rightarrow> 'z ci_world_scheme \<Rightarrow> bool" where
  "quiet w t \<longleftrightarrow> still w t \<and> noted (trace t) = noted (trace w) \<and> undef (trace t) = undef (trace w) \<and>
     (reliable w \<longrightarrow> reliable t) \<and> ci_world.more t = ci_world.more w"

lemma quiet_refl [simp]: "quiet w w"
  by (simp add: quiet_def)

lemma quiet_trans: "quiet w u \<Longrightarrow> quiet u t \<Longrightarrow> quiet w t"
  by (auto simp: quiet_def dest: still_trans)

lemma quiet_steps [simp]:
  "quiet w u \<Longrightarrow> quiet w (used u)"
  "quiet w (emit (Acquire r) u) = quiet w u" "quiet w (emit (Release r) u) = quiet w u"
  "quiet w (u\<lparr>cwd := d\<rparr>) = quiet w u" "quiet w (u\<lparr>trees := f\<rparr>) = quiet w u"
  by (auto simp: quiet_def still_def)

lemma nftw_spec:
  "nftw dir es w = (r, t) \<Longrightarrow> quiet w t \<and> cwd t = cwd w \<and> (reliable w \<longrightarrow> is_ok r) \<and>
     (\<forall>q. q \<noteq> Tmp_dir \<longrightarrow> bal (trace t) q = bal (trace w) q) \<and>
     (is_ok r \<longrightarrow> bal (trace t) Tmp_dir = bal (trace w) Tmp_dir - int (count_list es None))"
proof (induction es arbitrary: w)
  case Nil
  then show ?case by (auto simp: ok_def)
next
  case (Cons e es)
  show ?case
  proof (cases "answer w < 0")
    case True
    with Cons.prems show ?thesis by (auto simp: unlink_cb_def bindE_def sys_def)
  next
    case False
    define u where "u = (case e of
        Some entry \<Rightarrow> (\<lambda>w. w\<lparr>trees := (trees w)(dir := (trees w dir)(entry := None))\<rparr>)
      | None \<Rightarrow> release Tmp_dir) (used w)"
    from False Cons.prems have "nftw dir es u = (r, t)"
      by (simp add: unlink_cb_def bindE_def sys_def andThen_def ok_def u_def)
    from Cons.IH [OF this] show ?thesis
      by (cases e) (auto simp: u_def intro: quiet_trans [of w u])
  qed
qed

lemma rm_rf_spec:
  assumes "rm_rf walk dir w = (r, t)"
  shows "quiet w t \<and> cwd t = cwd w \<and> (reliable w \<longrightarrow> is_ok r) \<and>
     (\<forall>q. q \<noteq> Tmp_dir \<longrightarrow> bal (trace t) q = bal (trace w) q) \<and>
     (is_ok r \<longrightarrow> bal (trace t) Tmp_dir = bal (trace w) Tmp_dir - 1)"
proof (cases "answer w < 0")
  case True
  with assms show ?thesis by (auto simp: rm_rf_def bindE_def sys_def)
next
  case False
  have "count_list (map Some xs @ [None]) None = 1" for xs :: "string list"
    by (induction xs) simp_all
  moreover from False assms have "nftw dir (map Some (walk dir) @ [None]) (used w) = (r, t)"
    by (simp add: rm_rf_def bindE_def sys_def)
  from nftw_spec [OF this] show ?thesis
    by (auto simp: calculation intro: quiet_trans [of w "used w"])
qed

lemma cleanup_spec:
  assumes "t = ci_cleanup_git_repo walk repo w"
  shows "quiet w t \<and> cwd t = cwd w \<and>
    (\<forall>q. q \<noteq> Tmp_dir \<longrightarrow> bal (trace t) q = bal (trace w) q - (if q = Repo then 1 else 0)) \<and>
    (reliable w \<longrightarrow> bal (trace t) Tmp_dir = bal (trace w) Tmp_dir - 1)"
proof -
  obtain r u where u: "rm_rf walk (repo_workdir repo) w = (r, u)"
    by (cases "rm_rf walk (repo_workdir repo) w")
  from rm_rf_spec [OF u] show ?thesis
    by (auto simp: assms ci_cleanup_git_repo_def u libgit_repository_free_def)
qed

lemma clone_to_tmp_spec:
  assumes "libgit_clone_to_tmp url w = (r, t)"
  shows "quiet w t \<and> cwd t = cwd w \<and> (reliable w \<longrightarrow> is_ok r) \<and>
    (case r of
       Inl e \<Rightarrow> e < 0 \<and> (\<forall>q. q \<noteq> Tmp_dir \<longrightarrow> bal (trace t) q = bal (trace w) q)
     | Inr repo \<Rightarrow> repo_origin repo = url \<and>
         (\<forall>q. bal (trace t) q = bal (trace w) q + (if q = Tmp_dir \<or> q = Repo then 1 else 0)))"
  using assms
  by (auto simp: libgit_clone_to_tmp_def mkdtemp_def libgit_clone_def bindE_def sys_def andThen_def ok_def Let_def
      split: if_splits)

lemma checkout_spec:
  "meets (libgit_checkout revisions repo rv) (\<lambda>w r t.
     quiet w t \<and> cwd t = cwd w \<and> (reliable w \<longrightarrow> is_ok r) \<and> (\<forall>q. bal (trace t) q = bal (trace w) q) \<and>
     (case r of Inl e \<Rightarrow> e < 0
      | Inr _ \<Rightarrow> trees t (repo_workdir repo) = revisions (repo_origin repo) rv))"
  by (rule meetsI) (auto simp: libgit_checkout_def run_simps)

lemma prepare_spec:
  assumes "ci_prepare_git_repo revisions walk url rv w = (r, t)"
  shows "quiet w t \<and> cwd t = cwd w \<and> (reliable w \<longrightarrow> is_ok r) \<and>
    (case r of
       Inl e \<Rightarrow> e < 0 \<and> (\<forall>q. q \<noteq> Tmp_dir \<longrightarrow> bal (trace t) q = bal (trace w) q)
     | Inr repo \<Rightarrow> trees t (repo_workdir repo) = revisions url rv \<and>
         (\<forall>q. bal (trace t) q = bal (trace w) q + (if q = Tmp_dir \<or> q = Repo then 1 else 0)))"
proof -
  obtain a u where u: "libgit_clone_to_tmp url w = (a, u)" by (cases "libgit_clone_to_tmp url w")
  note c = clone_to_tmp_spec [OF u]
  show ?thesis
  proof (cases a)
    case (Inl e)
    with assms u c show ?thesis by (auto simp: ci_prepare_git_repo_def bindE_def)
  next
    case (Inr repo)
    obtain b v where v: "libgit_checkout revisions repo rv u = (b, v)"
      by (cases "libgit_checkout revisions repo rv u")
    note k = meetsD [OF checkout_spec v]
    have ru: "reliable w \<longrightarrow> reliable u" using c by (simp add: quiet_def)
    show ?thesis
    proof (cases b)
      case (Inl e)
      with assms u v \<open>a = Inr repo\<close> have t: "r = Inl e" "t = ci_cleanup_git_repo walk repo v"
        by (simp_all add: ci_prepare_git_repo_def bindE_def onErr_def)
      with cleanup_spec [OF t(2)] c k Inl \<open>a = Inr repo\<close> ru show ?thesis
        by (auto intro: quiet_trans)
    next
      case (Inr x)
      with assms u v \<open>a = Inr repo\<close> have "r = Inr repo" "t = v"
        by (simp_all add: ci_prepare_git_repo_def bindE_def onErr_def ok_def)
      with c k Inr \<open>a = Inr repo\<close> show ?thesis by (auto intro: quiet_trans)
    qed
  qed
qed

text \<open>Which script is run.\<close>

definition chosen_script :: "(string \<Rightarrow> file_type option) \<Rightarrow> string option" where
  "chosen_script tree = find (\<lambda>s. tree s = Some Regular) [''./.ci.sh'', ''./.ci'', ''./ci.sh'', ''./ci'']"

lemma ci_run_loop_find:
  "ci_run_loop scripts result w =
     (case find (\<lambda>s. trees w (cwd w) s = Some Regular) scripts of
        None \<Rightarrow> ((Inl (-1), result), w)
      | Some s \<Rightarrow> ci_run_script s result w)"
  by (induction scripts) (auto simp: file_exists_def)

lemma ci_run_chosen:
  "ci_run result w =
     (case chosen_script (trees w (cwd w)) of
        None \<Rightarrow> ((Inl (-1), result), w)
      | Some s \<Rightarrow> ci_run_script s result w)"
  by (simp add: ci_run_def ci_run_loop_find chosen_script_def ci_scripts_def)

lemma chdir_spec:
  "meets (chdir_wrapper dir want_old) (\<lambda>w r t. quiet w t \<and> trees t = trees w \<and> (reliable w \<longrightarrow> is_ok r) \<and>
     (case r of
        Inl e \<Rightarrow> e < 0 \<and> cwd t = cwd w \<and> (\<forall>q. bal (trace t) q = bal (trace w) q)
      | Inr old \<Rightarrow> old = cwd w \<and> cwd t = dir \<and>
          (\<forall>q. bal (trace t) q = bal (trace w) q + (if want_old \<and> q = Old_pwd then 1 else 0))))"
  by (rule meetsI) (auto simp: chdir_wrapper_def wp_def bindE_def onErr_def alloc_def sys_def ok_def)

lemma run_script_spec:
  assumes "ci_run out w = ((r, out'), t)"
  shows "undef (trace t) = undef (trace w) \<and> cwd t = cwd w \<and> trees t = trees w \<and> (reliable w \<longrightarrow> reliable t) \<and>
    ci_world.more t = ci_world.more w \<and> (\<forall>d. sent d (trace t) = sent d (trace w)) \<and>
    (\<forall>q. q \<noteq> Mem ''contents'' \<longrightarrow> (\<forall>pid. q \<noteq> Child pid) \<longrightarrow> bal (trace t) q = bal (trace w) q) \<and>
    (reliable w \<longrightarrow>
       (case chosen_script (trees w (cwd w)) of
          None \<Rightarrow> r = Inl (-1) \<and> out' = out \<and> t = w
        | Some s \<Rightarrow> r = Inr () \<and> noted (trace t) = noted (trace w) @ [command_line [s] (Some ci_env)] \<and>
            po_data out' = Some (rx w (answer w)) \<and> po_data_size out' = length (rx w (answer w)) \<and>
            -126 \<le> po_ec out' \<and> po_ec out' \<le> 255 \<and>
            (\<forall>q. bal (trace t) q = bal (trace w) q + (if q = Mem ''contents'' then 1 else 0))))"
proof (cases "chosen_script (trees w (cwd w))")
  case None
  with assms show ?thesis by (auto simp: ci_run_chosen)
next
  case (Some s)
  with assms have "process_execute_and_capture [s] (Some ci_env) out w = ((r, out'), t)"
    by (simp add: ci_run_chosen ci_run_script_def)
  note c = capture_spec [OF this]
  then have "cwd t = cwd w" "trees t = trees w" "ci_world.more t = ci_world.more w"
    by (cases t; cases w; simp)+
  with c Some show ?thesis by auto
qed

lemma ci_run_git_repo_spec:
  assumes "ci_run_git_repo revisions walk url rv out w = ((r, out'), t)"
  shows "undef (trace t) = undef (trace w) \<and> ci_world.more t = ci_world.more w \<and>
    (\<forall>d. sent d (trace t) = sent d (trace w)) \<and> (reliable w \<longrightarrow> reliable t) \<and>
    (\<forall>q. q \<notin> {Tmp_dir, Mem ''contents''} \<longrightarrow> (\<forall>pid. q \<noteq> Child pid) \<longrightarrow> bal (trace t) q = bal (trace w) q) \<and>
    (reliable w \<longrightarrow> cwd t = cwd w \<and>
       (case chosen_script (revisions url rv) of
          None \<Rightarrow> r = Inl (-1) \<and> out' = out \<and> noted (trace t) = noted (trace w) \<and>
            (\<forall>q. bal (trace t) q = bal (trace w) q)
        | Some s \<Rightarrow> r = Inr () \<and> noted (trace t) = noted (trace w) @ [command_line [s] (Some ci_env)] \<and>
            (\<exists>d. po_data out' = Some (rx w d) \<and> po_data_size out' = length (rx w d)) \<and> -126 \<le> po_ec out' \<and> po_ec out' \<le> 255 \<and>
            (\<forall>q. bal (trace t) q = bal (trace w) q + (if q = Mem ''contents'' then 1 else 0))))"
proof -
  obtain a u where u: "ci_prepare_git_repo revisions walk url rv w = (a, u)"
    by (cases "ci_prepare_git_repo revisions walk url rv w")
  note pr = prepare_spec [OF u]
  show ?thesis
  proof (cases a)
    case (Inl e)
    with assms u have "t = u" by (simp add: ci_run_git_repo_def)
    with pr Inl show ?thesis by (auto simp: quiet_def still_def)
  next
    case (Inr repo)
    obtain b v where v: "chdir_wrapper (repo_workdir repo) True u = (b, v)"
      by (cases "chdir_wrapper (repo_workdir repo) True u")
    note ch = meetsD [OF chdir_spec v]
    show ?thesis
    proof (cases b)
      case (Inl e)
      with assms u v \<open>a = Inr repo\<close> have "t = ci_cleanup_git_repo walk repo v"
        by (simp add: ci_run_git_repo_def)
      from cleanup_spec [OF this] pr ch Inl \<open>a = Inr repo\<close> show ?thesis
        by (auto simp: quiet_def still_def)
    next
      case (Inr old)
      obtain x out1 v1 where v1: "ci_run out v = ((x, out1), v1)" by (metis surj_pair)
      note cr = run_script_spec [OF v1]
      define v2 where "v2 = snd (chdir_wrapper old False v1)"
      obtain y where "chdir_wrapper old False v1 = (y, v2)" by (metis v2_def prod.collapse)
      note undo = meetsD [OF chdir_spec this]
      from assms u v v1 \<open>a = Inr repo\<close> Inr
      have t: "r = x" "out' = out1" "t = ci_cleanup_git_repo walk repo (release Old_pwd v2)"
        by (simp_all add: ci_run_git_repo_def v2_def)
      have rel: "reliable w \<longrightarrow> reliable u \<and> reliable v \<and> reliable v1 \<and> reliable v2 \<and> is_ok y"
        using pr ch cr undo by (auto simp: quiet_def)
      have tree: "trees v (cwd v) = revisions url rv" "rx v = rx w" "noted (trace v) = noted (trace w)"
        using pr ch \<open>a = Inr repo\<close> Inr by (auto simp: quiet_def still_def)
      have b2: "\<forall>q. bal (trace v2) q = bal (trace v1) q" "noted (trace v2) = noted (trace v1)"
        "undef (trace v2) = undef (trace v1)" "is_ok y \<longrightarrow> cwd v2 = old" "still v1 v2"
        "ci_world.more v2 = ci_world.more v1"
        using undo by (cases y; auto simp: quiet_def)+
      have vb: "\<forall>q. bal (trace v) q = bal (trace w) q + (if q \<in> {Tmp_dir, Repo, Old_pwd} then 1 else 0)"
        "undef (trace v) = undef (trace w)" "old = cwd w" "still w v" "ci_world.more v = ci_world.more w"
        using pr ch \<open>a = Inr repo\<close> Inr by (auto simp: quiet_def intro: still_trans)
      note cl = cleanup_spec [OF t(3)]
      show ?thesis
      proof (intro conjI impI)
        show "undef (trace t) = undef (trace w)" "ci_world.more t = ci_world.more w"
          "\<forall>d. sent d (trace t) = sent d (trace w)"
          using cl b2 cr vb by (simp_all add: quiet_def still_def)
        show "reliable t" if "reliable w" using cl rel that by (simp add: quiet_def)
        show "\<forall>q. q \<notin> {Tmp_dir, Mem ''contents''} \<longrightarrow> (\<forall>pid. q \<noteq> Child pid) \<longrightarrow>
            bal (trace t) q = bal (trace w) q"
          using cl b2 cr vb by simp
        assume rw: "reliable w"
        show "cwd t = cwd w" using cl b2 vb rel rw by simp
        have "\<forall>q. bal (trace t) q = bal (trace v1) q - (if q \<in> {Tmp_dir, Repo, Old_pwd} then 1 else 0)"
        proof
          fix q
          show "bal (trace t) q = bal (trace v1) q - (if q \<in> {Tmp_dir, Repo, Old_pwd} then 1 else 0)"
            using cl b2(1) rel rw by (cases "q = Tmp_dir") auto
        qed
        then show "case chosen_script (revisions url rv) of
            None \<Rightarrow> r = Inl (-1) \<and> out' = out \<and> noted (trace t) = noted (trace w) \<and>
              (\<forall>q. bal (trace t) q = bal (trace w) q)
          | Some s \<Rightarrow> r = Inr () \<and> noted (trace t) = noted (trace w) @ [command_line [s] (Some ci_env)] \<and>
              (\<exists>d. po_data out' = Some (rx w d) \<and> po_data_size out' = length (rx w d)) \<and> -126 \<le> po_ec out' \<and> po_ec out' \<le> 255 \<and>
              (\<forall>q. bal (trace t) q = bal (trace w) q + (if q = Mem ''contents'' then 1 else 0))"
          using cl b2(2) cr vb rel rw tree t(1,2)
          by (cases "chosen_script (revisions url rv)") (simp_all add: quiet_def, blast)
      qed
    qed
  qed
qed

section \<open>Properties\<close>

text \<open>C31: When no call fails, a run of a revision of a repository starts the first script of
  \<open>./.ci.sh\<close>, \<open>./.ci\<close>, \<open>./ci.sh\<close> and \<open>./ci\<close> that this revision has, exactly once and with
  \<open>CI=y\<close> and \<open>CIMPLE=y\<close> in its environment, and captures what it writes; without a script it
  fails and starts nothing. The directory is what it was, and the clone, the temporary directory
  and everything else is given back but the output's data.\<close>

theorem ci_runs_first_script:
  assumes "ci_run_git_repo revisions walk url rv out w = ((r, out'), t)" "reliable w"
  shows "cwd t = cwd w \<and>
    (case chosen_script (revisions url rv) of
       None \<Rightarrow> r = Inl (-1) \<and> out' = out \<and> noted (trace t) = noted (trace w) \<and>
         (\<forall>q. bal (trace t) q = bal (trace w) q)
     | Some s \<Rightarrow> r = Inr () \<and> noted (trace t) = noted (trace w) @ [''CI=y CIMPLE=y '' @ s @ '' ''] \<and>
         (\<exists>d. po_data out' = Some (rx w d) \<and> po_data_size out' = length (rx w d)) \<and> -126 \<le> po_ec out' \<and> po_ec out' \<le> 255 \<and>
         (\<forall>q. bal (trace t) q = bal (trace w) q + (if q = Mem ''contents'' then 1 else 0)))"
  using ci_run_git_repo_spec [OF assms(1)] assms(2)
  by (cases "chosen_script (revisions url rv)") (simp_all add: command_line_def ci_env_def)

definition sample_ci_world :: ci_world where
  "sample_ci_world = \<lparr>answers = [], trace = [], rx = (\<lambda>_. ''ok''), rpc_id = 1, cwd = ''/'', trees = (\<lambda>_ _. None)\<rparr>"

theorem ci_runs_first_script_witness:
  "case ci_run_git_repo (\<lambda>_ _ s. if s = ''./ci'' \<or> s = ''./ci.sh'' then Some Regular else None) (\<lambda>_. [''./ci''])
       ''url'' ''master'' \<lparr>po_ec = 0, po_data = None, po_data_size = 0\<rparr> sample_ci_world of
     ((r, out), t) \<Rightarrow> r = Inr () \<and> noted (trace t) = [''CI=y CIMPLE=y ./ci.sh ''] \<and> po_data out = Some ''ok''"
proof -
  let ?tree = "\<lambda>s. if s = ''./ci'' \<or> s = ''./ci.sh'' then Some Regular else None"
  let ?run = "ci_run_git_repo (\<lambda>_ _. ?tree) (\<lambda>_. [''./ci'']) ''url'' ''master''
    \<lparr>po_ec = 0, po_data = None, po_data_size = 0\<rparr> sample_ci_world"
  obtain z t where "?run = (z, t)" by (cases ?run)
  then obtain r out where rt: "?run = ((r, out), t)" by (cases z) simp
  have "reliable sample_ci_world" "chosen_script ?tree = Some ''./ci.sh''"
    by (simp_all add: sample_ci_world_def reliable_def chosen_script_def)
  with ci_runs_first_script [OF rt this(1)] show ?thesis
    unfolding rt by (auto simp: sample_ci_world_def)
qed

text \<open>C32: Whatever fails on the way, a run takes no undefined step, closes every descriptor, and
  frees the repository, the git object and the name of the old directory.\<close>

theorem ci_run_contained:
  "undef (trace (snd (ci_run_git_repo revisions walk url rv out w))) = undef (trace w) \<and>
   bal (trace (snd (ci_run_git_repo revisions walk url rv out w))) (Desc d) = bal (trace w) (Desc d) \<and>
   bal (trace (snd (ci_run_git_repo revisions walk url rv out w))) Repo = bal (trace w) Repo \<and>
   bal (trace (snd (ci_run_git_repo revisions walk url rv out w))) Object = bal (trace w) Object \<and>
   bal (trace (snd (ci_run_git_repo revisions walk url rv out w))) Old_pwd = bal (trace w) Old_pwd"
proof -
  obtain r out' t where rt: "ci_run_git_repo revisions walk url rv out w = ((r, out'), t)"
    by (metis surj_pair)
  from ci_run_git_repo_spec [OF rt] show ?thesis by (simp add: rt)
qed

end
