(* ===== verification/CmdLine.thy ===== *)
theory CmdLine
  imports File Log
begin

text \<open>
  \<open>src/cmd_line.c\<close> and the option parsing of \<open>src/worker_main.c\<close>, \<open>src/client_main.c\<close> and
  \<open>src/server_main.c\<close>. A function that ends the process returns \<open>Inl\<close> with the exit code. What is
  printed is noted in the trace. What the build writes into \<open>const.c\<close> is a parameter, and so is
  the result of \<open>getopt_long\<close>: the options it returns, each with its argument.
\<close>

section \<open>The program\<close>

record build =
  project_version :: string
  project_rev :: string
  default_host :: string
  default_port :: string
  default_sqlite_path :: string

text \<open>A running program: the target of \<open>/proc/self/exe\<close>, its usage string and its build.\<close>

record program =
  prog_exe :: string
  prog_usage :: string
  prog_build :: build

abbreviation tab :: string where "tab \<equiv> [CHR 0x09]"

definition print_to :: "bool \<Rightarrow> string \<Rightarrow> 'z world_scheme \<Rightarrow> 'z world_scheme" where
  "print_to err text = emit (Note ((if err then ''err: '' else ''out: '') @ text))"

definition get_current_binary_path :: "program \<Rightarrow> ('z world_scheme, string) cfun" where
  "get_current_binary_path prog = readlink_wrapper (prog_exe prog)"

text \<open>The result is a null pointer, \<open>None\<close>, when something fails.\<close>

definition get_current_binary_name ::
  "program \<Rightarrow> 'z world_scheme \<Rightarrow> string option \<times> 'z world_scheme" where
  "get_current_binary_name prog w =
     (case get_current_binary_path prog w of
        (Inl _, w1) \<Rightarrow> (None, w1)
      | (Inr path, w1) \<Rightarrow>
          (case alloc (Mem ''binary'') w1 of
             (Inl _, w2) \<Rightarrow> (None, release (Mem ''buf'') w2)
           | (Inr _, w2) \<Rightarrow> (Some (basename path), release (Mem ''buf'') w2)))"

definition binary_or_prog :: "string option \<Rightarrow> string" where
  "binary_or_prog binary = (case binary of None \<Rightarrow> ''prog'' | Some b \<Rightarrow> b)"

definition free_binary :: "string option \<Rightarrow> 'z world_scheme \<Rightarrow> 'z world_scheme" where
  "free_binary binary w = (case binary of None \<Rightarrow> w | Some _ \<Rightarrow> release (Mem ''binary'') w)"

definition exit_with_usage :: "program \<Rightarrow> int \<Rightarrow> ('z world_scheme, 'a) cfun" where
  "exit_with_usage prog ec w =
     (case get_current_binary_name prog w of
        (binary, w1) \<Rightarrow>
          (Inl ec,
           free_binary binary
             (print_to (ec \<noteq> 0)
                (''usage: '' @ binary_or_prog binary @ '' '' @ prog_usage prog @ newline) w1)))"

definition exit_with_usage_err :: "program \<Rightarrow> string \<Rightarrow> ('z world_scheme, 'a) cfun" where
  "exit_with_usage_err prog msg w =
     exit_with_usage prog 1 (print_to True (''usage error: '' @ msg @ newline) w)"

definition exit_with_version :: "program \<Rightarrow> ('z world_scheme, 'a) cfun" where
  "exit_with_version prog w =
     (case get_current_binary_name prog w of
        (binary, w1) \<Rightarrow>
          (Inl 0,
           free_binary binary
             (print_to False
                (binary_or_prog binary @ '' v'' @ project_version (prog_build prog) @ '' ('' @
                 project_rev (prog_build prog) @ '')'' @ newline) w1)))"

section \<open>Options of the worker and the client\<close>

record settings =
  st_host :: string
  st_port :: string

definition default_settings :: "build \<Rightarrow> settings" where
  "default_settings b = \<lparr>st_host = default_host b, st_port = default_port b\<rparr>"

text \<open>\<open>-v\<close> sets the log level, of which nothing but the amount of logging depends.\<close>

fun parse_options :: "program \<Rightarrow> (char \<times> string) list \<Rightarrow> settings \<Rightarrow> ('z world_scheme, settings) cfun" where
  "parse_options prog [] settings = ok settings"
| "parse_options prog ((opt, optarg) # rest) settings =
     (if opt = CHR ''h'' then exit_with_usage prog 0
      else if opt = CHR ''V'' then exit_with_version prog
      else if opt = CHR ''v'' then parse_options prog rest settings
      else if opt = CHR ''H'' then parse_options prog rest (settings\<lparr>st_host := optarg\<rparr>)
      else if opt = CHR ''p'' then parse_options prog rest (settings\<lparr>st_port := optarg\<rparr>)
      else exit_with_usage prog 1)"

definition parse_settings :: "program \<Rightarrow> (char \<times> string) list \<Rightarrow> ('z world_scheme, settings) cfun" where
  "parse_settings prog opts = parse_options prog opts (default_settings (prog_build prog))"

definition worker_usage :: string where
  "worker_usage = ''[-h|--help] [-V|--version] [-v|--verbose] [-H|--host HOST] [-p|--port PORT]''"

text \<open>The client parses the same options in the same way, in its own copy of the code.\<close>

definition client_default_settings :: "build \<Rightarrow> settings" where
  "client_default_settings b = default_settings b"

definition client_parse_settings :: "program \<Rightarrow> (char \<times> string) list \<Rightarrow> ('z world_scheme, settings) cfun" where
  "client_parse_settings prog opts = parse_options prog opts (client_default_settings (prog_build prog))"

definition client_usage :: string where
  "client_usage =
     ''[-h|--help] [-V|--version] [-v|--verbose] [-H|--host HOST] [-p|--port PORT] ACTION [ARG...]'' @ newline @
     newline @
     ''available actions:'' @ newline @
     tab @ ''queue-run'' @ '' URL REV - schedule a CI run of repository at URL, revision REV''"

section \<open>Options of the server\<close>

record server_settings =
  ss_port :: string
  ss_sqlite_path :: string

definition server_default_settings :: "build \<Rightarrow> server_settings" where
  "server_default_settings b = \<lparr>ss_port = default_port b, ss_sqlite_path = default_sqlite_path b\<rparr>"

definition server_usage :: string where
  "server_usage = ''[-h|--help] [-V|--version] [-v|--verbose] [-p|--port PORT] [-s|--sqlite PATH]''"

fun server_parse_options ::
  "program \<Rightarrow> (char \<times> string) list \<Rightarrow> server_settings \<Rightarrow> ('z world_scheme, server_settings) cfun" where
  "server_parse_options prog [] settings = ok settings"
| "server_parse_options prog ((opt, optarg) # rest) settings =
     (if opt = CHR ''h'' then exit_with_usage prog 0
      else if opt = CHR ''V'' then exit_with_version prog
      else if opt = CHR ''v'' then server_parse_options prog rest settings
      else if opt = CHR ''p'' then server_parse_options prog rest (settings\<lparr>ss_port := optarg\<rparr>)
      else if opt = CHR ''s'' then server_parse_options prog rest (settings\<lparr>ss_sqlite_path := optarg\<rparr>)
      else exit_with_usage prog 1)"

definition server_parse_settings ::
  "program \<Rightarrow> (char \<times> string) list \<Rightarrow> ('z world_scheme, server_settings) cfun" where
  "server_parse_settings prog opts =
     server_parse_options prog opts (server_default_settings (prog_build prog))"

section \<open>What parsing amounts to\<close>

text \<open>The argument of the last option of that name, if there is one.\<close>

definition last_arg :: "char \<Rightarrow> (char \<times> string) list \<Rightarrow> string \<Rightarrow> string" where
  "last_arg c opts d = foldl (\<lambda>x (opt, arg). if opt = c then arg else x) d opts"

text \<open>The first option that ends the program, if any.\<close>

definition ending :: "char set \<Rightarrow> (char \<times> string) list \<Rightarrow> char option" where
  "ending known opts = map_option fst (List.find (\<lambda>x. fst x \<notin> known) opts)"

lemma last_arg_simps [simp]:
  "last_arg c [] d = d" "last_arg c ((opt, arg) # opts) d = last_arg c opts (if opt = c then arg else d)"
  by (simp_all add: last_arg_def)

lemma ending_simps [simp]:
  "ending K [] = None" "ending K ((opt, arg) # opts) = (if opt \<in> K then ending K opts else Some opt)"
  by (simp_all add: ending_def)

lemma parse_options_spec:
  "parse_options prog opts s w =
     (case ending {CHR ''v'', CHR ''H'', CHR ''p''} opts of
        None \<Rightarrow> (Inr \<lparr>st_host = last_arg CHR ''H'' opts (st_host s), st_port = last_arg CHR ''p'' opts (st_port s)\<rparr>, w)
      | Some c \<Rightarrow> (if c = CHR ''h'' then exit_with_usage prog 0 w
                  else if c = CHR ''V'' then exit_with_version prog w
                  else exit_with_usage prog 1 w))"
  by (induction prog opts s rule: parse_options.induct) (simp_all add: ok_def cong: option.case_cong)

lemma server_parse_options_spec:
  "server_parse_options prog opts s w =
     (case ending {CHR ''v'', CHR ''p'', CHR ''s''} opts of
        None \<Rightarrow> (Inr \<lparr>ss_port = last_arg CHR ''p'' opts (ss_port s),
                     ss_sqlite_path = last_arg CHR ''s'' opts (ss_sqlite_path s)\<rparr>, w)
      | Some c \<Rightarrow> (if c = CHR ''h'' then exit_with_usage prog 0 w
                  else if c = CHR ''V'' then exit_with_version prog w
                  else exit_with_usage prog 1 w))"
  by (induction prog opts s rule: server_parse_options.induct) (simp_all add: ok_def cong: option.case_cong)

text \<open>Ending the program prints one line and leaks nothing.\<close>

lemma get_current_binary_name_spec:
  assumes "get_current_binary_name prog w = (binary, t)"
  shows "takes w t (case binary of None \<Rightarrow> [] | Some _ \<Rightarrow> [Mem ''binary'']) \<and> still w t \<and>
    (binary = None \<or> binary = Some (basename (prog_exe prog)))"
proof -
  obtain a w1 where a: "readlink_wrapper (prog_exe prog) w = (a, w1)" by (cases "readlink_wrapper (prog_exe prog) w")
  note rl = meetsD [OF readlink_wrapper_spec a]
  show ?thesis
    using assms a rl
    by (cases a) (auto simp: get_current_binary_name_def get_current_binary_path_def alloc_def takes_def still_def
        split: if_splits)
qed

lemma exit_with_usage_spec:
  assumes "exit_with_usage prog ec w = (r, t)"
  shows "r = Inl ec \<and> calm w t \<and> still w t"
proof -
  obtain b u where b: "get_current_binary_name prog w = (b, u)" by (cases "get_current_binary_name prog w")
  from get_current_binary_name_spec [OF b] assms b show ?thesis
    by (cases b) (auto simp: exit_with_usage_def free_binary_def print_to_def takes_def still_def)
qed

lemma exit_with_version_spec:
  assumes "exit_with_version prog w = (r, t)"
  shows "r = Inl 0 \<and> calm w t \<and> still w t"
proof -
  obtain b u where b: "get_current_binary_name prog w = (b, u)" by (cases "get_current_binary_name prog w")
  from get_current_binary_name_spec [OF b] assms b show ?thesis
    by (cases b) (auto simp: exit_with_version_def free_binary_def print_to_def takes_def still_def)
qed

end
