(* ===== verification/Worker.thy ===== *)
theory Worker
  imports Ci Lifecycle CmdLine
begin

text \<open>
  \<open>src/worker.c\<close>: a worker asks the server for a run, waits for it, runs it, reports its output,
  and starts over, until it is told to stop. What changes outside the worker between two of its
  steps is given by the environment, one element per time around the loop.
\<close>

unbundle bit_operations_syntax

section \<open>Settings\<close>

definition settings_blocks :: "resource list" where
  "settings_blocks = [Mem ''settings'', Mem ''settings_host'', Mem ''settings_port'']"

definition worker_settings_copy :: "settings \<Rightarrow> ('z world_scheme, settings) cfun" where
  "worker_settings_copy src =
     bindE (alloc (Mem ''settings'')) (\<lambda>_.
       onErr
         (bindE (alloc (Mem ''settings_host'')) (\<lambda>_.
            onErr
              (bindE (alloc (Mem ''settings_port'')) (\<lambda>_.
                 ok \<lparr>st_host = st_host src, st_port = st_port src\<rparr>))
              (release (Mem ''settings_host''))))
         (release (Mem ''settings'')))"

definition worker_settings_destroy :: "'z world_scheme \<Rightarrow> 'z world_scheme" where
  "worker_settings_destroy w =
     release (Mem ''settings'') (release (Mem ''settings_host'') (release (Mem ''settings_port'') w))"

section \<open>The worker\<close>

text \<open>
  \<open>wk_stopping\<close> and \<open>wk_run\<close> are the members of \<open>struct worker\<close> that change while it runs;
  \<open>wk_run\<close> is \<open>None\<close> while the pointer does not point to a run: \<open>malloc\<close> leaves it unset and
  \<open>run_destroy\<close> leaves it dangling. \<open>wk_lost\<close> is not in the code: it collects the runs whose only
  pointer was overwritten.
\<close>

record worker_world = ci_world +
  wk_stopping :: bool
  wk_run :: "run option"
  wk_lost :: "run list"

datatype worker_handler =
    Stop_handler
  | Cmd_handler

type_synonym ('j, 's) worker_dispatcher = "('j, unit cmd_conn_ctx, 's, unit) cmd_dispatcher"

type_synonym worker_loop = "worker_handler event_loop"

text \<open>The members of \<open>struct worker\<close> that do not change, and its event loop when it was created.\<close>

record ('j, 's) worker_parts =
  wp_settings :: settings
  wp_dispatcher :: "('j, 's) worker_dispatcher"
  wp_loop :: worker_loop
  wp_signalfd :: int

definition worker_set_stopping :: "('z worker_world_scheme, unit) cfun" where
  "worker_set_stopping w = (Inr (), w\<lparr>wk_stopping := True\<rparr>)"

text \<open>\<open>worker->run = x\<close>.\<close>

definition set_run :: "run \<Rightarrow> 'z worker_world_scheme \<Rightarrow> 'z worker_world_scheme" where
  "set_run x w =
     w\<lparr>wk_run := Some x, wk_lost := (case wk_run w of None \<Rightarrow> [] | Some y \<Rightarrow> [y]) @ wk_lost w\<rparr>"

definition worker_handle_cmd_start_run ::
  "'j jsonc \<Rightarrow> ('j, 'c cmd_conn_ctx, 'z worker_world_scheme) handler" where
  "worker_handle_cmd_start_run J request ctx w =
     (case request_parse_start_run J request w of
        (Inl e, w1) \<Rightarrow> ((Inl e, None), w1)
      | (Inr x, w1) \<Rightarrow> ((Inr (), None), set_run x w1))"

definition worker_commands ::
  "'j jsonc \<Rightarrow> ('j, 'c cmd_conn_ctx, 'z worker_world_scheme) cmd_desc list" where
  "worker_commands J = [\<lparr>cmd_name = CMD_START_RUN, cmd_handler = worker_handle_cmd_start_run J\<rparr>]"

fun worker_handle ::
  "'j jsonc \<Rightarrow> ('j, 'z worker_world_scheme) worker_dispatcher \<Rightarrow>
     (worker_handler, unit, 'z worker_world_scheme) event_handler" where
  "worker_handle J d Stop_handler fd revents loop a w =
     (case worker_set_stopping w of (r, t) \<Rightarrow> (r, loop, a, t))"
| "worker_handle J d Cmd_handler fd revents loop a w =
     (case cmd_dispatcher_handle_event J fd (revents AND POLLIN \<noteq> 0) d w of (r, t) \<Rightarrow> (r, loop, a, t))"

section \<open>Creation and destruction\<close>

abbreviation Worker :: resource where "Worker \<equiv> Mem ''worker''"

text \<open>The labels of \<open>worker_create\<close>, each falling through to the ones above it.\<close>

definition free_worker :: "'z world_scheme \<Rightarrow> 'z world_scheme" where
  "free_worker w = release Worker w"

definition free_settings :: "'z world_scheme \<Rightarrow> 'z world_scheme" where
  "free_settings w = free_worker (worker_settings_destroy w)"

definition worker_destroy_cmd_dispatcher ::
  "('j, 'a, 's, 'c) cmd_dispatcher \<Rightarrow> 'z world_scheme \<Rightarrow> 'z world_scheme" where
  "worker_destroy_cmd_dispatcher d w = free_settings (cmd_dispatcher_destroy d w)"

definition worker_destroy_event_loop ::
  "('j, 'a, 's, 'c) cmd_dispatcher \<Rightarrow> worker_loop \<Rightarrow> 'z world_scheme \<Rightarrow> 'z world_scheme" where
  "worker_destroy_event_loop d loop w = worker_destroy_cmd_dispatcher d (event_loop_destroy loop w)"

definition worker_close_signalfd ::
  "('j, 'a, 's, 'c) cmd_dispatcher \<Rightarrow> worker_loop \<Rightarrow> int \<Rightarrow> 'z world_scheme \<Rightarrow> 'z world_scheme" where
  "worker_close_signalfd d loop sfd w = worker_destroy_event_loop d loop (signalfd_destroy sfd w)"

definition ci_worker_create ::
  "'j jsonc \<Rightarrow> settings \<Rightarrow> ('z worker_world_scheme thread, ('j, 'z worker_world_scheme) worker_parts) cfun" where
  "ci_worker_create J settings =
     bindE (in_world (alloc Worker)) (\<lambda>_ m.
     or_goto (in_world (worker_settings_copy settings) (map_prod id (\<lambda>w. w\<lparr>wk_run := None\<rparr>) m))
         (map_prod id free_worker) (\<lambda>copied m.
     or_goto (in_world (cmd_dispatcher_create (worker_commands J) ())
         (map_prod id (\<lambda>w. w\<lparr>wk_stopping := False\<rparr>) m)) (map_prod id free_settings) (\<lambda>d m.
     or_goto (in_world event_loop_create m) (map_prod id (worker_destroy_cmd_dispatcher d)) (\<lambda>loop m.
     or_goto (signalfd_create_sigterms m) (map_prod id (worker_destroy_event_loop d loop)) (\<lambda>sfd m.
     or_goto (in_world (event_loop_add loop sfd POLLIN Stop_handler) m)
         (map_prod id (worker_close_signalfd d loop sfd)) (\<lambda>loop1 m.
     or_goto (in_world libgit_init m) (map_prod id (worker_close_signalfd d loop1 sfd)) (\<lambda>_ m.
       (Inr \<lparr>wp_settings = copied, wp_dispatcher = d, wp_loop = loop1, wp_signalfd = sfd\<rparr>, m))))))))"

text \<open>The loop is passed as it is now; a run the worker still points to is not destroyed.\<close>

definition ci_worker_destroy ::
  "('j, 's) worker_parts \<Rightarrow> worker_loop \<Rightarrow> 'z world_scheme \<Rightarrow> 'z world_scheme" where
  "ci_worker_destroy p loop w =
     release Worker
       (worker_settings_destroy
         (cmd_dispatcher_destroy (wp_dispatcher p)
           (event_loop_destroy loop (signalfd_destroy (wp_signalfd p) (libgit_shutdown w)))))"

section \<open>Getting a run\<close>

text \<open>
  One time around the loop: what the server sends on the connection, what \<open>poll\<close> reports, and
  what the child of the run writes. \<open>resolve\<close> stands for \<open>getaddrinfo\<close>.
\<close>

record round =
  from_server :: "char list"
  poll_reports :: "nat \<Rightarrow> 16 word"
  child_writes :: "char list"

type_synonym resolver = "string \<Rightarrow> string \<Rightarrow> addrinfo list option"

text \<open>From \<open>request_create_new_worker\<close> to the label \<open>close\<close>.\<close>

definition worker_ask ::
  "'j jsonc \<Rightarrow> ('j, 'z worker_world_scheme) worker_parts \<Rightarrow> int \<Rightarrow> (nat \<Rightarrow> 16 word) \<Rightarrow> worker_loop \<Rightarrow>
     'z worker_world_scheme \<Rightarrow> (int + unit) \<times> worker_loop \<times> 'z worker_world_scheme" where
  "worker_ask J p fd reported loop w =
     (case request_create_new_worker J w of
        (Inl e, w1) \<Rightarrow> (Inl e, loop, w1)
      | (Inr new_worker_request, w1) \<Rightarrow>
          (case after (jsonrpc_request_send J new_worker_request fd)
                  (jsonrpc_request_destroy new_worker_request) w1 of
             (Inl e, w2) \<Rightarrow> (Inl e, loop, w2)
           | (Inr _, w2) \<Rightarrow>
               (case event_loop_add_once loop fd POLLIN Cmd_handler w2 of
                  (Inl e, w3) \<Rightarrow> (Inl e, loop, w3)
                | (Inr loop1, w3) \<Rightarrow>
                    (case event_loop_run (worker_handle J (wp_dispatcher p)) reported loop1 () w3 of
                       (r, loop2, _, w4) \<Rightarrow> (r, loop2, w4)))))"

definition worker_get_run ::
  "'j jsonc \<Rightarrow> resolver \<Rightarrow> ('j, 'z worker_world_scheme) worker_parts \<Rightarrow> round \<Rightarrow> worker_loop \<Rightarrow>
     'z worker_world_scheme \<Rightarrow> (int + unit) \<times> worker_loop \<times> 'z worker_world_scheme" where
  "worker_get_run J resolve p env loop w =
     (case net_connect (resolve (st_host (wp_settings p)) (st_port (wp_settings p))) w of
        (Inl e, w1) \<Rightarrow> (Inl e, loop, w1)
      | (Inr fd, w1) \<Rightarrow>
          (case worker_ask J p fd (poll_reports env) loop (w1\<lparr>rx := (rx w1)(fd := from_server env)\<rparr>) of
             (r, loop1, w2) \<Rightarrow> (r, loop1, net_close fd w2)))"

section \<open>Doing a run\<close>

text \<open>The labels \<open>free_output\<close> and after it; \<open>worker->run\<close> is left dangling.\<close>

definition free_output ::
  "run \<Rightarrow> process_output \<Rightarrow> 'z worker_world_scheme \<Rightarrow> 'z worker_world_scheme" where
  "free_output x result w = (run_destroy x (process_output_destroy result w))\<lparr>wk_run := None\<rparr>"

text \<open>Sending the finished run, up to the label \<open>free_output\<close>.\<close>

definition worker_report ::
  "'j jsonc \<Rightarrow> sodium \<Rightarrow> addrinfo list option \<Rightarrow> int \<Rightarrow> process_output \<Rightarrow> ('z world_scheme, unit) cfun" where
  "worker_report J S addrs i result =
     bindE (request_create_finished_run J S i result) (\<lambda>finished_request.
       after
         (bindE (net_connect addrs) (\<lambda>fd.
            after (jsonrpc_request_send J finished_request fd) (net_close fd)))
         (jsonrpc_request_destroy finished_request))"

definition worker_do_run ::
  "'j jsonc \<Rightarrow> sodium \<Rightarrow> revisions \<Rightarrow> (string \<Rightarrow> string list) \<Rightarrow> resolver \<Rightarrow> settings \<Rightarrow>
     ('z worker_world_scheme, unit) cfun" where
  "worker_do_run J S revisions walk resolve settings =
     bindE process_output_create (\<lambda>result w.
       case wk_run w of
         None \<Rightarrow> (Inl (-1), undefined_behaviour ''worker_do_run: no run'' w)
       | Some x \<Rightarrow>
           (case ci_run_git_repo revisions walk (run_get_repo_url x) (run_get_repo_rev x) result w of
              ((Inl e, result1), w1) \<Rightarrow> (Inl e, free_output x result1 w1)
            | ((Inr _, result1), w1) \<Rightarrow>
                after
                  (worker_report J S (resolve (st_host settings) (st_port settings)) (run_get_id x) result1)
                  (free_output x result1)
                  (process_output_dump result1 w1)))"

section \<open>The loop\<close>

text \<open>
  While a run is done no descriptor but those of its child is read from, so what the child
  writes is what any descriptor yields. The result is \<open>None\<close> if the worker is still running when
  the list ends.
\<close>

fun worker_main ::
  "'j jsonc \<Rightarrow> sodium \<Rightarrow> revisions \<Rightarrow> (string \<Rightarrow> string list) \<Rightarrow> resolver \<Rightarrow>
     ('j, 'z worker_world_scheme) worker_parts \<Rightarrow> round list \<Rightarrow> worker_loop \<Rightarrow> 'z worker_world_scheme \<Rightarrow>
     ((int + unit) \<times> worker_loop \<times> 'z worker_world_scheme) option" where
  "worker_main J S revisions walk resolve p [] loop w = None"
| "worker_main J S revisions walk resolve p (env # rest) loop w =
     (case worker_get_run J resolve p env loop w of
        (Inl e, loop1, w1) \<Rightarrow> Some (Inl e, loop1, w1)
      | (Inr _, loop1, w1) \<Rightarrow>
          if wk_stopping w1 then Some (Inr (), loop1, w1)
          else
            (case worker_do_run J S revisions walk resolve (wp_settings p)
                    (w1\<lparr>rx := (\<lambda>_. child_writes env)\<rparr>) of
               (Inl e, w2) \<Rightarrow> Some (Inl e, loop1, w2)
             | (Inr _, w2) \<Rightarrow> worker_main J S revisions walk resolve p rest loop1 w2))"

end
