(* ===== verification/WorkerRuns.thy ===== *)
theory WorkerRuns
  imports Worker
begin

text \<open>
  What a worker keeps while it goes around its loop: its one command honours the dispatcher's
  contract, a round either brings exactly one run or ends the loop, and a run that is done is
  destroyed.
\<close>

section \<open>The state of a worker\<close>

lemma worker_world_simps [simp]:
  "wk_run (emit e w) = wk_run w" "wk_run (used w) = wk_run w"
  "wk_lost (emit e w) = wk_lost w" "wk_lost (used w) = wk_lost w"
  "wk_stopping (emit e w) = wk_stopping w" "wk_stopping (used w) = wk_stopping w"
  "answer (w\<lparr>wk_run := a\<rparr>) = answer w" "answer (w\<lparr>wk_lost := b\<rparr>) = answer w" "answer (w\<lparr>wk_stopping := c\<rparr>) = answer w"
  "reliable (w\<lparr>wk_run := a\<rparr>) = reliable w" "reliable (w\<lparr>wk_lost := b\<rparr>) = reliable w"
  "reliable (w\<lparr>wk_stopping := c\<rparr>) = reliable w"
  by (simp_all add: emit_def used_def answer_def reliable_def)

lemma same_worker:
  assumes "world.more t = world.more (w :: 'z worker_world_scheme)"
  shows "wk_run t = wk_run w" "wk_lost t = wk_lost w" "wk_stopping t = wk_stopping w" "cwd t = cwd w"
  using assms by (cases t; cases w; simp)+

lemma same_worker_ci:
  assumes "ci_world.more t = ci_world.more (w :: 'z worker_world_scheme)"
  shows "wk_run t = wk_run w" "wk_lost t = wk_lost w" "wk_stopping t = wk_stopping w"
  using assms by (cases t; cases w; simp)+

text \<open>What a worker owns: the blocks of its run and of the runs it lost.\<close>

definition worker_holds :: "'z worker_world_ext ci_world_ext \<Rightarrow> resource \<Rightarrow> int" where
  "worker_holds m q =
     (if wk_run (as_world m) = None then 0 else int (count_list run_blocks q)) +
     int (length (wk_lost (as_world m))) * int (count_list run_blocks q)"

lemma as_worker [simp]:
  "wk_run (as_world (world.more w)) = wk_run (w :: 'z worker_world_scheme)"
  "wk_lost (as_world (world.more w)) = wk_lost w"
  by (cases w; simp add: as_world_def world.defs)+

lemma worker_ledger:
  "ledger worker_holds w q = bal (trace w) q - (if wk_run w = None then 0 else int (count_list run_blocks q)) -
     int (length (wk_lost w)) * int (count_list run_blocks q)"
  by (simp add: ledger_def worker_holds_def)

lemma parse_start_run_run:
  assumes "request_parse_start_run J request w = (r, t)"
  shows "still w t \<and> takes w t (if is_ok r then run_blocks else []) \<and> (\<forall>e. r = Inl e \<longrightarrow> e < 0)"
  using assms unfolding request_parse_start_run_def
proof (rule pure_then)
  fix i
  assume "bindE (pureE (jsonrpc_request_get_param_string J request run_key_url))
    (\<lambda>url. bindE (pureE (jsonrpc_request_get_param_string J request run_key_rev)) (run_created (int32 i) url)) w = (r, t)"
  then show ?thesis
  proof (rule pure_then)
    fix url
    assume "bindE (pureE (jsonrpc_request_get_param_string J request run_key_rev)) (run_created (int32 i) url) w = (r, t)"
    then show ?thesis
    proof (rule pure_then)
      fix rv
      assume "run_created (int32 i) url rv w = (r, t)"
      from yieldsD [OF run_new_yields this [unfolded run_created_def]] show ?thesis
        by (cases r) (auto simp: swaps_takes)
    qed (auto dest: get_param_negative)
  qed (auto dest: get_param_negative)
qed (auto dest: get_param_negative)

lemma start_run_run:
  assumes "worker_handle_cmd_start_run J request ctx w = ((ret, resp), t)"
  shows "resp = None \<and> still w t \<and> accounts worker_holds w t [] [] \<and> (\<forall>e. ret = Inl e \<longrightarrow> e < 0) \<and>
    wk_stopping t = wk_stopping w \<and>
    (if is_ok ret then \<exists>x. t = set_run x (snd (request_parse_start_run J request w)) \<and>
         fst (request_parse_start_run J request w) = Inr x \<and>
         wk_run t = Some x \<and> (wk_run w = None \<longrightarrow> wk_lost t = wk_lost w)
     else wk_run t = wk_run w \<and> wk_lost t = wk_lost w)"
proof -
  obtain a u where p: "request_parse_start_run J request w = (a, u)"
    by (cases "request_parse_start_run J request w")
  note ps = parse_start_run_run [OF p]
  then have m: "wk_run u = wk_run w" "wk_lost u = wk_lost w" "wk_stopping u = wk_stopping w"
    using same_worker [of u w] by (simp_all add: takes_def)
  show ?thesis
  proof (cases a)
    case (Inl e)
    with assms p ps m show ?thesis
      by (auto simp: worker_handle_cmd_start_run_def intro: accounts_takes)
  next
    case (Inr x)
    with assms p have t: "ret = Inr ()" "resp = None" "t = set_run x u"
      by (simp_all add: worker_handle_cmd_start_run_def)
    have "accounts worker_holds w t [] []"
      using ps Inr by (intro accountsI) (auto simp: t set_run_def worker_ledger m takes_def algebra_simps split: option.splits)
    with ps Inr m p t show ?thesis by (auto simp: set_run_def still_def)
  qed
qed

interpretation worker: command_set J "worker_commands J" "\<lambda>_. True" worker_holds
  for J :: "'j jsonc"
proof (unfold_locales, goal_cases)
  case (1 cmd w request ctx ret resp t)
  then have "worker_handle_cmd_start_run J request ctx w = ((ret, resp), t)"
    by (auto simp: worker_commands_def)
  from start_run_run [OF this] show ?case by (auto simp: still_def)
qed

interpretation worker_loop: event_handlers "worker_handle J d" for J d
proof (unfold_locales, goal_cases)
  case (1 h fd revents loop a w r loop' a' t)
  then show ?case by (cases h) (auto split: prod.splits)
qed

text \<open>The dispatcher of a worker.\<close>

definition worker_table :: "'j jsonc \<Rightarrow> ('j, 'z worker_world_scheme) worker_dispatcher" where
  "worker_table J = \<lparr>disp_cmds = worker_commands J, disp_ctx = ()\<rparr>"

section \<open>One connection\<close>

lemma worker_event:
  fixes w :: "'z worker_world_scheme"
  assumes run: "cmd_dispatcher_handle_event J fd pollin (worker_table J) w = (r, t)"
    and "c_strings (rx w fd)" "jsonc_ok J"
  shows "accounts worker_holds w t [] [] \<and> wk_stopping t = wk_stopping w \<and>
    (\<forall>d. d \<noteq> fd \<longrightarrow> rx t d = rx w d) \<and>
    (wk_run w = None \<longrightarrow> wk_lost t = wk_lost w \<and> (is_ok r \<longrightarrow> wk_run t \<noteq> None))"
proof (cases pollin)
  case False
  with run show ?thesis
    by (auto simp: cmd_dispatcher_handle_event_def failing_def accounts_def)
next
  case True
  with run have h: "cmd_dispatcher_handle_conn J fd \<lparr>disp_cmds = worker_commands J, disp_ctx = ()\<rparr> w = (r, t)"
    by (simp add: cmd_dispatcher_handle_event_def cmd_dispatcher_handle_conn_def worker_table_def)
  have safe: "\<not> unterminated w fd" using assms(2) by (simp add: unterminated_iff)
  have "wk_stopping t = wk_stopping w \<and>
    (wk_run w = None \<longrightarrow> wk_lost t = wk_lost w \<and> (is_ok r \<longrightarrow> wk_run t \<noteq> None))"
    using handle_conn_once [OF h safe]
  proof (elim disjE exE conjE)
    fix request m u ret resp v
    assume d: "dispatch_loop (worker_commands J) m request \<lparr>ctx_fd = fd, ctx_arg = ()\<rparr> u = ((ret, resp), v)"
      and more: "world.more u = world.more w" "world.more t = world.more v" and ok: "is_ok r \<longrightarrow> is_ok ret"
    note su = same_worker [OF more(1)] and st = same_worker [OF more(2)]
    show ?thesis
    proof (cases "m = CMD_START_RUN")
      case True
      with d have "worker_handle_cmd_start_run J request \<lparr>ctx_fd = fd, ctx_arg = ()\<rparr> u = ((ret, resp), v)"
        by (simp add: worker_commands_def)
      from start_run_run [OF this] su st ok show ?thesis by (auto split: if_splits)
    next
      case False
      with d have "ret = Inl (-1)" "v = u" by (auto simp: worker_commands_def)
      with su st ok show ?thesis by simp
    qed
  qed (use same_worker [of t w] in auto)
  with worker.handle_conn_spec [OF h TrueI safe assms(3)] show ?thesis by simp
qed

text \<open>A start-run message of the server is taken over as the run to do.\<close>

definition received_run :: "run \<Rightarrow> run" where
  "received_run x = \<lparr>run_id = run_id x, repo_url = repo_url x, repo_rev = repo_rev x,
     run_status = RUN_STATUS_CREATED, run_exit_code = -1\<rparr>"

lemma worker_event_start:
  assumes run: "cmd_dispatcher_handle_event J fd True (worker_table J) w = (r, t)"
    and rx: "rx w fd = message J (req_impl (start_run_request J x)) @ rest"
    and wire: "wire_ok J (req_impl (start_run_request J x))"
    and J: "jsonc_ok J" and i: "in_int32 (run_id x)" and w: "reliable w"
  shows "r = Inr () \<and> wk_run t = Some (received_run x)"
proof -
  let ?q = "start_run_request J x"
  from run have h: "cmd_dispatcher_handle_conn J fd \<lparr>disp_cmds = worker_commands J, disp_ctx = ()\<rparr> w = (r, t)"
    by (simp add: cmd_dispatcher_handle_event_def cmd_dispatcher_handle_conn_def worker_table_def)
  let ?w = "emit (Acquire (Mem ''cmd_conn_ctx'')) (used w)"
  have rec: "a = Inr ?q" if "jsonrpc_request_recv J fd ?w = (a, u)" for a u
    using jsonrpc_request_recv_message(2) [OF that wire, of rest] rx w built_own(2) [OF J, of x]
    by (simp add: own_request_def)
  from handle_conn_once [OF h message_terminated [OF wire rx]] show ?thesis
  proof (elim disjE exE conjE)
    fix request u0 m u ret resp v
    assume r: "jsonrpc_request_recv J fd ?w = (Inr request, u0)"
      and m: "jsonrpc_request_get_method J request = Some m"
      and d: "dispatch_loop (worker_commands J) m request \<lparr>ctx_fd = fd, ctx_arg = ()\<rparr> u = ((ret, resp), v)"
      and u: "reliable w \<longrightarrow> reliable u" and more: "world.more t = world.more v"
      and id: "object_get_ex J (req_impl request) ''id'' = None \<longrightarrow> r = ret"
    from rec [OF r] have q: "request = ?q" by simp
    have "object_get_ex J (req_impl ?q) ''id'' = None"
      using J by (simp add: start_run_request_def built_lookup)
    with id q have "r = ret" by simp
    have "m = CMD_START_RUN"
      using m J by (simp add: q start_run_request_def jsonrpc_request_get_method_def libjson_get_string_def
          libjson_get_alt built_lookup jsonc_okD)
    with d have hd: "worker_handle_cmd_start_run J ?q \<lparr>ctx_fd = fd, ctx_arg = ()\<rparr> u = ((ret, resp), v)"
      by (simp add: worker_commands_def q)
    obtain a u' where p: "request_parse_start_run J ?q u = (a, u')" by (cases "request_parse_start_run J ?q u")
    from yieldsD [OF read_start_run [OF J i] p] u w have a: "a = Inr (received_run x)"
      by (cases a) (simp_all add: received_run_def)
    with start_run_run [OF hd] hd p have "ret = Inr ()" "wk_run v = Some (received_run x)"
      by (auto simp: worker_handle_cmd_start_run_def set_run_def)
    with \<open>r = ret\<close> same_worker [OF more] show ?thesis by simp
  qed (use w rec in auto)
qed

section \<open>A round\<close>

lemma worker_round:
  fixes w :: "'z worker_world_scheme"
  assumes run: "event_loop_run (worker_handle J (worker_table J)) reported loop () w = (r, loop', a', t)"
    and wf: "loop_wf loop" and es: "loop_entries loop = [e, f]"
    and e: "ev_handler e = Stop_handler" "\<not> ev_once e" and f: "ev_handler f = Cmd_handler" "ev_once f"
    and rx: "c_strings (rx w (ev_fd f))" and J: "jsonc_ok J" and none: "wk_run w = None"
  shows "undef (trace t) = undef (trace w) \<and> wk_lost t = wk_lost w \<and> (reliable w \<longrightarrow> reliable t) \<and>
    (\<forall>q. heap q \<longrightarrow> q \<notin> {Mem ''pollfds'', Event_fd} \<longrightarrow> ledger worker_holds t q = ledger worker_holds w q) \<and>
    (is_ok r \<longrightarrow> (reported 0 \<noteq> 0 \<longrightarrow> wk_stopping t) \<and>
       (reported 1 \<noteq> 0 \<longrightarrow> wk_run t \<noteq> None \<and> loop_wf loop' \<and> loop_entries loop' = [e])) \<and>
    (reliable w \<and> reported 1 AND POLLIN \<noteq> 0 \<longrightarrow>
       (\<forall>x rest. rx w (ev_fd f) = message J (req_impl (start_run_request J x)) @ rest \<longrightarrow>
          wire_ok J (req_impl (start_run_request J x)) \<longrightarrow> in_int32 (run_id x) \<longrightarrow>
          r = Inr () \<and> wk_run t = Some (received_run x) \<and> wk_stopping t = (wk_stopping w \<or> reported 0 \<noteq> 0)))"
  using worker_loop.run_cases [OF run wf]
proof (elim disjE exE conjE)
  fix n
  assume "\<not> reliable w" "\<not> is_ok r" "takes w t (replicate n (Mem ''pollfds''))"
  with same_worker [of t w] show ?thesis
    by (auto simp: takes_def worker_ledger count_list_0_iff)
next
  fix u v
  assume u: "takes w u [Mem ''pollfds'']" "still w u" and t: "t = release (Mem ''pollfds'') v"
    and s: "serve_ready (worker_handle J (worker_table J)) (snapshot reported loop) (Inr ()) loop () u = (r, loop', a', v)"
  define u1 where "u1 = (if reported 0 = 0 then u else (log_events (reported 0) u)\<lparr>wk_stopping := True\<rparr>)"
  have u1: "undef (trace u1) = undef (trace w)" "bal (trace u1) q = bal (trace w) q + (if q = Mem ''pollfds'' then 1 else 0)"
    "rx u1 = rx w" "wk_run u1 = None" "wk_lost u1 = wk_lost w" "reliable w \<longrightarrow> reliable u1"
    "wk_stopping u1 = (wk_stopping w \<or> reported 0 \<noteq> 0)" for q
    using u log_events_calm [of u "reported 0"] same_worker [of u w] same_worker [of "log_events (reported 0) u" u] none
    by (auto simp: u1_def takes_def still_def)
  have snap: "snapshot reported loop = [(e, reported 0), (f, reported 1)]" by (simp add: snapshot_def es)
  have s1: "serve_ready (worker_handle J (worker_table J)) [(f, reported 1)] (Inr ()) loop () u1 = (r, loop', a', v)"
  proof (cases "reported 0 = 0")
    case True
    with s snap show ?thesis by (simp add: u1_def)
  next
    case False
    then have "worker_handle J (worker_table J) (ev_handler e) (ev_fd e) (reported 0) loop () (log_events (reported 0) u) =
        (Inr (), loop, (), u1)" by (simp add: e u1_def worker_set_stopping_def)
    with s [unfolded snap serve_ready.simps(2) [of _ e]] False e(2) show ?thesis by (simp del: serve_ready.simps)
  qed
  show ?thesis
  proof (cases "reported 1 = 0")
    case True
    with s1 have "r = Inr ()" "v = u1" by simp_all
    with True u1 t none show ?thesis by (simp add: worker_ledger)
  next
    case False
    define u2 where "u2 = log_events (reported 1) u1"
    have u2: "calm u1 u2" "still u1 u2" using log_events_calm [of u1 "reported 1"] by (simp_all add: u2_def)
    note m2 = same_worker [of u2 u1] takesD(1) [OF u2(1)]
    obtain b v1 where ev: "cmd_dispatcher_handle_event J (ev_fd f) (reported 1 AND POLLIN \<noteq> 0) (worker_table J) u2 = (b, v1)"
      by (cases "cmd_dispatcher_handle_event J (ev_fd f) (reported 1 AND POLLIN \<noteq> 0) (worker_table J) u2")
    have rx2: "rx u2 = rx w" using u1 u2 by (simp add: still_def)
    with rx have "c_strings (rx u2 (ev_fd f))" by simp
    note we = worker_event [OF ev this J]
    from ev have ev': "cmd_dispatcher_handle_event J (ev_fd f) (reported 1 AND POLLIN \<noteq> 0) (worker_table J)
        (log_events (reported 1) u1) = (b, v1)" by (simp only: u2_def)
    from s1 False ev' f have r: "r = (if is_ok b then Inr () else b)" "loop' = drop_entry (ev_addr f) loop"
      "v = event_fd_destroy v1"
      by auto
    have "loop_entries loop = [e] @ f # []" by (simp add: es)
    note d = drop_entry_wf [OF wf this]
    have "r = Inr () \<and> wk_run t = Some (received_run x) \<and> wk_stopping t = (wk_stopping w \<or> reported 0 \<noteq> 0)"
      if "reliable w" "reported 1 AND POLLIN \<noteq> 0"
        "rx w (ev_fd f) = message J (req_impl (start_run_request J x)) @ rest"
        "wire_ok J (req_impl (start_run_request J x))" "in_int32 (run_id x)" for x rest
    proof -
      from ev that(2) have "cmd_dispatcher_handle_event J (ev_fd f) True (worker_table J) u2 = (b, v1)" by simp
      moreover have "reliable u2" using u1 u2 that(1) by (simp add: takes_def)
      ultimately show ?thesis
        using worker_event_start [of J "ev_fd f" u2 b v1 x rest] that J rx2 we r t u1 m2
        by (simp add: event_fd_destroy_def)
    qed
    moreover have "ledger worker_holds t q = ledger worker_holds w q"
      if "heap q" "q \<notin> {Mem ''pollfds'', Event_fd}" for q
    proof -
      have "ledger worker_holds t q = ledger worker_holds v1 q"
        using that t r by (auto simp: ledger_def event_fd_destroy_def)
      also have "\<dots> = ledger worker_holds u2 q" using we that(1) by (simp add: accounts_def)
      also have "\<dots> = ledger worker_holds w q"
        using that u2 u1 m2 none by (simp add: worker_ledger takes_def)
      finally show ?thesis .
    qed
    ultimately show ?thesis
      using we u1 u2 m2 r t d False by (auto simp: accounts_def event_fd_destroy_def takes_def split: if_splits)
  qed
qed

text \<open>The loop of a worker that is not connected: only the signal descriptor is in it.\<close>

definition idle :: "worker_loop \<Rightarrow> bool" where
  "idle loop \<longleftrightarrow> loop_wf loop \<and> (\<exists>e. loop_entries loop = [e] \<and> ev_handler e = Stop_handler \<and> \<not> ev_once e)"

lemma idle_connected:
  assumes "idle loop" "event_loop_add_once loop fd POLLIN Cmd_handler w = (Inr loop1, t)"
  obtains e f where "loop_wf loop1" "loop_entries loop1 = [e, f]" "ev_handler e = Stop_handler" "\<not> ev_once e"
    "ev_handler f = Cmd_handler" "ev_once f" "ev_fd f = fd" "takes w t [Event_fd]" "still w t"
    "\<And>l. loop_wf l \<Longrightarrow> loop_entries l = [e] \<Longrightarrow> idle l"
  using event_loop_add_once_spec [OF assms(2)] assms(1) by (auto simp: idle_def)

text \<open>What a worker keeps, apart from what a failed round leaves allocated.\<close>

definition keeps_all :: "resource set \<Rightarrow> 'z worker_world_scheme \<Rightarrow> 'z worker_world_scheme \<Rightarrow> bool" where
  "keeps_all X w t \<longleftrightarrow> undef (trace t) = undef (trace w) \<and> wk_lost t = wk_lost w \<and> (reliable w \<longrightarrow> reliable t) \<and>
     (\<forall>q. heap q \<longrightarrow> q \<notin> X \<longrightarrow> ledger worker_holds t q = ledger worker_holds w q)"

lemma keeps_all_trans: "keeps_all X w u \<Longrightarrow> keeps_all X u t \<Longrightarrow> keeps_all X w t"
  by (simp add: keeps_all_def)

lemma keeps_all_mono: "keeps_all X w t \<Longrightarrow> X \<subseteq> Y \<Longrightarrow> keeps_all Y w t"
  by (auto simp: keeps_all_def)

lemma keeps_all_takes:
  fixes w :: "'z worker_world_scheme"
  assumes "takes w t rs" "\<And>q. q \<in> set rs \<Longrightarrow> q \<in> X \<or> \<not> heap q"
  shows "keeps_all X w t"
proof -
  have "ledger worker_holds t q = ledger worker_holds w q" if "heap q" "q \<notin> X" for q
  proof -
    have "count_list rs q = 0" using assms(2) that by (auto simp: count_list_0_iff)
    with assms(1) show ?thesis by (simp add: takes_def ledger_def)
  qed
  with assms(1) same_worker(2) [of t w] show ?thesis by (simp add: keeps_all_def takes_def)
qed

lemma worker_ask_spec:
  fixes w :: "'z worker_world_scheme"
  assumes run: "worker_ask J p fd reported loop w = (r, loop', t)"
    and p: "wp_dispatcher p = worker_table J" and idle: "idle loop" and J: "jsonc_ok J"
    and rx: "c_strings (rx w fd)" and none: "wk_run w = None"
  shows "keeps_all {Mem ''pollfds'', Event_fd} w t \<and>
    (is_ok r \<longrightarrow> (reported 0 \<noteq> 0 \<longrightarrow> wk_stopping t) \<and> (reported 1 \<noteq> 0 \<longrightarrow> wk_run t \<noteq> None \<and> idle loop')) \<and>
    (reliable w \<and> reported 1 AND POLLIN \<noteq> 0 \<longrightarrow>
       (\<forall>x rest. rx w fd = message J (req_impl (start_run_request J x)) @ rest \<longrightarrow>
          wire_ok J (req_impl (start_run_request J x)) \<longrightarrow> in_int32 (run_id x) \<longrightarrow>
          r = Inr () \<and> wk_run t = Some (received_run x) \<and> wk_stopping t = (wk_stopping w \<or> reported 0 \<noteq> 0)))"
proof -
  let ?X = "{Mem ''pollfds'', Event_fd}"
  have calm: "keeps_all ?X w v" if "calm w v" for v using keeps_all_takes [OF that] by simp
  obtain a w1 where a: "request_create_new_worker J w = (a, w1)" by (cases "request_create_new_worker J w")
  note as = yieldsD [OF new_worker_request_yields a]
  show ?thesis
  proof (cases a)
    case (Inl e)
    with run a as calm show ?thesis by (auto simp: worker_ask_def)
  next
    case (Inr q)
    obtain b v where b: "jsonrpc_request_send J q fd w1 = (b, v)" by (cases "jsonrpc_request_send J q fd w1")
    note bs = libjson_send_spec [OF b [unfolded jsonrpc_request_send_def]]
    define w2 where "w2 = jsonrpc_request_destroy q v"
    have w2: "calm w w2" "rx w2 = rx w"
      using as Inr bs gives_backD [OF gives_back_request, of v q] by (auto simp: w2_def swaps_def takes_def still_def)
    show ?thesis
    proof (cases b)
      case (Inl e)
      with run a \<open>a = Inr q\<close> b have "r = Inl e" "t = w2" by (auto simp: worker_ask_def after_def w2_def)
      moreover have "\<not> reliable w" using as \<open>a = Inr q\<close> bs Inl by (auto simp: swaps_def)
      ultimately show ?thesis using calm [OF w2(1)] by simp
    next
      case sent: (Inr x)
      obtain c w3 where c: "event_loop_add_once loop fd POLLIN Cmd_handler w2 = (c, w3)"
        by (cases "event_loop_add_once loop fd POLLIN Cmd_handler w2")
      show ?thesis
      proof (cases c)
        case (Inl e)
        with run a Inr b sent c have "r = Inl e" "t = w3" by (auto simp: worker_ask_def after_def w2_def)
        moreover from event_loop_add_once_spec [OF c] Inl have "calm w2 w3" "\<not> reliable w2" by simp_all
        ultimately show ?thesis using calm [OF takes_calm [OF w2(1)]] w2(1) by (auto simp: takes_def)
      next
        case added: (Inr loop1)
        obtain a' w4 where d: "event_loop_run (worker_handle J (worker_table J)) reported loop1 () w3 = (r, loop', a', w4)"
          and t: "t = w4"
          using run a Inr b sent c added p by (auto simp: worker_ask_def after_def w2_def split: prod.splits)
        obtain e f where ef: "loop_wf loop1" "loop_entries loop1 = [e, f]" "ev_handler e = Stop_handler" "\<not> ev_once e"
          "ev_handler f = Cmd_handler" "ev_once f" "ev_fd f = fd" "takes w2 w3 [Event_fd]" "still w2 w3"
          "\<And>l. loop_wf l \<Longrightarrow> loop_entries l = [e] \<Longrightarrow> idle l"
          using idle_connected [OF idle c [unfolded added]] by blast
        have w3: "rx w3 = rx w" "takes w w3 [Event_fd]" using ef w2 takes_calm [OF w2(1) ef(8)] by (simp_all add: still_def)
        note m3 = same_worker [of w3 w] takesD(1,4) [OF w3(2)]
        have "c_strings (rx w3 (ev_fd f))" "wk_run w3 = None" using rx none m3 w3 ef(7) by simp_all
        note wr = worker_round [OF d ef(1-6) this(1) J this(2)]
        have "keeps_all ?X w w3" by (rule keeps_all_takes [OF w3(2)]) simp
        moreover have "keeps_all ?X w3 t" using wr by (simp add: keeps_all_def t)
        ultimately have "keeps_all ?X w t" by (rule keeps_all_trans)
        with wr ef(7,10) w3 m3 t show ?thesis by auto
      qed
    qed
  qed
qed

lemma worker_get_run_spec:
  fixes w :: "'z worker_world_scheme"
  assumes run: "worker_get_run J resolve p env loop w = (r, loop', t)"
    and p: "wp_dispatcher p = worker_table J" and idle: "idle loop" and J: "jsonc_ok J"
    and rx: "c_strings (from_server env)" and none: "wk_run w = None"
  shows "keeps_all {Mem ''pollfds'', Event_fd} w t \<and>
    (is_ok r \<longrightarrow> (poll_reports env 0 \<noteq> 0 \<longrightarrow> wk_stopping t) \<and>
       (poll_reports env 1 \<noteq> 0 \<longrightarrow> wk_run t \<noteq> None \<and> idle loop')) \<and>
    (reliable w \<and> resolve (st_host (wp_settings p)) (st_port (wp_settings p)) = Some (it # its) \<and>
       poll_reports env 1 AND POLLIN \<noteq> 0 \<longrightarrow>
       (\<forall>x rest. from_server env = message J (req_impl (start_run_request J x)) @ rest \<longrightarrow>
          wire_ok J (req_impl (start_run_request J x)) \<longrightarrow> in_int32 (run_id x) \<longrightarrow>
          r = Inr () \<and> wk_run t = Some (received_run x) \<and> wk_stopping t = (wk_stopping w \<or> poll_reports env 0 \<noteq> 0)))"
proof -
  let ?X = "{Mem ''pollfds'', Event_fd}" and ?a = "resolve (st_host (wp_settings p)) (st_port (wp_settings p))"
  obtain a w1 where a: "net_connect ?a w = (a, w1)" by (cases "net_connect ?a w")
  note nc = meetsD [OF net_connect_spec a, unfolded opens_fd_def]
  show ?thesis
  proof (cases a)
    case (Inl e)
    with run a have "r = Inl e" "t = w1" by (auto simp: worker_get_run_def)
    moreover have "keeps_all ?X w w1" using nc Inl by (intro keeps_all_takes [of w w1 "[]"]) auto
    ultimately show ?thesis using net_connect_reliable [of w it its] a Inl by auto
  next
    case (Inr fd)
    let ?w1 = "w1\<lparr>rx := (rx w1)(fd := from_server env)\<rparr>"
    obtain u where u: "worker_ask J p fd (poll_reports env) loop ?w1 = (r, loop', u)" and t: "t = net_close fd u"
      using run a Inr by (auto simp: worker_get_run_def split: prod.splits)
    have w1: "takes w w1 [Desc fd]" using nc Inr by simp
    note m1 = same_worker [of w1 w] takesD(1,4) [OF w1]
    have "c_strings (rx ?w1 fd)" "wk_run ?w1 = None" using rx none m1 by simp_all
    note wa = worker_ask_spec [OF u p idle J this]
    have "keeps_all ?X w w1" by (rule keeps_all_takes [OF w1]) (simp add: heap_def)
    then have "keeps_all ?X w ?w1" by (simp add: keeps_all_def ledger_def)
    moreover have "keeps_all ?X u t" by (auto simp: keeps_all_def worker_ledger heap_def t)
    ultimately have "keeps_all ?X w t" using wa by (blast intro: keeps_all_trans)
    with wa m1 t show ?thesis by simp
  qed
qed

section \<open>Doing a run\<close>

lemma worker_report_spec:
  assumes run: "worker_report J S addrs i out w = (r, t)"
  shows "calm w t \<and> (reliable w \<and> addrs = Some (it # its) \<longrightarrow> r = Inr () \<and>
    (\<exists>fd. \<forall>d. sent d (trace t) =
       sent d (trace w) @ (if d = fd then message J (req_impl (finished_run_request J S i out)) else [])))"
proof -
  let ?q = "finished_run_request J S i out"
  obtain a w1 where a: "request_create_finished_run J S i out w = (a, w1)"
    by (cases "request_create_finished_run J S i out w")
  note as = yieldsD [OF finished_run_request_yields a]
  show ?thesis
  proof (cases a)
    case (Inl e)
    with run a as show ?thesis by (auto simp: worker_report_def bindE_def)
  next
    case (Inr q)
    with as have q: "q = ?q" "takes w w1 [Request, Json]" "still w w1" by (simp_all add: swaps_takes)
    obtain b w2 where b: "net_connect addrs w1 = (b, w2)" by (cases "net_connect addrs w1")
    note nc = meetsD [OF net_connect_spec b, unfolded opens_fd_def]
    note gb = gives_backD [OF gives_back_request, of _ q]
    show ?thesis
    proof (cases b)
      case (Inl e)
      with run a Inr b have t: "r = Inl e" "t = jsonrpc_request_destroy q w2"
        by (auto simp: worker_report_def bindE_def after_def \<open>a = Inr q\<close>)
      have "\<not> (reliable w \<and> addrs = Some (it # its))"
        using net_connect_reliable [of w1 it its] b Inl q(2) by (auto simp: takes_def)
      moreover have "calm w t" using nc Inl q gb(1) [of w2] t by (auto simp: takes_def swaps_def)
      ultimately show ?thesis by blast
    next
      case (Inr fd)
      obtain c w3 where c: "jsonrpc_request_send J q fd w2 = (c, w3)" by (cases "jsonrpc_request_send J q fd w2")
      note sn = libjson_send_spec [OF c [unfolded jsonrpc_request_send_def]]
      from run a b c Inr \<open>a = Inr q\<close> have t: "r = c" "t = jsonrpc_request_destroy q (net_close fd w3)"
        by (auto simp: worker_report_def bindE_def after_def)
      have "calm w t" using nc Inr q sn gb(1) [of "net_close fd w3"] t by (auto simp: takes_def swaps_def)
      moreover have "sent d (trace t) = sent d (trace w3)" "sent d (trace w2) = sent d (trace w)" for d
        using gb(2) [of "net_close fd w3"] nc q t by (simp_all add: still_def)
      moreover have "reliable w \<longrightarrow> reliable w2" using nc Inr q by (simp add: takes_def)
      ultimately show ?thesis
        using sn q t by (cases c) (auto intro!: exI [of _ fd])
    qed
  qed
qed

definition run_leftovers :: "resource \<Rightarrow> bool" where
  "run_leftovers q \<longleftrightarrow> q \<in> {Tmp_dir, Mem ''contents''} \<or> (\<exists>pid. q = Child pid)"

lemma worker_do_run_spec:
  fixes w :: "'z worker_world_scheme"
  assumes run: "worker_do_run J S revisions walk resolve settings w = (r, t)" and x: "wk_run w = Some x"
  shows "keeps_all {q. run_leftovers q} w t \<and> (is_ok r \<longrightarrow> wk_run t = None) \<and> wk_stopping t = wk_stopping w \<and>
    (reliable w \<and> resolve (st_host settings) (st_port settings) = Some (it # its) \<longrightarrow>
       (case chosen_script (revisions (repo_url x) (repo_rev x)) of
          None \<Rightarrow> r = Inl (-1) \<and> noted (trace t) = noted (trace w) \<and> (\<forall>d. sent d (trace t) = sent d (trace w))
        | Some s \<Rightarrow> r = Inr () \<and>
            (\<exists>fd p out. po_data out = Some (rx w p) \<and> po_data_size out = length (rx w p) \<and>
               -126 \<le> po_ec out \<and> po_ec out \<le> 255 \<and>
               (\<forall>d. sent d (trace t) = sent d (trace w) @
                  (if d = fd then message J (req_impl (finished_run_request J S (run_id x) out)) else [])))))"
proof (cases "answer w < 0")
  case True
  with run have "r = Inl (-1)" "t = used w"
    by (auto simp: worker_do_run_def process_output_create_def bindE_def alloc_def)
  with True show ?thesis by (auto simp: keeps_all_def ledger_def)
next
  case False
  define w1 where "w1 = emit (Acquire (Mem ''process_output'')) (used w)"
  have w1: "wk_run w1 = Some x" "reliable w \<longrightarrow> reliable w1" "wk_lost w1 = wk_lost w" "wk_stopping w1 = wk_stopping w"
    "undef (trace w1) = undef (trace w)" "noted (trace w1) = noted (trace w)" "sent d (trace w1) = sent d (trace w)"
    "bal (trace w1) q = bal (trace w) q + (if q = Mem ''process_output'' then 1 else 0)" "rx w1 = rx w" for d q
    using x by (simp_all add: w1_def)
  let ?empty = "\<lparr>po_ec = 0, po_data = None, po_data_size = 0\<rparr>"
  obtain y out w2 where ci: "ci_run_git_repo revisions walk (repo_url x) (repo_rev x) ?empty w1 = ((y, out), w2)"
    by (metis surj_pair)
  note cs = ci_run_git_repo_spec [OF ci]
  have w2: "wk_run w2 = Some x" "wk_lost w2 = wk_lost w" "wk_stopping w2 = wk_stopping w"
    using same_worker_ci [of w2 w1] cs w1 by simp_all
  have free: "wk_run (free_output x out v) = None" "wk_lost (free_output x out v) = wk_lost v"
    "wk_stopping (free_output x out v) = wk_stopping v" "undef (trace (free_output x out v)) = undef (trace v)"
    "reliable (free_output x out v) = reliable v" "noted (trace (free_output x out v)) = noted (trace v)"
    "sent d (trace (free_output x out v)) = sent d (trace v)"
    "q \<noteq> Mem ''contents'' \<Longrightarrow> bal (trace (free_output x out v)) q =
       bal (trace v) q - int (count_list run_blocks q) - (if q = Mem ''process_output'' then 1 else 0)"
    for v :: "'z worker_world_scheme" and d q
    by (auto simp: free_output_def process_output_destroy_def run_destroy_def run_blocks_def split: option.splits)
  show ?thesis
  proof (cases y)
    case (Inl e)
    with run ci False x have t: "r = Inl e" "t = free_output x out w2"
      by (auto simp: worker_do_run_def process_output_create_def bindE_def alloc_def ok_def run_accessors w1_def)
    have "keeps_all {q. run_leftovers q} w t"
      using cs w1 w2 free x by (auto simp: keeps_all_def t worker_ledger run_leftovers_def)
    then show ?thesis
      using cs w1 w2 free t Inl by (auto split: option.splits)
  next
    case (Inr u)
    let ?a = "resolve (st_host settings) (st_port settings)"
    obtain b w3 where b: "worker_report J S ?a (run_id x) out w2 = (b, w3)" by (cases "worker_report J S ?a (run_id x) out w2")
    note rp = worker_report_spec [OF b, of it its]
    have w3: "wk_run w3 = Some x" "wk_lost w3 = wk_lost w" "wk_stopping w3 = wk_stopping w"
      "undef (trace w3) = undef (trace w2)" "bal (trace w3) q = bal (trace w2) q" "reliable w2 \<longrightarrow> reliable w3" for q
      using same_worker [of w3 w2] rp w2 by (simp_all add: takes_def)
    from run ci False x Inr b have t: "r = b" "t = free_output x out w3"
      by (auto simp: worker_do_run_def process_output_create_def bindE_def alloc_def ok_def run_accessors w1_def
          process_output_dump_def after_def)
    have "keeps_all {q. run_leftovers q} w t"
      using cs w1 w2 w3 free x by (auto simp: keeps_all_def t worker_ledger run_leftovers_def)
    moreover have "wk_run t = None" "wk_stopping t = wk_stopping w" by (simp_all add: t free w3)
    moreover have "case chosen_script (revisions (repo_url x) (repo_rev x)) of
          None \<Rightarrow> r = Inl (-1) \<and> noted (trace t) = noted (trace w) \<and> (\<forall>d. sent d (trace t) = sent d (trace w))
        | Some s \<Rightarrow> r = Inr () \<and>
            (\<exists>fd p out. po_data out = Some (rx w p) \<and> po_data_size out = length (rx w p) \<and>
               -126 \<le> po_ec out \<and> po_ec out \<le> 255 \<and>
               (\<forall>d. sent d (trace t) = sent d (trace w) @
                  (if d = fd then message J (req_impl (finished_run_request J S (run_id x) out)) else [])))"
      if rel: "reliable w" and addrs: "?a = Some (it # its)"
    proof (cases "chosen_script (revisions (repo_url x) (repo_rev x))")
      case None
      with cs w1(2) rel Inr show ?thesis by simp
    next
      case (Some s)
      with cs w1(2,9) rel obtain p where out: "po_data out = Some (rx w p)" "po_data_size out = length (rx w p)"
        "-126 \<le> po_ec out" "po_ec out \<le> 255" "reliable w2" by auto
      with rp addrs obtain fd where "b = Inr ()" "\<forall>d. sent d (trace w3) = sent d (trace w2) @
          (if d = fd then message J (req_impl (finished_run_request J S (run_id x) out)) else [])" by blast
      with cs w1(7) have "r = Inr ()" "\<forall>d. sent d (trace t) = sent d (trace w) @
          (if d = fd then message J (req_impl (finished_run_request J S (run_id x) out)) else [])"
        by (simp_all add: t free)
      with out(1-4) show ?thesis unfolding Some option.case by blast
    qed
    ultimately show ?thesis by blast
  qed
qed

section \<open>The whole loop\<close>

text \<open>
  The server sends no frame without a terminating NUL, and \<open>poll\<close>, which waits without a time
  limit, reports something.
\<close>

definition fair_round :: "round \<Rightarrow> bool" where
  "fair_round env \<longleftrightarrow> c_strings (from_server env) \<and> (poll_reports env 0 \<noteq> 0 \<or> poll_reports env 1 \<noteq> 0)"

definition worker_leftovers :: "resource set" where
  "worker_leftovers = {q. q \<in> {Mem ''pollfds'', Event_fd} \<or> run_leftovers q}"

lemma worker_main_spec:
  "worker_main J S revisions walk resolve p rounds loop w = Some (r, loop', t) \<Longrightarrow>
     wp_dispatcher p = worker_table J \<Longrightarrow> jsonc_ok J \<Longrightarrow> idle loop \<Longrightarrow> wk_run w = None \<Longrightarrow>
     (\<And>env. env \<in> set rounds \<Longrightarrow> fair_round env) \<Longrightarrow> keeps_all worker_leftovers w t"
proof (induction rounds arbitrary: loop w)
  case (Cons env rounds)
  obtain a loop1 w1 where g: "worker_get_run J resolve p env loop w = (a, loop1, w1)"
    by (metis surj_pair)
  have env: "c_strings (from_server env)" "poll_reports env 0 \<noteq> 0 \<or> poll_reports env 1 \<noteq> 0"
    using Cons.prems(6) by (auto simp: fair_round_def)
  note gr = worker_get_run_spec [OF g Cons.prems(2,4,3) env(1) Cons.prems(5), where it = undefined and its = undefined]
  have k1: "keeps_all worker_leftovers w w1"
    using gr keeps_all_mono [of "{Mem ''pollfds'', Event_fd}" w w1 worker_leftovers] by (auto simp: worker_leftovers_def)
  show ?case
  proof (cases "is_ok a \<and> \<not> wk_stopping w1")
    case False
    with Cons.prems(1) g k1 show ?thesis by (cases a) auto
  next
    case True
    with gr env(2) obtain x where w1: "idle loop1" "wk_run w1 = Some x" by auto
    let ?v = "w1\<lparr>rx := \<lambda>_. child_writes env\<rparr>"
    obtain b w2 where d: "worker_do_run J S revisions walk resolve (wp_settings p) ?v = (b, w2)"
      by (cases "worker_do_run J S revisions walk resolve (wp_settings p) ?v")
    have "wk_run ?v = Some x" using w1 by simp
    note dr = worker_do_run_spec [OF d this, where it = undefined and its = undefined]
    have "keeps_all worker_leftovers w1 ?v" by (simp add: keeps_all_def ledger_def)
    moreover have "keeps_all worker_leftovers ?v w2"
      using dr keeps_all_mono [of "{q. run_leftovers q}" ?v w2 worker_leftovers] by (auto simp: worker_leftovers_def)
    ultimately have k2: "keeps_all worker_leftovers w w2" using k1 by (blast intro: keeps_all_trans)
    show ?thesis
    proof (cases b)
      case (Inl e)
      with Cons.prems(1) g d True k2 show ?thesis by (cases a) auto
    next
      case (Inr u)
      with Cons.prems(1) g d True have "worker_main J S revisions walk resolve p rounds loop1 w2 = Some (r, loop', t)"
        by (cases a) auto
      moreover have "wk_run w2 = None" using dr Inr by simp
      ultimately have "keeps_all worker_leftovers w2 t"
        using Cons.IH [of loop1 w2] Cons.prems(2,3,6) w1(1) by simp
      with k2 show ?thesis by (rule keeps_all_trans)
    qed
  qed
qed simp

end
