(* ===== verification/WorkerLife.thy ===== *)
theory WorkerLife
  imports WorkerRuns
begin

text \<open>
  The life of \<open>cimple-worker\<close>: what \<open>worker_create\<close> takes or gives back, what its loop keeps, and
  that \<open>worker_destroy\<close> gives back the rest.
\<close>

section \<open>Creation and destruction\<close>

lemma gives_back_settings_copy: "gives_back worker_settings_destroy settings_blocks"
  by (auto simp: gives_back_alt worker_settings_destroy_def settings_blocks_def still_def)

definition worker_blocks :: "('j, 'a, 's, 'c) cmd_dispatcher \<Rightarrow> worker_loop \<Rightarrow> resource list" where
  "worker_blocks d loop = replicate (length (loop_entries loop)) Event_fd @ [Mem ''event_loop''] @
     dispatcher_blocks d @ settings_blocks @ [Worker]"

lemma gives_back_worker_labels:
  "gives_back free_worker [Worker]" "gives_back free_settings (settings_blocks @ [Worker])"
  "gives_back (worker_destroy_cmd_dispatcher d) (dispatcher_blocks d @ settings_blocks @ [Worker])"
  "gives_back (worker_destroy_event_loop d loop) (worker_blocks d loop)"
  "gives_back (worker_close_signalfd d loop sfd) (Desc sfd # worker_blocks d loop)"
proof -
  show 1: "gives_back free_worker [Worker]" by (simp add: free_worker_def [abs_def])
  show 2: "gives_back free_settings (settings_blocks @ [Worker])"
    using gives_back_comp [OF gives_back_settings_copy 1] by (simp add: free_settings_def [abs_def])
  show 3: "gives_back (worker_destroy_cmd_dispatcher d) (dispatcher_blocks d @ settings_blocks @ [Worker])"
    using gives_back_comp [OF gives_back_dispatcher 2] by (simp add: worker_destroy_cmd_dispatcher_def [abs_def])
  show 4: "gives_back (worker_destroy_event_loop d loop) (worker_blocks d loop)"
    using gives_back_comp [OF gives_back_event_loop 3]
    by (simp add: worker_destroy_event_loop_def [abs_def] worker_blocks_def)
  show "gives_back (worker_close_signalfd d loop sfd) (Desc sfd # worker_blocks d loop)"
    using gives_back_comp [OF gives_back_close(2) 4] by (simp add: worker_close_signalfd_def [abs_def])
qed

lemma gives_back_worker:
  "gives_back (ci_worker_destroy p loop)
     (Lib ''libgit2'' # Desc (wp_signalfd p) # worker_blocks (wp_dispatcher p) loop)"
proof -
  have git: "gives_back libgit_shutdown [Lib ''libgit2'']" by (simp add: libgit_shutdown_def [abs_def])
  have eq: "ci_worker_destroy p loop = (\<lambda>w. worker_close_signalfd (wp_dispatcher p) loop (wp_signalfd p) (libgit_shutdown w))"
    by (simp add: fun_eq_iff ci_worker_destroy_def worker_close_signalfd_def worker_destroy_event_loop_def
        worker_destroy_cmd_dispatcher_def free_settings_def free_worker_def)
  from gives_back_comp [OF git gives_back_worker_labels(5)] show ?thesis by (simp add: eq)
qed

lemma settings_copy_yields: "yields (worker_settings_copy src) [] settings_blocks src"
proof -
  have src: "\<lparr>st_host = st_host src, st_port = st_port src\<rparr> = src" by (cases src) simp
  have "yields (worker_settings_copy src) []
      ([Mem ''settings''] @ ([Mem ''settings_host''] @ [Mem ''settings_port''])) src"
    unfolding worker_settings_copy_def
    by (rule yields_bind_onErr [OF yields_alloc _ gives_back_release],
        rule yields_bind_onErr [OF yields_alloc _ gives_back_release])
      (simp add: src yields_alloc_ok)
  then show ?thesis by (simp add: settings_blocks_def)
qed

lemma libgit_init_spec:
  assumes "libgit_init w = (r, t)"
  shows "still w t \<and> (case r of Inl e \<Rightarrow> e < 0 \<and> calm w t | Inr _ \<Rightarrow> takes w t [Lib ''libgit2''])"
  using assms by (auto simp: libgit_init_def bindE_def sys_def andThen_def ok_def takes_def still_def split: if_splits)

lemma got_label_even: "got w u cs \<Longrightarrow> even u v \<Longrightarrow> gives_back c cs \<Longrightarrow> even w (c v)"
  by (auto simp: got_def even_def gives_back_alt)

definition created_worker where
  "created_worker J settings p m w t \<longleftrightarrow>
     wp_dispatcher p = worker_table J \<and> wp_settings p = settings \<and> idle (wp_loop p) \<and> m = sigterms_mask \<and>
     wk_run t = None \<and> wk_lost t = wk_lost w \<and> \<not> wk_stopping t \<and>
     got w t (Lib ''libgit2'' # Desc (wp_signalfd p) # worker_blocks (wp_dispatcher p) (wp_loop p))"

lemma ci_worker_create_late:
  fixes w :: "'z worker_world_scheme"
  assumes run: "or_goto (in_world event_loop_create (m, u)) (map_prod id (worker_destroy_cmd_dispatcher d)) (\<lambda>loop m.
     or_goto (signalfd_create_sigterms m) (map_prod id (worker_destroy_event_loop d loop)) (\<lambda>sfd m.
     or_goto (in_world (event_loop_add loop sfd POLLIN Stop_handler) m)
         (map_prod id (worker_close_signalfd d loop sfd)) (\<lambda>loop1 m.
     or_goto (in_world libgit_init m) (map_prod id (worker_close_signalfd d loop1 sfd)) (\<lambda>_ m.
       (Inr \<lparr>wp_settings = copied, wp_dispatcher = d, wp_loop = loop1, wp_signalfd = sfd\<rparr>, m))))) = (r, (m', t))"
    and g: "got w u (dispatcher_blocks d @ settings_blocks @ [Worker])" and d: "d = worker_table J"
    and st: "\<not> wk_stopping u" "wk_run u = None" "wk_lost u = wk_lost w"
  shows "case r of Inl e \<Rightarrow> even w t | Inr p \<Rightarrow> created_worker J copied p m' w t"
  using run
proof (cases rule: or_goto_cases)
  case (err e mu)
  obtain v where mu: "mu = (m, v)" "event_loop_create u = (Inl e :: int + worker_loop, v)"
    using err(1) by (cases mu) (simp add: in_world_eq)
  then have "even u v" by (auto simp: event_loop_create_def bindE_def alloc_def ok_def even_def split: if_splits)
  with err mu got_label_even [OF g this gives_back_worker_labels(3)] show ?thesis by simp
next
  case (go loop mu)
  obtain u1 where mu: "mu = (m, u1)" "event_loop_create u = (Inr loop, u1)"
    using go(1) by (cases mu) (simp add: in_world_eq)
  then have loop: "loop = \<lparr>nfds = 0, loop_entries = [], fresh_addr = 0\<rparr>" and t1: "takes u u1 [Mem ''event_loop'']"
    by (auto simp: event_loop_create_def bindE_def alloc_def ok_def takes_def split: if_splits)
  have g1: "got w u1 (worker_blocks d loop)" using got_takes [OF g t1] by (simp add: worker_blocks_def loop)
  from go(2) [unfolded mu(1)] show ?thesis
  proof (cases rule: or_goto_cases)
    case (err e mu)
    obtain m1 v where mu: "mu = (m1, v)" by (cases mu)
    from signalfd_create_spec [OF err(1) [unfolded signalfd_create_sigterms_def mu]]
    have "even u1 v" by (simp add: calm_even)
    with err mu got_label_even [OF g1 this gives_back_worker_labels(4)] show ?thesis by simp
  next
    case (go sfd mu)
    obtain m2 u2 where mu: "mu = (m2, u2)" by (cases mu)
    note sf = signalfd_create_spec [OF go(1) [unfolded signalfd_create_sigterms_def mu]]
    then have m2: "m2 = sigterms_mask" and t2: "takes u1 u2 [Desc sfd]" by simp_all
    have g2: "got w u2 (Desc sfd # worker_blocks d loop)" using got_takes [OF g1 t2] by simp
    from go(2) [unfolded mu(1)] show ?thesis
    proof (cases rule: or_goto_cases)
      case (err e mu)
      obtain v where mu: "mu = (m2, v)" "event_loop_add loop sfd POLLIN Stop_handler u2 = (Inl e, v)"
        using err(1) by (cases mu) (simp add: in_world_eq)
      from event_loop_add_spec [OF mu(2)] have "even u2 v" by (simp add: calm_even)
      with err mu got_label_even [OF g2 this gives_back_worker_labels(5)] show ?thesis by simp
    next
      case (go loop1 mu)
      obtain u3 where mu: "mu = (m2, u3)" "event_loop_add loop sfd POLLIN Stop_handler u2 = (Inr loop1, u3)"
        using go(1) by (cases mu) (simp add: in_world_eq)
      from event_loop_add_spec [OF mu(2)] obtain e where
        e: "takes u2 u3 [Event_fd]" "loop_wf loop1" "loop_entries loop1 = [e]" "ev_handler e = Stop_handler" "\<not> ev_once e"
        by (auto simp: loop loop_wf_def)
      have g3: "got w u3 (Desc sfd # worker_blocks d loop1)"
        using got_takes [OF g2 e(1)] by (auto simp: got_def worker_blocks_def loop e(3))
      from go(2) [unfolded mu(1)] show ?thesis
      proof (cases rule: or_goto_cases)
        case (err x mu)
        obtain v where mu: "mu = (m2, v)" "libgit_init u3 = (Inl x, v)"
          using err(1) by (cases mu) (simp add: in_world_eq)
        from libgit_init_spec [OF mu(2)] have "even u3 v" by (simp add: calm_even)
        with err mu got_label_even [OF g3 this gives_back_worker_labels(5)] show ?thesis by simp
      next
        case (go x mu)
        obtain u4 where mu: "mu = (m2, u4)" "libgit_init u3 = (Inr x, u4)"
          using go(1) by (cases mu) (simp add: in_world_eq)
        have t4: "takes u3 u4 [Lib ''libgit2'']" using libgit_init_spec [OF mu(2)] by simp
        from go(2) have r: "r = Inr \<lparr>wp_settings = copied, wp_dispatcher = d, wp_loop = loop1, wp_signalfd = sfd\<rparr>"
          "m' = m2" "t = u4" by (simp_all add: mu(1))
        have "wk_run u4 = None" "\<not> wk_stopping u4" "wk_lost u4 = wk_lost w"
          using st same_worker [of u1 u] same_worker [of u2 u1] same_worker [of u3 u2] same_worker [of u4 u3]
            takesD(1) [OF t1] takesD(1) [OF t2] takesD(1) [OF e(1)] takesD(1) [OF t4] by simp_all
        moreover have "idle loop1" using e by (auto simp: idle_def)
        ultimately show ?thesis
          using r d m2 got_takes [OF g3 t4] by (simp add: created_worker_def)
      qed
    qed
  qed
qed

lemma ci_worker_create_spec:
  fixes w :: "'z worker_world_scheme" and J :: "'j jsonc"
  assumes run: "ci_worker_create J settings (m, w) = (r, (m', t))"
  shows "case r of Inl e \<Rightarrow> even w t | Inr p \<Rightarrow> created_worker J settings p m' w t"
proof -
  from run obtain a u1 where a: "alloc Worker w = (a, u1)" by (cases "alloc Worker w") auto
  show ?thesis
  proof (cases a)
    case (Inl e)
    with run a have "r = Inl e" "t = u1"
      by (auto simp: ci_worker_create_def bindE_def in_world_def)
    with a Inl show ?thesis by (auto simp: alloc_def even_def split: if_splits)
  next
    case (Inr x)
    let ?u1 = "u1\<lparr>wk_run := None\<rparr>"
    from a Inr have g1: "got w ?u1 [Worker]" and l1: "wk_lost ?u1 = wk_lost w"
      by (auto simp: alloc_def got_def split: if_splits)
    from run a Inr have "or_goto (in_world (worker_settings_copy settings) (m, ?u1)) (map_prod id free_worker) (\<lambda>copied m.
      or_goto (in_world (cmd_dispatcher_create (worker_commands J) ())
          (map_prod id (\<lambda>w. w\<lparr>wk_stopping := False\<rparr>) m)) (map_prod id free_settings) (\<lambda>d m.
      or_goto (in_world event_loop_create m) (map_prod id (worker_destroy_cmd_dispatcher d)) (\<lambda>loop m.
      or_goto (signalfd_create_sigterms m) (map_prod id (worker_destroy_event_loop d loop)) (\<lambda>sfd m.
      or_goto (in_world (event_loop_add loop sfd POLLIN Stop_handler) m)
          (map_prod id (worker_close_signalfd d loop sfd)) (\<lambda>loop1 m.
      or_goto (in_world libgit_init m) (map_prod id (worker_close_signalfd d loop1 sfd)) (\<lambda>_ m.
        (Inr \<lparr>wp_settings = copied, wp_dispatcher = d, wp_loop = loop1, wp_signalfd = sfd\<rparr>, m))))))) = (r, (m', t))"
      by (simp add: ci_worker_create_def bindE_def in_world_def)
    then show ?thesis
    proof (cases rule: or_goto_cases)
      case (err e mu)
      obtain u where mu: "mu = (m, u)" "worker_settings_copy settings ?u1 = (Inl e, u)"
        using err(1) by (cases mu) (simp add: in_world_eq)
      from yieldsD [OF settings_copy_yields mu(2)] have "even ?u1 u" by (simp add: calm_even)
      with err mu got_label_even [OF g1 this gives_back_worker_labels(1)] show ?thesis by simp
    next
      case (go copied mu)
      obtain u2 where mu: "mu = (m, u2)" "worker_settings_copy settings ?u1 = (Inr copied, u2)"
        using go(1) by (cases mu) (simp add: in_world_eq)
      from yieldsD [OF settings_copy_yields mu(2)] have copied: "copied = settings" and t2: "takes ?u1 u2 settings_blocks"
        by (simp_all add: swaps_takes)
      let ?u2 = "u2\<lparr>wk_stopping := False\<rparr>"
      have g2: "got w ?u2 (settings_blocks @ [Worker])" using got_takes [OF g1 t2] by (simp add: got_def)
      have l2: "wk_run ?u2 = None" "wk_lost ?u2 = wk_lost w" "\<not> wk_stopping ?u2"
        using same_worker [of u2 ?u1] takesD(1) [OF t2] l1 by simp_all
      from go(2) [unfolded mu(1)] show ?thesis
      proof (cases rule: or_goto_cases)
        case (err e mu)
        obtain u where mu: "mu = (m, u)" "cmd_dispatcher_create (worker_commands J) () ?u2 =
            (Inl e :: int + ('j, 'z worker_world_scheme) worker_dispatcher, u)"
          using err(1) by (cases mu) (simp add: in_world_eq)
        from dispatcher_create_spec [OF mu(2)] have "even ?u2 u" by simp
        with err mu got_label_even [OF g2 this gives_back_worker_labels(2)] show ?thesis by simp
      next
        case (go d mu)
        obtain u3 where mu: "mu = (m, u3)" "cmd_dispatcher_create (worker_commands J) () ?u2 = (Inr d, u3)"
          using go(1) by (cases mu) (simp add: in_world_eq)
        note dc = dispatcher_create_spec [OF mu(2)]
        have d: "d = worker_table J" using dc by (simp add: worker_table_def)
        have t3: "takes ?u2 u3 (dispatcher_blocks d)" using dc unfolding sum.case by blast
        have l3: "wk_run u3 = None" "wk_lost u3 = wk_lost w" "\<not> wk_stopping u3"
          using same_worker [of u3 ?u2] takesD(1) [OF t3] l2 by simp_all
        show ?thesis
          using ci_worker_create_late [OF go(2) [unfolded mu(1)] got_takes [OF g2 t3] d l3(3,1,2)] unfolding copied .
      qed
    qed
  qed
qed

end
