(* ===== verification/Client.thy ===== *)
theory Client
  imports Lifecycle CmdLine
begin

text \<open>
  \<open>src/client.c\<close>: the client turns its arguments into a request, sends it to the server, waits
  for the response and prints it. \<open>argv\<close> lists the arguments that \<open>getopt_long\<close> left, so
  \<open>argc\<close> is its length, and \<open>reply\<close> is what the server will send on the connection.
\<close>

section \<open>The client\<close>

abbreviation Client :: resource where "Client \<equiv> Mem ''cimple_client''"

text \<open>\<open>struct client\<close> has one member, which nothing reads.\<close>

record cimple_client = dummy :: int

definition cimple_client_create :: "('z world_scheme, cimple_client) cfun" where
  "cimple_client_create = bindE (alloc Client) (\<lambda>_. ok \<lparr>dummy = 0\<rparr>)"

definition cimple_client_destroy :: "cimple_client \<Rightarrow> 'z world_scheme \<Rightarrow> 'z world_scheme" where
  "cimple_client_destroy client w = release Client w"

section \<open>The request\<close>

text \<open>
  The outer sum says whether the process has ended, with which exit code, or the function has
  returned, and then with which result.
\<close>

definition returning :: "('z world_scheme, 'a) cfun \<Rightarrow> ('z world_scheme, int + 'a) cfun" where
  "returning f w = (case f w of (r, t) \<Rightarrow> (Inr r, t))"

definition make_request ::
  "'j jsonc \<Rightarrow> program \<Rightarrow> string list \<Rightarrow> ('z world_scheme, int + 'j jsonrpc_request) cfun" where
  "make_request J prog argv =
     (case argv of
        [] \<Rightarrow> exit_with_usage_err prog ''no action specified''
      | action # args \<Rightarrow>
          if action = CMD_QUEUE_RUN then
            (case args of
               [url, rv] \<Rightarrow>
                 returning (bindE (run_queued url rv) (\<lambda>x.
                   after (request_create_queue_run J x) (run_destroy x)))
             | _ \<Rightarrow> returning (failing (-1)))
          else if action = CMD_GET_RUNS then
            (case args of [] \<Rightarrow> returning (request_create_get_runs J) | _ \<Rightarrow> returning (failing (-1)))
          else returning (failing (-1)))"

section \<open>The exchange\<close>

text \<open>What is printed for a response, up to the label \<open>free_response\<close>.\<close>

definition client_show :: "'j jsonc \<Rightarrow> 'j jsonrpc_response \<Rightarrow> ('z world_scheme, unit) cfun" where
  "client_show J response w =
     (case jsonrpc_response_to_string J response w of
        (Inl _, w1) \<Rightarrow> (Inr (), w1)
      | (Inr response_str, w1) \<Rightarrow>
          (if jsonrpc_response_is_error J response then Inl (-1) else Inr (),
           print_to False response_str w1))"

text \<open>From \<open>jsonrpc_request_send\<close> to the label \<open>close\<close>.\<close>

definition client_exchange ::
  "'j jsonc \<Rightarrow> 'j jsonrpc_request \<Rightarrow> int \<Rightarrow> ('z world_scheme, unit) cfun" where
  "client_exchange J request fd =
     bindE (jsonrpc_request_send J request fd) (\<lambda>_.
     bindE (jsonrpc_response_recv J fd) (\<lambda>response.
       after (client_show J response) (jsonrpc_response_destroy response)))"

definition client_main ::
  "'j jsonc \<Rightarrow> program \<Rightarrow> (string \<Rightarrow> string \<Rightarrow> addrinfo list option) \<Rightarrow> cimple_client \<Rightarrow> settings \<Rightarrow>
     string list \<Rightarrow> char list \<Rightarrow> ('z world_scheme, int + unit) cfun" where
  "client_main J prog resolve client settings argv reply w =
     (case make_request J prog argv w of
        (Inl ec, w1) \<Rightarrow> (Inl ec, w1)
      | (Inr (Inl _), w1) \<Rightarrow> exit_with_usage_err prog ''invalid request'' w1
      | (Inr (Inr request), w1) \<Rightarrow>
          returning
            (after
              (bindE (net_connect (resolve (st_host settings) (st_port settings))) (\<lambda>fd w2.
                 after (client_exchange J request fd) (net_close fd)
                   (w2\<lparr>rx := (rx w2)(fd := reply)\<rparr>)))
              (jsonrpc_request_destroy request))
            w1)"

section \<open>What it keeps\<close>

lemma exit_with_usage_err_spec:
  assumes "exit_with_usage_err prog msg w = (r, t)"
  shows "r = Inl 1 \<and> calm w t \<and> still w t"
proof -
  let ?u = "print_to True (''usage error: '' @ msg @ newline) w"
  have "calm w ?u" "still w ?u" by (simp_all add: print_to_def takes_def still_def)
  moreover from exit_with_usage_spec assms have "r = Inl 1 \<and> calm ?u t \<and> still ?u t"
    unfolding exit_with_usage_err_def .
  ultimately show ?thesis by (auto simp: takes_def still_def)
qed

text \<open>Nothing is sent or received; the counter of requests may have moved on.\<close>

definition silent :: "'z world_scheme \<Rightarrow> 'z world_scheme \<Rightarrow> bool" where
  "silent w t \<longleftrightarrow> rx t = rx w \<and> (\<forall>d. sent d (trace t) = sent d (trace w))"

lemma silent_still: "still w t \<Longrightarrow> silent w t"
  by (simp add: silent_def still_def)

text \<open>The request that the arguments name, given the counter.\<close>

definition client_request :: "'j jsonc \<Rightarrow> string list \<Rightarrow> int \<Rightarrow> 'j jsonrpc_request option" where
  "client_request J argv i =
     (case argv of
        [action, url, rv] \<Rightarrow>
          if action = CMD_QUEUE_RUN
          then Some (queue_run_request J i \<lparr>run_id = -1, repo_url = url, repo_rev = rv,
                       run_status = RUN_STATUS_CREATED, run_exit_code = -1\<rparr>)
          else None
      | [action] \<Rightarrow>
          if action = CMD_GET_RUNS then Some \<lparr>req_impl = request_object J (Some i) CMD_GET_RUNS\<rparr> else None
      | _ \<Rightarrow> None)"

lemma client_request_own:
  assumes "jsonc_ok J" "client_request J argv i = Some q"
  shows "own_request J q" "object_get_ex J (req_impl q) ''id'' = Some (new_int64 J i)"
  using assms built_own(1) own_request_create [of J "Some i" CMD_GET_RUNS]
  by (auto simp: client_request_def queue_run_request_def built_lookup split: list.splits if_splits)

lemma gives_back_run: "gives_back (run_destroy x) run_blocks"
  by (auto simp: gives_back_def swaps_def still_def run_destroy_def run_blocks_def)

lemma queue_request_run:
  assumes "bindE (run_queued url rv) (\<lambda>x. after (request_create_queue_run J x) (run_destroy x)) w = (r, t)"
  shows "silent w t \<and> takes w t (if is_ok r then [Request, Json] else []) \<and>
    (case r of Inl e \<Rightarrow> \<not> reliable w | Inr q \<Rightarrow> client_request J [CMD_QUEUE_RUN, url, rv] (rpc_id w) = Some q)"
proof -
  let ?x = "\<lparr>run_id = -1, repo_url = url, repo_rev = rv, run_status = RUN_STATUS_CREATED, run_exit_code = -1\<rparr>"
  obtain a u where a: "run_queued url rv w = (a, u)" by (cases "run_queued url rv w")
  note ra = yieldsD [OF run_new_yields a [unfolded run_queued_def]]
  show ?thesis
  proof (cases a)
    case (Inl e)
    with assms a ra show ?thesis by (auto simp: bindE_def silent_def still_def)
  next
    case (Inr x)
    with ra have u: "x = ?x" "takes w u run_blocks" "still w u" by (simp_all add: swaps_takes)
    let ?u = "u\<lparr>rpc_id := int32 (rpc_id u + 1)\<rparr>"
    obtain b v where b: "request_create_queue_run J ?x u = (b, v)" by (cases "request_create_queue_run J ?x u")
    from yieldsD [OF queue_run_request_yields b [unfolded request_create_queue_run_def generated_id]]
    have q: "outcome [] [Request, Json] (queue_run_request J (rpc_id u) ?x) ?u b v" .
    have t: "r = b" "t = run_destroy ?x v" using assms a b Inr u(1) by (auto simp: bindE_def after_def)
    show ?thesis
      using q u t gives_backD [OF gives_back_run, of v ?x]
      by (cases b) (auto simp: silent_def still_def takes_def swaps_def client_request_def)
  qed
qed

lemma get_runs_request_run:
  assumes "request_create_get_runs J w = (r, t)"
  shows "silent w t \<and> takes w t (if is_ok r then [Request, Json] else []) \<and>
    (case r of Inl e \<Rightarrow> \<not> reliable w | Inr q \<Rightarrow> client_request J [CMD_GET_RUNS] (rpc_id w) = Some q)"
proof -
  have "jsonrpc_request_create J (rpc_id w) CMD_GET_RUNS None (w\<lparr>rpc_id := int32 (rpc_id w + 1)\<rparr>) = (r, t)"
    using assms by (simp add: request_create_get_runs_def generated_id)
  from yieldsD [OF jsonrpc_request_create_yields this] show ?thesis
    by (cases r) (auto simp: silent_def still_def takes_def swaps_def client_request_def)
qed

lemma make_request_spec:
  assumes "make_request J prog argv w = (r, t)"
  shows "silent w t \<and> (case r of
      Inl ec \<Rightarrow> argv = [] \<and> ec = 1 \<and> calm w t
    | Inr (Inl e) \<Rightarrow> calm w t \<and> (reliable w \<longrightarrow> client_request J argv (rpc_id w) = None)
    | Inr (Inr q) \<Rightarrow> takes w t [Request, Json] \<and> client_request J argv (rpc_id w) = Some q)"
proof -
  consider "argv = []" | url rv where "argv = [CMD_QUEUE_RUN, url, rv]" | "argv = [CMD_GET_RUNS]"
    | "argv \<noteq> []" "\<nexists>url rv. argv = [CMD_QUEUE_RUN, url, rv]" "argv \<noteq> [CMD_GET_RUNS]" by blast
  then show ?thesis
  proof cases
    case 1
    with assms have "exit_with_usage_err prog ''no action specified'' w = (r, t)" by (simp add: make_request_def)
    from exit_with_usage_err_spec [OF this] 1 show ?thesis by (simp add: silent_still)
  next
    case (2 url rv)
    obtain a u where a: "bindE (run_queued url rv) (\<lambda>x. after (request_create_queue_run J x) (run_destroy x)) w = (a, u)"
      by (metis surj_pair)
    have "r = Inr a" "t = u" using assms 2 a by (auto simp: make_request_def returning_def)
    with queue_request_run [OF a] 2 show ?thesis by (cases a) auto
  next
    case 3
    obtain a u where a: "request_create_get_runs J w = (a, u)" by (cases "request_create_get_runs J w")
    have "r = Inr a" "t = u" using assms 3 a by (auto simp: make_request_def returning_def)
    with get_runs_request_run [OF a] 3 show ?thesis by (cases a) auto
  next
    case 4
    then have "make_request J prog argv w = (Inr (Inl (-1)), w)" "client_request J argv (rpc_id w) = None"
      by (auto simp: make_request_def client_request_def returning_def failing_def split: list.split)
    with assms 4(1) show ?thesis by (auto simp: silent_def)
  qed
qed

text \<open>\<open>shown J w t v r\<close>: the last thing printed is the response \<open>v\<close>, an error makes the result -1.\<close>

definition shown :: "'j jsonc \<Rightarrow> 'z world_scheme \<Rightarrow> 'j \<Rightarrow> int + unit \<Rightarrow> bool" where
  "shown J t v r \<longleftrightarrow> (\<exists>ns. noted (trace t) = ns @ [''out: '' @ to_json_string_pretty J v]) \<and>
     r = (if object_get_ex J v ''error'' \<noteq> None then Inl (-1) else Inr ())"

lemma jsonrpc_response_recv_sent:
  assumes "jsonrpc_response_recv J fd w = (r, t)"
  shows "sent d (trace t) = sent d (trace w)"
proof -
  obtain a u where a: "libjson_recv J fd w = (a, u)" by (cases "libjson_recv J fd w")
  show ?thesis
  proof (cases a)
    case (Inl e)
    with assms a libjson_recv_spec [OF a] show ?thesis by (auto simp: jsonrpc_response_recv_def bindE_def)
  next
    case (Inr v)
    obtain b x where b: "jsonrpc_response_from_json J v u = (b, x)" by (cases "jsonrpc_response_from_json J v u")
    with assms a Inr libjson_recv_spec [OF a] jsonrpc_response_from_json_spec [OF b] show ?thesis
      by (auto simp: jsonrpc_response_recv_def bindE_def onErr_def libjson_free_def still_def split: sum.splits)
  qed
qed

lemma client_show_spec:
  assumes "client_show J p w = (r, t)"
  shows "calm w t \<and> still w t \<and> (reliable w \<longrightarrow> shown J t (resp_impl p) r)"
  using assms
  by (auto simp: client_show_def jsonrpc_response_to_string_def
      libjson_to_string_pretty_def libjson_to_string_internal_def bindE_def nonnull_def ok_def print_to_def still_def
      shown_def jsonrpc_response_is_error_def libjson_has_def takes_def split: if_splits)

text \<open>Whatever comes back, what is sent is the request, or a beginning of it if sending fails.\<close>

lemma client_exchange_sends:
  assumes run: "client_exchange J q fd w = (r, t)"
  shows "\<exists>bs cs. message J (req_impl q) = bs @ cs \<and> (is_ok r \<or> reliable w \<longrightarrow> cs = []) \<and>
    (\<forall>d. sent d (trace t) = sent d (trace w) @ (if d = fd then bs else []))"
proof -
  obtain a w1 where a: "jsonrpc_request_send J q fd w = (a, w1)" by (cases "jsonrpc_request_send J q fd w")
  from libjson_send_spec [OF a [unfolded jsonrpc_request_send_def]] obtain bs cs where
    w1: "message J (req_impl q) = bs @ cs" "\<forall>d. sent d (trace w1) = sent d (trace w) @ (if d = fd then bs else [])"
      "is_ok a \<or> reliable w \<longrightarrow> cs = []"
    by (cases a) auto
  have "\<forall>d. sent d (trace t) = sent d (trace w1)" "is_ok r \<longrightarrow> is_ok a"
  proof -
    obtain b w2 where b: "jsonrpc_response_recv J fd w1 = (b, w2)" by (cases "jsonrpc_response_recv J fd w1")
    note s2 = jsonrpc_response_recv_sent [OF b]
    show "is_ok r \<longrightarrow> is_ok a" using run a by (cases a) (auto simp: client_exchange_def bindE_def)
    show "\<forall>d. sent d (trace t) = sent d (trace w1)"
    proof (cases "is_ok a \<and> is_ok b")
      case False
      with run a b s2 show ?thesis by (cases a; cases b) (auto simp: client_exchange_def bindE_def)
    next
      case True
      then obtain x p where ab: "a = Inr x" "b = Inr p" by (cases a; cases b) auto
      obtain c w3 where c: "client_show J p w2 = (c, w3)" by (cases "client_show J p w2")
      have "t = jsonrpc_response_destroy p w3"
        using run a b ab c by (auto simp: client_exchange_def bindE_def after_def)
      then show ?thesis
        using s2 client_show_spec [OF c] gives_backD(2) [OF gives_back_response, of w3 p] by (simp add: still_def)
    qed
  qed
  with w1 show ?thesis by (intro exI [of _ bs] exI [of _ cs]) auto
qed

lemma client_exchange_spec:
  assumes run: "client_exchange J q fd w = (r, t)" and safe: "c_strings (rx w fd)"
  shows "calm w t \<and> (reliable w \<longrightarrow> (\<forall>v rest. rx w fd = message J v @ rest \<longrightarrow> wire_ok J v \<longrightarrow>
    valid_response J v \<longrightarrow> shown J t v r))"
proof -
  obtain a w1 where a: "jsonrpc_request_send J q fd w = (a, w1)" by (cases "jsonrpc_request_send J q fd w")
  note sn = libjson_send_spec [OF a [unfolded jsonrpc_request_send_def]]
  show ?thesis
  proof (cases a)
    case (Inl e)
    with run a sn show ?thesis by (auto simp: client_exchange_def bindE_def)
  next
    case (Inr x)
    have w1: "calm w w1" "rx w1 = rx w" using sn by auto
    obtain b w2 where b: "jsonrpc_response_recv J fd w1 = (b, w2)" by (cases "jsonrpc_response_recv J fd w1")
    have "\<not> unterminated w1 fd" using safe w1(2) by (simp add: unterminated_iff)
    note rc = jsonrpc_response_recv_takes [OF b this]
    have rel: "b = Inr \<lparr>resp_impl = v\<rparr>"
      if "reliable w" "rx w fd = message J v @ rest" "wire_ok J v" "valid_response J v" for v rest
      using jsonrpc_response_recv_message(2) [OF b that(3), of rest] that w1 by (simp add: takes_def)
    show ?thesis
    proof (cases b)
      case (Inl e)
      with run a \<open>a = Inr x\<close> b have "r = Inl e" "t = w2" by (auto simp: client_exchange_def bindE_def)
      moreover have "calm w t" using w1(1) rc(1) Inl \<open>t = w2\<close> by (simp add: takes_def)
      moreover have "\<not> (reliable w \<and> rx w fd = message J v @ rest \<and> wire_ok J v \<and> valid_response J v)" for v rest
        using rel Inl by auto
      ultimately show ?thesis by simp
    next
      case (Inr p)
      obtain c w3 where c: "client_show J p w2 = (c, w3)" by (cases "client_show J p w2")
      have t: "r = c" "t = jsonrpc_response_destroy p w3"
        using run a \<open>a = Inr x\<close> b Inr c by (auto simp: client_exchange_def bindE_def after_def)
      note w3 = client_show_spec [OF c]
      have "noted (trace t) = noted (trace w3)" by (simp add: t jsonrpc_response_destroy_def libjson_free_def)
      moreover have "calm w t" using w1(1) rc(1) w3 gives_backD(1) [OF gives_back_response, of w3 p] Inr
        by (auto simp: t takes_def swaps_def split: if_splits)
      moreover have "reliable w2" if "reliable w" using that w1(1) rc(1) by (simp add: takes_def)
      ultimately show ?thesis using w3 rel Inr t(1) by (auto simp: shown_def)
    qed
  qed
qed

section \<open>The whole client\<close>

text \<open>The client ends without a request, or without a connection, or after an exchange.\<close>

lemma client_main_run:
  assumes run: "client_main J prog resolve client settings argv reply w = (r, t)"
  obtains (ended) "r = Inl 1" "calm w t" "silent w t" "reliable w \<longrightarrow> client_request J argv (rpc_id w) = None"
  | (no_connection) q e where "client_request J argv (rpc_id w) = Some q" "r = Inr (Inl e)" "calm w t" "silent w t"
      "\<not> (reliable w \<and> resolve (st_host settings) (st_port settings) = Some (it # its))"
  | (connected) q fd u c v where "client_request J argv (rpc_id w) = Some q" "takes w u [Desc fd, Request, Json]"
      "rx u fd = reply" "\<forall>d. sent d (trace u) = sent d (trace w)" "client_exchange J q fd u = (c, v)"
      "r = Inr c" "t = jsonrpc_request_destroy q (net_close fd v)"
proof -
  obtain a w1 where a: "make_request J prog argv w = (a, w1)" by (cases "make_request J prog argv w")
  note mr = make_request_spec [OF a]
  consider ec where "a = Inl ec" | e where "a = Inr (Inl e)" | q where "a = Inr (Inr q)" by (metis sum.exhaust)
  then show thesis
  proof cases
    case (1 ec)
    with run a mr ended show thesis by (auto simp: client_main_def client_request_def)
  next
    case (2 e)
    with run a have "exit_with_usage_err prog ''invalid request'' w1 = (r, t)" by (simp add: client_main_def)
    from exit_with_usage_err_spec [OF this] mr 2 ended show thesis by (auto simp: silent_def still_def intro: calm_trans)
  next
    case (3 q)
    have w1: "takes w w1 [Request, Json]" "client_request J argv (rpc_id w) = Some q" "silent w w1" using mr 3 by auto
    let ?a = "resolve (st_host settings) (st_port settings)"
    obtain b w2 where b: "net_connect ?a w1 = (b, w2)" by (cases "net_connect ?a w1")
    note nc = meetsD [OF net_connect_spec b, unfolded opens_fd_def]
    show thesis
    proof (cases b)
      case (Inl e)
      note gb = gives_backD [OF gives_back_request, of w2 q]
      from run a 3 b Inl have t: "r = Inr (Inl e)" "t = jsonrpc_request_destroy q w2"
        by (auto simp: client_main_def returning_def after_def bindE_def)
      have "\<not> (reliable w \<and> ?a = Some (it # its))"
        using net_connect_reliable [of w1 it its] b Inl w1(1) by (auto simp: takes_def)
      moreover have "calm w t" using nc Inl w1(1) gb(1) t by (auto simp: takes_def swaps_def)
      moreover have "silent w t" using w1(3) nc gb(2) t by (auto simp: silent_def still_def)
      ultimately show thesis using no_connection [OF w1(2) t(1)] by blast
    next
      case (Inr fd)
      let ?u = "w2\<lparr>rx := (rx w2)(fd := reply)\<rparr>"
      obtain c v where c: "client_exchange J q fd ?u = (c, v)" by (cases "client_exchange J q fd ?u")
      show thesis
      proof (rule connected [OF w1(2) _ _ _ c])
        show "takes w ?u [Desc fd, Request, Json]" using nc Inr w1(1) by (auto simp: takes_def)
        show "\<forall>d. sent d (trace ?u) = sent d (trace w)" using w1(3) nc by (simp add: silent_def still_def)
        show "r = Inr c" "t = jsonrpc_request_destroy q (net_close fd v)"
          using run a 3 b Inr c by (auto simp: client_main_def returning_def after_def bindE_def)
      qed simp
    qed
  qed
qed

lemma client_main_sends:
  assumes run: "client_main J prog resolve client settings argv reply w = (r, t)"
  shows "case r of
      Inl ec \<Rightarrow> ec = 1 \<and> (reliable w \<longrightarrow> client_request J argv (rpc_id w) = None) \<and>
        (\<forall>d. sent d (trace t) = sent d (trace w))
    | Inr ret \<Rightarrow> \<exists>q fd bs cs. client_request J argv (rpc_id w) = Some q \<and> message J (req_impl q) = bs @ cs \<and>
        (is_ok ret \<or> reliable w \<and> resolve (st_host settings) (st_port settings) = Some (it # its) \<longrightarrow> cs = []) \<and>
        (\<forall>d. sent d (trace t) = sent d (trace w) @ (if d = fd then bs else []))"
  using run
proof (cases rule: client_main_run [where it = it and its = its])
  case ended
  then show ?thesis by (simp add: silent_def)
next
  case (no_connection q e)
  then show ?thesis
    unfolding no_connection(2) sum.case
    by (intro exI [of _ q] exI [of _ 0] exI [of _ "[]"] exI [of _ "message J (req_impl q)"])
      (auto simp: silent_def)
next
  case (connected q fd u c v)
  have "sent d (trace t) = sent d (trace v)" for d
    using connected(7) gives_backD(2) [OF gives_back_request, of "net_close fd v" q] by (simp add: still_def)
  moreover have "reliable w \<longrightarrow> reliable u" using connected(2) by (simp add: takes_def)
  moreover obtain bs cs where "message J (req_impl q) = bs @ cs" "is_ok c \<or> reliable u \<longrightarrow> cs = []"
    "\<forall>d. sent d (trace v) = sent d (trace u) @ (if d = fd then bs else [])"
    using client_exchange_sends [OF connected(5)] by blast
  ultimately show ?thesis
    using connected(1,4) unfolding connected(6) sum.case
    by (intro exI [of _ q] exI [of _ fd] exI [of _ bs] exI [of _ cs]) auto
qed

lemma takes_gives_back: "takes w u rs \<Longrightarrow> gives_back c rs \<Longrightarrow> calm w (c u)"
  by (auto simp: takes_def swaps_def dest!: gives_backD(1) [where w = u])

lemma client_main_spec:
  assumes run: "client_main J prog resolve client settings argv reply w = (r, t)" and safe: "c_strings reply"
  shows "calm w t \<and>
    (reliable w \<and> resolve (st_host settings) (st_port settings) = Some (it # its) \<and>
       client_request J argv (rpc_id w) \<noteq> None \<longrightarrow>
       (\<forall>v rest. reply = message J v @ rest \<longrightarrow> wire_ok J v \<longrightarrow> valid_response J v \<longrightarrow>
          (\<exists>ret. r = Inr ret \<and> shown J t v ret)))"
  using run
proof (cases rule: client_main_run [where it = it and its = its])
  case (connected q fd u c v)
  have "c_strings (rx u fd)" using safe connected(3) by simp
  note ex = client_exchange_spec [OF connected(5) this]
  have "gives_back (\<lambda>x. jsonrpc_request_destroy q (net_close fd x)) [Desc fd, Request, Json]"
    using gives_back_comp [OF gives_back_release gives_back_request] by simp
  moreover have "takes w v [Desc fd, Request, Json]" using calm_trans [OF connected(2)] ex by blast
  ultimately have "calm w t" unfolding connected(7) by (rule takes_gives_back [rotated])
  moreover have "noted (trace t) = noted (trace v)"
    by (simp add: connected(7) jsonrpc_request_destroy_def libjson_free_def)
  moreover have "shown J v x c"
    if "reliable w" "reply = message J x @ rest" "wire_ok J x" "valid_response J x" for x rest
    using ex takesD(4) [OF connected(2)] connected(3) that by blast
  ultimately have "shown J t x c"
    if "reliable w" "reply = message J x @ rest" "wire_ok J x" "valid_response J x" for x rest
    unfolding shown_def using that by metis
  with \<open>calm w t\<close> show ?thesis unfolding connected(6) by blast
qed auto

end
