(* ===== verification/EndToEnd.thy ===== *)
theory EndToEnd
  imports ServerCommands ServerLife WorkerLife Client
begin

text \<open>
  The programs together: what one of them sends is what the next one receives. A run is followed
  from the client that queues it to the server's database, and from the server's queue through a
  worker back to the database.
\<close>

section \<open>One request at the server\<close>

lemma server_once_lucky:
  fixes s :: "'z server_world_scheme"
  assumes run: "cmd_dispatcher_handle_conn J fd \<lparr>disp_cmds = server_commands J S, disp_ctx = c\<rparr> s = (r, t)"
    and s: "lucky s" and wire: "wire_ok J (req_impl q)" "own_request J q" "rx s fd = message J (req_impl q) @ rest"
    and m: "jsonrpc_request_get_method J q = Some meth"
  shows "\<exists>(u :: 'z server_world_scheme) ret resp (x :: 'z server_world_scheme). lucky u \<and> srv_runs u = srv_runs s \<and> sqldb u = sqldb s \<and>
    dispatch_loop (server_commands J S) meth q \<lparr>ctx_fd = fd, ctx_arg = c\<rparr> u = ((ret, resp), x) \<and>
    srv_runs t = srv_runs x \<and> sqldb t = sqldb x \<and> sent fd (trace u) = sent fd (trace s) \<and>
    (object_get_ex J (req_impl q) ''id'' = None \<longrightarrow> r = ret) \<and>
    (\<forall>i p. reliable x \<longrightarrow> object_get_ex J (req_impl q) ''id'' = Some i \<longrightarrow>
       choose_response J ret resp (Some (default_reply J i)) (Some (default_error_reply J i)) = Some p \<longrightarrow>
       r = ret \<and> sent fd (trace t) = sent fd (trace x) @ message J (resp_impl p))"
proof -
  let ?s = "emit (Acquire (Mem ''cmd_conn_ctx'')) (used s)"
  have "reliable ?s" using s by (simp add: lucky_reliable)
  then have q: "a = Inr q" if "jsonrpc_request_recv J fd ?s = (a, u)" for a u
    using jsonrpc_request_recv_message(2) [OF that wire(1), of rest] wire(2,3)
    by (cases q) (simp add: own_request_def)
  show ?thesis
    using handle_conn_once [OF run message_terminated [OF wire(1,3)]]
  proof (elim disjE exE conjE)
    assume "reliable s \<longrightarrow> (\<exists>e u. jsonrpc_request_recv J fd ?s = (Inl e, u))"
    with s lucky_reliable q show ?thesis by blast
  next
    fix request u0 m' u ret resp x
    assume *: "jsonrpc_request_recv J fd ?s = (Inr request, u0)" "jsonrpc_request_get_method J request = Some m'"
      "dispatch_loop (server_commands J S) m' request \<lparr>ctx_fd = fd, ctx_arg = c\<rparr> u = ((ret, resp), x)"
      "lucky s \<longrightarrow> lucky u" "world.more u = world.more s" "world.more t = world.more x"
      "\<forall>d. sent d (trace u) = sent d (trace s)" "object_get_ex J (req_impl request) ''id'' = None \<longrightarrow> r = ret"
      "\<forall>i p. reliable x \<longrightarrow> object_get_ex J (req_impl request) ''id'' = Some i \<longrightarrow>
         choose_response J ret resp (Some (default_reply J i)) (Some (default_error_reply J i)) = Some p \<longrightarrow>
         r = ret \<and> sent fd (trace t) = sent fd (trace x) @ message J (resp_impl p)"
    from q [OF *(1)] have "request = q" by simp
    with * s m same_server(2,4) [OF *(5)] same_server(2,4) [OF *(6)] show ?thesis
      by auto
  qed
qed

lemma command_of:
  "jsonc_ok J \<Longrightarrow> jsonrpc_request_get_method J (queue_run_request J i x) = Some CMD_QUEUE_RUN"
  "jsonc_ok J \<Longrightarrow> jsonrpc_request_get_method J (finished_run_request J S n out) = Some CMD_FINISHED_RUN"
  by (simp_all add: queue_run_request_def finished_run_request_def jsonrpc_request_get_method_def
      libjson_get_string_def libjson_get_alt built_lookup jsonc_okD)

text \<open>A finished-run message that arrives whole is recorded.\<close>

lemma server_records_finished:
  fixes s :: "'z server_world_scheme"
  assumes J: "jsonc_ok J" and S: "sodium_ok S" and s: "lucky s" "db_ok (sqldb s)"
    and i: "in_int32 n" "in_int32 (po_ec out)"
    and wire: "wire_ok J (req_impl (finished_run_request J S n out))"
      "rx s fd = message J (req_impl (finished_run_request J S n out)) @ rest"
    and run: "cmd_dispatcher_handle_conn J fd \<lparr>disp_cmds = server_commands J S, disp_ctx = c\<rparr> s = (r, t)"
  shows "r = Inr () \<and> entries (sqldb t) = finish_in n (po_ec out) (output_bytes out) (entries (sqldb s))"
proof -
  let ?q = "finished_run_request J S n out"
  have "object_get_ex J (req_impl ?q) ''id'' = None" using J by (simp add: finished_run_request_def built_lookup)
  with server_once_lucky [OF run s(1) wire(1) built_own(3) [OF J] wire(2) command_of(2) [OF J]] obtain u x :: "'z server_world_scheme" and ret resp where
    u: "lucky u" "sqldb u = sqldb s" "sqldb t = sqldb x" "r = ret" and
    d: "dispatch_loop (server_commands J S) CMD_FINISHED_RUN ?q \<lparr>ctx_fd = fd, ctx_arg = c\<rparr> u = ((ret, resp), x)"
    by blast
  from d have "server_handle_cmd_finished_run J S ?q \<lparr>ctx_fd = fd, ctx_arg = c\<rparr> u = ((ret, resp), x)"
    by (simp add: server_commands_def)
  from finished_run_lucky [OF J S u(1) _ i this] s(2) u show ?thesis by simp
qed

text \<open>A queue-run message that arrives whole is stored, queued and answered.\<close>

lemma server_queues_run:
  fixes s :: "'z server_world_scheme"
  assumes J: "jsonc_ok J" and s: "lucky s" "db_ok (sqldb s)" "room (sqldb s)"
    and wire: "wire_ok J (req_impl (queue_run_request J i x))"
      "rx s fd = message J (req_impl (queue_run_request J i x)) @ rest"
    and run: "cmd_dispatcher_handle_conn J fd \<lparr>disp_cmds = server_commands J S, disp_ctx = c\<rparr> s = (r, t)"
  shows "r = Inr () \<and> sent fd (trace t) = sent fd (trace s) @ message J (resp_impl (default_reply J (new_int64 J i))) \<and>
    (\<exists>n. db_create (sqldb s) (repo_url x) (repo_rev x) = Some (sqldb t, n) \<and> srv_runs t = srv_runs s @ [new_run n x])"
proof -
  let ?q = "queue_run_request J i x" and ?i = "new_int64 J i"
  have v: "valid_request J (req_impl ?q)" using built_own(1) [OF J] by (simp add: own_request_def)
  have i: "object_get_ex J (req_impl ?q) ''id'' = Some ?i" using J by (simp add: queue_run_request_def built_lookup)
  with server_once_lucky [OF run s(1) wire(1) built_own(1) [OF J] wire(2) command_of(1) [OF J]] obtain u y :: "'z server_world_scheme" and ret resp where
    u: "lucky u" "srv_runs u = srv_runs s" "sqldb u = sqldb s" "srv_runs t = srv_runs y" "sqldb t = sqldb y"
      "sent fd (trace u) = sent fd (trace s)"
    and d: "dispatch_loop (server_commands J S) CMD_QUEUE_RUN ?q \<lparr>ctx_fd = fd, ctx_arg = c\<rparr> u = ((ret, resp), y)"
    and a: "\<forall>p. reliable y \<longrightarrow>
       choose_response J ret resp (Some (default_reply J ?i)) (Some (default_error_reply J ?i)) = Some p \<longrightarrow>
       r = ret \<and> sent fd (trace t) = sent fd (trace y) @ message J (resp_impl p)"
    by auto
  from d have h: "server_handle_cmd_queue_run J ?q \<lparr>ctx_fd = fd, ctx_arg = c\<rparr> u = ((ret, resp), y)"
    by (simp add: server_commands_def)
  have "db_ok (sqldb u)" "room (sqldb u)" using s u by simp_all
  note q = queue_run_lucky [OF J u(1) this h]
  have "server_good (world.more u)" using s u by (simp add: server_ledger db_ok_wf)
  from server.dispatch [OF subset_refl this _ d] v have y: "reliable u \<longrightarrow> reliable y" "\<forall>d. sent d (trace y) = sent d (trace u)"
    by (simp_all add: accounts_def)
  have "choose_response J ret resp (Some (default_reply J ?i)) (Some (default_error_reply J ?i)) = Some (default_reply J ?i)"
    using q by (simp add: choose_response_def)
  with a y u lucky_reliable have "r = ret \<and> sent fd (trace t) = sent fd (trace y) @ message J (resp_impl (default_reply J ?i))"
    by blast
  with q u y show ?thesis by simp
qed

section \<open>From the client to the queue\<close>

lemma c_strings_message:
  assumes "wire_ok J v"
  shows "c_strings (message J v @ rest)"
  using message_terminated [OF assms, of "undefined\<lparr>rx := \<lambda>_. message J v @ rest\<rparr>" 0 rest]
  by (simp add: unterminated_iff)

text \<open>C6: A client told to queue a run and the server it connects to, each reading what the other sends,
  with no call failing: the run is stored under a fresh id and waits in the server's queue, and the
  client prints the response to its request and succeeds.\<close>

theorem queue_run_end_to_end:
  fixes w :: "'z world_scheme" and s :: "'y server_world_scheme"
  assumes "client_main J prog resolve client settings [''queue-run'', url, rv] reply w = (ret, t)"
    and "cmd_dispatcher_handle_conn J fd \<lparr>disp_cmds = server_commands J S, disp_ctx = c\<rparr> s = (r, s')"
    and "rx s fd = sent cfd (trace t)" "sent cfd (trace t) \<noteq> []" "reply = sent fd (trace s')"
    and "\<forall>d. sent d (trace w) = []" "sent fd (trace s) = []"
    and "reliable w" "resolve (st_host settings) (st_port settings) = Some (it # its)"
    and "lucky s" "db_ok (sqldb s)" "room (sqldb s)" "jsonc_ok J"
    and "client_request J [''queue-run'', url, rv] (rpc_id w) = Some q" "wire_ok J (req_impl q)"
    and "p = resp_impl (default_reply J (new_int64 J (rpc_id w)))" "wire_ok J p"
  shows "ret = Inr (Inr ()) \<and> r = Inr () \<and>
    (\<exists>ns. noted (trace t) = ns @ [''out: '' @ to_json_string_pretty J p]) \<and>
    (\<exists>n. entries (sqldb s') = entries (sqldb s) @ [created_run n url rv] \<and>
       (\<forall>e \<in> set (entries (sqldb s)). sr_id e < n) \<and>
       map run_id (srv_runs s') = map run_id (srv_runs s) @ [n])"
proof -
  let ?x = "\<lparr>run_id = -1, repo_url = url, repo_rev = rv, run_status = RUN_STATUS_CREATED, run_exit_code = -1\<rparr>"
  have q: "q = queue_run_request J (rpc_id w) ?x" using assms(14) by (simp add: client_request_def)
  have "\<exists>ret'. ret = Inr ret' \<and> sent cfd (trace t) = message J (req_impl q)"
    using client_main_sends [OF assms(1), of it its] assms(4,6,8,9,14)
    by (auto split: sum.splits if_splits)
  then obtain ret' where ret': "ret = Inr ret'" "sent cfd (trace t) = message J (req_impl q)" by blast
  then have "rx s fd = message J (req_impl (queue_run_request J (rpc_id w) ?x)) @ []" using assms(3) q by simp
  note sq = server_queues_run [OF assms(13,10,11,12) assms(15) [unfolded q] this assms(2)]
  have reply: "reply = message J p @ []" using sq assms(5,7,16) by simp
  have v: "valid_response J p"
    unfolding assms(16) default_reply_def jsonrpc_response.simps
    by (rule response_object_valid [OF assms(13)]) (simp_all add: valid_id_def jsonc_okD [OF assms(13)])
  have "shown J t p ret'"
    using client_main_spec [OF assms(1) c_strings_message [OF assms(17), of "[]", folded reply], of it its]
      assms(8,9,14,17) reply v ret'(1) by blast
  moreover have "object_get_ex J p ''error'' = None"
    using default_replies(3) [OF assms(13)] assms(16) by (simp add: jsonrpc_response_is_error_def libjson_has_def)
  moreover obtain n where n: "db_create (sqldb s) url rv = Some (sqldb s', n)" "srv_runs s' = srv_runs s @ [new_run n ?x]"
    using sq by auto
  ultimately show ?thesis
    using db_create_spec [OF assms(11) n(1)] sq n(2) ret'(1) by (auto simp: shown_def new_run_def)
qed

definition sample_program :: program where
  "sample_program = \<lparr>prog_exe = ''/usr/bin/cimple-client'', prog_usage = client_usage,
     prog_build = \<lparr>project_version = ''0.1'', project_rev = ''abc'', default_host = ''127.0.0.1'',
       default_port = ''5556'', default_sqlite_path = ''cimple.sqlite''\<rparr>\<rparr>"

definition sample_resolve :: resolver where
  "sample_resolve = (\<lambda>_ _. Some [\<lparr>ai_inet6 = True\<rparr>])"

text \<open>The client's request and the server's answer to it, on the concrete libraries.\<close>

definition sample_reply :: jval where
  "sample_reply = resp_impl (default_reply sample_json (new_int64 sample_json 0))"

lemma sample_exchange:
  "client_request sample_json [''queue-run'', ''url'', ''rev''] 0 = Some (queue_run_request sample_json 0 sample_run)"
  "wire_ok sample_json (req_impl (queue_run_request sample_json 0 sample_run))" "wire_ok sample_json sample_reply"
  by (simp add: client_request_def queue_run_request_def sample_run_def)
    (rule sample_wire; simp add: sample_text sample_reply_def default_reply_def response_object_def)+

theorem queue_run_end_to_end_witness:
  "\<exists>n. srv_runs (snd (cmd_dispatcher_handle_conn sample_json 5
      \<lparr>disp_cmds = server_commands sample_json sample_sodium, disp_ctx = ()\<rparr>
      (serving (req_impl (queue_run_request sample_json 0 sample_run))))) = [n] \<and> 1 < run_id n"
proof -
  let ?J = sample_json and ?q = "queue_run_request sample_json 0 sample_run"
  let ?w = "\<lparr>answers = [], trace = [], rx = (\<lambda>_. []), rpc_id = 0\<rparr> :: world"
  let ?s = "serving (req_impl ?q)" and ?st = "\<lparr>st_host = ''localhost'', st_port = ''5556''\<rparr>"
  let ?c = "client_main ?J sample_program sample_resolve \<lparr>dummy = 0\<rparr> ?st [''queue-run'', ''url'', ''rev'']
    (message ?J sample_reply) ?w"
  let ?h = "cmd_dispatcher_handle_conn ?J 5 \<lparr>disp_cmds = server_commands ?J sample_sodium, disp_ctx = ()\<rparr> ?s"
  obtain ret t where c: "?c = (ret, t)" by (cases ?c)
  obtain r s' where h: "?h = (r, s')" by (cases ?h)
  have w: "\<forall>d. sent d (trace ?w) = []" "reliable ?w" "rpc_id ?w = 0" by (simp_all add: reliable_def)
  have res: "sample_resolve (st_host ?st) (st_port ?st) = Some [\<lparr>ai_inet6 = True\<rparr>]" by (simp add: sample_resolve_def)
  obtain cfd where "\<forall>d. sent d (trace t) = (if d = cfd then message ?J (req_impl ?q) else [])"
    using client_main_sends [OF c, of "\<lparr>ai_inet6 = True\<rparr>" "[]"] w res sample_exchange(1)
    by (auto split: sum.splits)
  then have cfd: "sent cfd (trace t) = message ?J (req_impl ?q)" by simp
  have rx: "rx ?s 5 = message ?J (req_impl ?q) @ []" by (rule serving_facts(8))
  have replied: "message ?J sample_reply = sent 5 (trace s')"
    using server_queues_run [OF sample_json_ok serving_facts(1,3,5) sample_exchange(2) rx h] serving_facts(9)
    by (simp add: sample_reply_def)
  have "rx ?s 5 = sent cfd (trace t)" "sent cfd (trace t) \<noteq> []" using rx cfd message_nonempty by simp_all
  from queue_run_end_to_end [OF c h this replied w(1) serving_facts(9) w(2) res serving_facts(1,3,5) sample_json_ok,
      of ?q sample_reply] sample_exchange w(3)
  obtain n where "entries (sqldb s') = entries (sqldb ?s) @ [created_run n ''url'' ''rev'']"
    "\<forall>e \<in> set (entries (sqldb ?s)). sr_id e < n" "map run_id (srv_runs s') = map run_id (srv_runs ?s) @ [n]"
    by (auto simp: sample_reply_def)
  then show ?thesis using h by (auto simp: serving_facts(7,10) created_run_def)
qed

section \<open>From the queue through a worker to the database\<close>

lemma run_reported:
  fixes s :: "'y server_world_scheme" and w :: "'z worker_world_scheme"
  assumes "srv_runs s = x # xs" "srv_workers s = y # ys" "reliable s" "sent (worker_fd y) (trace s) = []"
    and "from_server env = sent (worker_fd y) (trace (server_assign_run J s))"
    and "worker_get_run J resolve p env loop w = (r1, loop1, w1)"
    and "worker_do_run J S revisions walk resolve (wp_settings p) (w1\<lparr>rx := \<lambda>_. child_writes env\<rparr>) = (r2, w2)"
    and "wp_dispatcher p = worker_table J" "idle loop" "wk_run w = None" "reliable w"
    and "resolve (st_host (wp_settings p)) (st_port (wp_settings p)) = Some (it # its)"
    and "poll_reports env 0 = 0" "poll_reports env 1 AND POLLIN \<noteq> 0"
    and "chosen_script (revisions (repo_url x) (repo_rev x)) = Some script"
    and "jsonc_ok J" "in_int32 (run_id x)" "wire_ok J (req_impl (start_run_request J x))"
  shows "srv_runs (server_assign_run J s) = xs \<and> r1 = Inr () \<and> r2 = Inr () \<and>
    (\<exists>d out. output_bytes out = child_writes env \<and> -126 \<le> po_ec out \<and> po_ec out \<le> 255 \<and>
       (\<forall>e. sent e (trace w2) = sent e (trace w1) @
          (if e = d then message J (req_impl (finished_run_request J S (run_id x) out)) else [])))"
proof -
  let ?m = "message J (req_impl (start_run_request J x))"
  have s': "srv_runs (server_assign_run J s) = xs" "from_server env = ?m @ []"
    using server_assign_run_spec [OF assms(1,2), of J] assms(3,4,5) by (auto simp: Let_def)
  have "c_strings (from_server env)" using c_strings_message [OF assms(18), of "[]"] s'(2) by simp
  note wg = worker_get_run_spec [OF assms(6,8,9,16) this assms(10), of it its]
  have r1: "r1 = Inr ()" "wk_run w1 = Some (received_run x)"
    using wg assms(11,12,14,17,18) s'(2) by blast+
  let ?w1 = "w1\<lparr>rx := \<lambda>_. child_writes env\<rparr>"
  have "wk_run ?w1 = Some (received_run x)" "reliable ?w1" using r1(2) wg assms(11) by (simp_all add: keeps_all_def)
  note wd = worker_do_run_spec [OF assms(7) this(1), of it its] this(2)
  moreover have rr: "run_id (received_run x) = run_id x" "repo_url (received_run x) = repo_url x"
    "repo_rev (received_run x) = repo_rev x" by (simp_all add: received_run_def)
  ultimately have r2: "r2 = Inr ()" and "\<exists>d p out. po_data out = Some (rx ?w1 p) \<and> po_data_size out = length (rx ?w1 p) \<and>
      -126 \<le> po_ec out \<and> po_ec out \<le> 255 \<and> (\<forall>e. sent e (trace w2) = sent e (trace ?w1) @
        (if e = d then message J (req_impl (finished_run_request J S (run_id x) out)) else []))"
    using assms(12) unfolding rr assms(15) option.case by blast+
  then obtain d out where
    out: "po_data out = Some (child_writes env)" "po_data_size out = length (child_writes env)"
      "-126 \<le> po_ec out" "po_ec out \<le> 255"
    and sent: "\<forall>e. sent e (trace w2) = sent e (trace w1) @
      (if e = d then message J (req_impl (finished_run_request J S (run_id x) out)) else [])"
    by auto
  have bytes: "output_bytes out = child_writes env" using out(1,2) by (simp add: output_bytes_def)
  show ?thesis using s'(1) r1(1) r2 bytes out(3,4) sent by blast
qed


definition sample_worker :: worker_world where
  "sample_worker = \<lparr>answers = [], trace = [], rx = (\<lambda>_. []), rpc_id = 1, cwd = ''/'', trees = (\<lambda>_ _. None),
     wk_stopping = False, wk_run = None, wk_lost = []\<rparr>"

definition sample_idle :: worker_loop where
  "sample_idle = \<lparr>nfds = 1, loop_entries = [\<lparr>ev_addr = 0, ev_fd = 9, ev_events = POLLIN, ev_handler = Stop_handler,
     ev_once = False\<rparr>], fresh_addr = 1\<rparr>"

definition sample_parts :: "(jval, worker_world) worker_parts" where
  "sample_parts = \<lparr>wp_settings = \<lparr>st_host = ''localhost'', st_port = ''5556''\<rparr>, wp_dispatcher = worker_table sample_json,
     wp_loop = sample_idle, wp_signalfd = 9\<rparr>"

definition sample_revisions :: revisions where
  "sample_revisions = (\<lambda>_ _ f. if f = ''./ci.sh'' then Some Regular else None)"

lemma sample_worker:
  "idle sample_idle" "wk_run sample_worker = None" "reliable sample_worker" "wp_dispatcher sample_parts = worker_table sample_json"
  "sample_resolve h p = Some ([\<lparr>ai_inet6 = True\<rparr>])" "chosen_script (sample_revisions u r) = Some ''./ci.sh''"
  by (simp_all add: idle_def sample_idle_def loop_wf_def sample_worker_def reliable_def sample_parts_def
      sample_resolve_def sample_revisions_def chosen_script_def)

lemma sample_report_wire:
  assumes "output_bytes out = ''ok''" "-126 \<le> po_ec out" "po_ec out \<le> 255"
  shows "wire_ok sample_json (req_impl (finished_run_request sample_json sample_sodium 1 out))"
proof -
  have "nat \<bar>po_ec out\<bar> < 256" using assms by linarith
  then show ?thesis
    by (intro sample_wire) (auto simp: finished_run_request_def with_param_def update_params_def params_of_def
        request_object_def sample_json_def sample_sodium_def quote_char_def NUL_def Let_def assms(1) split: if_splits)
qed


end
