(* ===== verification/Programs.thy ===== *)
theory Programs
  imports EndToEnd
begin

text \<open>
  The three programs, \<open>main\<close> of \<open>src/client_main.c\<close>, \<open>src/worker_main.c\<close> and \<open>src/server_main.c\<close>: parse
  the options, create, run, destroy. The result is \<open>Inl\<close> with the exit code of a program that ends while
  its options or arguments are read, and otherwise \<open>Inr\<close> with what \<open>main\<close> returns. \<open>exe\<close> is the path of
  the running program.
\<close>

section \<open>The programs\<close>

definition client_program ::
  "'j jsonc \<Rightarrow> build \<Rightarrow> string \<Rightarrow> resolver \<Rightarrow> (char \<times> string) list \<Rightarrow> string list \<Rightarrow> char list \<Rightarrow>
     ('z world_scheme, int + unit) cfun" where
  "client_program J b exe resolve opts argv reply =
     (let prog = \<lparr>prog_exe = exe, prog_usage = client_usage, prog_build = b\<rparr>
      in bindE (client_parse_settings prog opts) (\<lambda>settings w.
           case cimple_client_create w of
             (Inl e, w1) \<Rightarrow> (Inr (Inl e), w1)
           | (Inr client, w1) \<Rightarrow>
               (case client_main J prog resolve client settings argv reply w1 of
                  (Inl ec, w2) \<Rightarrow> (Inl ec, w2)
                | (Inr ret, w2) \<Rightarrow> (Inr ret, cimple_client_destroy client w2))))"

text \<open>The worker is still running, \<open>None\<close>, when the list of rounds ends before its loop.\<close>

definition worker_program ::
  "'j jsonc \<Rightarrow> sodium \<Rightarrow> build \<Rightarrow> string \<Rightarrow> revisions \<Rightarrow> (string \<Rightarrow> string list) \<Rightarrow> resolver \<Rightarrow>
     (char \<times> string) list \<Rightarrow> round list \<Rightarrow> 'z worker_world_scheme thread \<Rightarrow>
     ((int + (int + unit)) \<times> 'z worker_world_scheme thread) option" where
  "worker_program J S b exe revisions walk resolve opts rounds m =
     (let prog = \<lparr>prog_exe = exe, prog_usage = worker_usage, prog_build = b\<rparr>
      in case in_world (parse_settings prog opts) m of
           (Inl ec, m1) \<Rightarrow> Some (Inl ec, m1)
         | (Inr settings, m1) \<Rightarrow>
             (case ci_worker_create J settings m1 of
                (Inl e, m2) \<Rightarrow> Some (Inr (Inl e), m2)
              | (Inr p, (blocked, w)) \<Rightarrow>
                  (case worker_main J S revisions walk resolve p rounds (wp_loop p) w of
                     None \<Rightarrow> None
                   | Some (ret, loop, w1) \<Rightarrow> Some (Inr ret, (blocked, ci_worker_destroy p loop w1)))))"

text \<open>\<open>ports\<close> is what \<open>getaddrinfo\<close> finds for a port; \<open>rounds\<close> is as in \<open>server_main\<close>.\<close>

definition server_program ::
  "'j jsonc \<Rightarrow> sodium \<Rightarrow> build \<Rightarrow> string \<Rightarrow> (string \<Rightarrow> addrinfo list option) \<Rightarrow> (char \<times> string) list \<Rightarrow>
     (('z server_world_scheme \<Rightarrow> 'z server_world_scheme) \<times> (nat \<Rightarrow> 16 word)) list \<Rightarrow>
     'z server_world_scheme thread \<Rightarrow> ((int + (int + unit)) \<times> 'z server_world_scheme thread) option" where
  "server_program J S b exe ports opts rounds m =
     (let prog = \<lparr>prog_exe = exe, prog_usage = server_usage, prog_build = b\<rparr>
      in case in_world (server_parse_settings prog opts) m of
           (Inl ec, m1) \<Rightarrow> Some (Inl ec, m1)
         | (Inr settings, m1) \<Rightarrow>
             (case server_create J S (ports (ss_port settings)) (ss_sqlite_path settings) m1 of
                (Inl e, m2) \<Rightarrow> Some (Inr (Inl e), m2)
              | (Inr p, (blocked, w)) \<Rightarrow>
                  (case server_main rounds (sp_loop p) (blocked, sp_tcp_server p) w of
                     None \<Rightarrow> None
                   | Some (ret, loop, (blocked1, tcp), w1) \<Rightarrow>
                       Some (Inr ret, (blocked1,
                         server_destroy (p\<lparr>sp_loop := loop, sp_tcp_server := tcp\<rparr>) w1)))))"

section \<open>Options\<close>

text \<open>C26: Every program takes its settings from its options: the last \<open>-H\<close>, \<open>-p\<close> or \<open>-s\<close> counts, the
  build's default stands in for an option that is not given, and \<open>-v\<close> changes none of them. At the
  first option it does not know, \<open>-h\<close> or \<open>-V\<close> the program ends, with code 1 for an unknown one and 0
  otherwise, whatever comes after, and leaks nothing.\<close>

theorem options_parsed:
  "(case ending {CHR ''v'', CHR ''H'', CHR ''p''} opts of
      None \<Rightarrow>
        parse_settings prog opts w =
          (Inr \<lparr>st_host = last_arg CHR ''H'' opts (default_host (prog_build prog)),
                st_port = last_arg CHR ''p'' opts (default_port (prog_build prog))\<rparr>, w)
    | Some o1 \<Rightarrow>
        fst (parse_settings prog opts w) = Inl (if o1 \<in> {CHR ''h'', CHR ''V''} then 0 else 1) \<and>
        calm w (snd (parse_settings prog opts w))) \<and>
   (case ending {CHR ''v'', CHR ''p'', CHR ''s''} opts of
      None \<Rightarrow>
        server_parse_settings prog opts w =
          (Inr \<lparr>ss_port = last_arg CHR ''p'' opts (default_port (prog_build prog)),
                ss_sqlite_path = last_arg CHR ''s'' opts (default_sqlite_path (prog_build prog))\<rparr>, w)
    | Some o2 \<Rightarrow>
        fst (server_parse_settings prog opts w) = Inl (if o2 \<in> {CHR ''h'', CHR ''V''} then 0 else 1) \<and>
        calm w (snd (server_parse_settings prog opts w))) \<and>
   client_parse_settings prog opts w = parse_settings prog opts w"
proof -
  have u: "fst (exit_with_usage prog ec w) = Inl ec" "calm w (snd (exit_with_usage prog ec w))"
    "fst (exit_with_version prog w) = Inl 0" "calm w (snd (exit_with_version prog w))" for ec
    using exit_with_usage_spec [of prog ec w] exit_with_version_spec [of prog w] by (metis surj_pair fst_conv snd_conv)+
  show ?thesis
    by (auto simp: parse_settings_def server_parse_settings_def client_parse_settings_def client_default_settings_def
        parse_options_spec server_parse_options_spec default_settings_def server_default_settings_def u split: option.splits)
qed

section \<open>The client program\<close>


definition sample_build :: build where
  "sample_build = prog_build sample_program"


section \<open>The worker program\<close>

lemma worker_destroy_bal:
  assumes p: "wp_dispatcher p = d"
  shows "undef (trace (ci_worker_destroy p loop w)) = undef (trace w)"
    "wk_run (ci_worker_destroy p loop w) = wk_run (w :: 'z worker_world_scheme)"
    "bal (trace (ci_worker_destroy p loop w)) q = bal (trace w) q -
       int (count_list (Lib ''libgit2'' # Desc (wp_signalfd p) # worker_blocks d loop) q)"
  using gives_backD(1) [OF gives_back_worker, of w p loop] same_worker(1) [of "ci_worker_destroy p loop w" w] p
  by (simp_all add: swaps_def algebra_simps)


text \<open>C24: The signal to stop ends a worker: in the round in which \<open>poll\<close> reports the signal descriptor the loop is
  left, with what getting the run returned. A run the server sent in that very round is taken over all
  the same, but it is neither done nor reported, and nothing destroys it.\<close>

theorem stop_signal_ends_worker:
  fixes w :: "'z worker_world_scheme"
  assumes "wp_dispatcher p = worker_table J" "idle loop" "jsonc_ok J" "wk_run w = None"
    and "c_strings (from_server env)" "poll_reports env 0 \<noteq> 0"
  shows "worker_main J S revisions walk resolve p (env # rounds) loop w = Some (worker_get_run J resolve p env loop w) \<and>
    (reliable w \<longrightarrow> resolve (st_host (wp_settings p)) (st_port (wp_settings p)) = Some (it # its) \<longrightarrow>
     poll_reports env 1 AND POLLIN \<noteq> 0 \<longrightarrow> from_server env = message J (req_impl (start_run_request J x)) @ rest \<longrightarrow>
     wire_ok J (req_impl (start_run_request J x)) \<longrightarrow> in_int32 (run_id x) \<longrightarrow>
       wk_run (snd (snd (worker_get_run J resolve p env loop w))) = Some (received_run x) \<and>
       (\<forall>q \<in> set run_blocks. bal (trace (snd (snd (worker_get_run J resolve p env loop w)))) q = bal (trace w) q + 1))"
proof -
  obtain r loop1 w1 where g: "worker_get_run J resolve p env loop w = (r, loop1, w1)" by (metis surj_pair)
  note gr = worker_get_run_spec [OF g assms(1,2,3,5,4)]
  have m: "worker_main J S revisions walk resolve p (env # rounds) loop w = Some (r, loop1, w1)"
  proof (cases r)
    case (Inr u)
    with gr [where it = undefined and its = undefined] assms(6) have "wk_stopping w1" by simp
    with g Inr show ?thesis by simp
  qed (simp add: g)
  have "wk_run w1 = Some (received_run x) \<and> (\<forall>q \<in> set run_blocks. bal (trace w1) q = bal (trace w) q + 1)"
    if "reliable w" "resolve (st_host (wp_settings p)) (st_port (wp_settings p)) = Some (it # its)"
      "poll_reports env 1 AND POLLIN \<noteq> 0" "from_server env = message J (req_impl (start_run_request J x)) @ rest"
      "wire_ok J (req_impl (start_run_request J x))" "in_int32 (run_id x)"
  proof -
    have x: "wk_run w1 = Some (received_run x)" using gr [of it its] that by blast
    have k: "keeps_all {Mem ''pollfds'', Event_fd} w w1" using gr [of it its] by blast
    have "bal (trace w1) q = bal (trace w) q + 1" if q: "q \<in> set run_blocks" for q
    proof -
      have "heap q" "q \<notin> {Mem ''pollfds'', Event_fd}" "count_list run_blocks q = 1"
        using q by (auto simp: run_blocks_def heap_def)
      moreover from this k have "ledger worker_holds w1 q = ledger worker_holds w q" "wk_lost w1 = wk_lost w"
        by (simp_all add: keeps_all_def)
      ultimately show ?thesis using x assms(4) by (simp add: worker_ledger)
    qed
    with x show ?thesis by blast
  qed
  with m g show ?thesis by simp
qed

definition stop_round :: round where
  "stop_round = \<lparr>from_server = message sample_json (req_impl (start_run_request sample_json sample_run)),
     poll_reports = (\<lambda>_. POLLIN), child_writes = []\<rparr>"

lemma stop_round:
  "c_strings (from_server stop_round)" "poll_reports stop_round 0 \<noteq> 0" "fair_round stop_round" "poll_reports stop_round 1 AND POLLIN \<noteq> 0"
  "wire_ok sample_json (req_impl (start_run_request sample_json sample_run))" "in_int32 (run_id sample_run)"
  "from_server stop_round = message sample_json (req_impl (start_run_request sample_json sample_run)) @ []"
proof -
  show w: "wire_ok sample_json (req_impl (start_run_request sample_json sample_run))"
    by (rule sample_wire; simp add: sample_text)
  show c: "c_strings (from_server stop_round)" using c_strings_message [OF w, of "[]"] by (simp add: stop_round_def)
  show "poll_reports stop_round 0 \<noteq> 0" "poll_reports stop_round 1 AND POLLIN \<noteq> 0" by (simp_all add: stop_round_def)
  with c show "fair_round stop_round" by (simp add: fair_round_def)
qed (simp_all add: stop_round_def sample_run_def in_int32_def)

theorem stop_signal_ends_worker_witness:
  "\<exists>r loop w. worker_main sample_json sample_sodium sample_revisions (\<lambda>_. []) sample_resolve sample_parts [stop_round]
      sample_idle sample_worker = Some (r, loop, w) \<and> wk_run w = Some (received_run sample_run)"
proof -
  obtain r loop w where g: "worker_get_run sample_json sample_resolve sample_parts stop_round sample_idle sample_worker =
    (r, loop, w)" by (metis surj_pair)
  with stop_signal_ends_worker [OF sample_worker(4,1) sample_json_ok sample_worker(2) stop_round(1,2),
      where x = sample_run and rest = "[]" and it = "\<lparr>ai_inet6 = True\<rparr>" and its = "[]" and rounds = "[]"
        and S = sample_sodium and revisions = sample_revisions and walk = "\<lambda>_. []" and resolve = sample_resolve]
    sample_worker(3,5) stop_round(4-7)
  show ?thesis by simp
qed


section \<open>The server program\<close>

lemma set_stopping_queues:
  "server_set_stopping w = (r, t) \<Longrightarrow> srv_runs t = srv_runs w \<and> srv_workers t = srv_workers w"
  by (auto simp: server_set_stopping_def server_lock_def server_unlock_def server_notify_def bindE_def lib_def
      andThen_def ok_def split: if_splits)

lemma signalled_round:
  fixes w :: "'z server_world_scheme"
  assumes run: "event_loop_run server_handle reported loop a w = (Inr u, loop', a', t)" and wf: "loop_wf loop"
    and es: "map ev_handler (loop_entries loop) = [Other_handler (), Accept_handler]" "\<not> ev_once (loop_entries loop ! 0)"
    and rep: "reported 0 \<noteq> 0" "reported 1 = 0"
  shows "loop' = loop \<and> a' = a \<and> srv_stopping t \<and> srv_runs t = srv_runs w \<and> srv_workers t = srv_workers w \<and>
    undef (trace t) = undef (trace w) \<and> bal (trace t) = bal (trace w)"
proof -
  obtain e f where ef: "loop_entries loop = [e, f]" "ev_handler e = Other_handler ()" "\<not> ev_once e"
    using es by (auto simp: map_eq_Cons_conv)
  obtain v y where v: "takes w v [Mem ''pollfds'']" "t = release (Mem ''pollfds'') y"
    and s: "serve_ready server_handle (snapshot reported loop) (Inr ()) loop a v = (Inr u, loop', a', y)"
    using tcp_loop.run_cases [OF run [unfolded server_handle_def] wf] unfolding server_handle_def by auto
  let ?l = "log_events (reported 0) v"
  obtain x z where x: "server_set_stopping ?l = (x, z)" by (cases "server_set_stopping ?l")
  obtain sigs tcp where a: "a = (sigs, tcp)" by (cases a)
  from s rep ef x have y: "x = Inr ()" "loop' = loop" "a' = a" "y = z"
    by (cases x; auto simp: snapshot_def server_handle_def a split: if_splits)+
  have l: "calm v ?l" using log_events_calm by blast
  note m = same_server [OF takesD(1) [OF v(1)]] same_server [OF takesD(1) [OF l]]
  show ?thesis
    using set_stopping_run [OF x] set_stopping_queues [OF x] y v l m by (auto simp: takes_def fun_eq_iff)
qed



end
