(* ===== verification/StoreThreads.thy ===== *)
theory StoreThreads
  imports ServerThreads
begin

text \<open>
  The threads of the server with the database they share. \<open>server_enqueue_run\<close> of
  \<open>src/server.c\<close> stores a run before it takes the server's mutex, and each SQL statement is run
  under a mutex of its own; so the handlers of other connections and the main thread can come
  between any two of its parts. Handlers of finished runs and of listings never take the
  server's mutex. A step is one statement, or a step of \<open>ServerThreads\<close>.
\<close>

section \<open>The parts of server_enqueue_run\<close>

text \<open>\<open>storage_sqlite_insert_repo\<close> up to the call of \<open>storage_sqlite_find_repo\<close>.\<close>

definition insert_repo_stmt :: "string \<Rightarrow> ('z db_world_scheme, unit) cfun" where
  "insert_repo_stmt url =
     bindE (prepared_stmt_lock ''repo_insert'') (\<lambda>_.
       after
         (bindE sqlite_bind (\<lambda>_. sqlite_step (\<lambda>d. Some (sql_repo_insert url d, ()))))
         (reset_stmt ''repo_insert''))"

lemma insert_repo_in_parts:
  "storage_sqlite_insert_repo url = bindE (insert_repo_stmt url) (\<lambda>_. storage_sqlite_find_repo url)"
  by (simp add: storage_sqlite_insert_repo_def insert_repo_stmt_def)

text \<open>
  What the thread of a connection does before it takes the server's mutex: nothing of that kind;
  about to insert the repository of its run, to look up its id, to insert the run with that id,
  or to take the mutex and add the run, which has its own id by then, to the queue.
\<close>

datatype job =
    Idle
  | Inserting run
  | Finding run
  | Adding run int
  | Enqueueing run

text \<open>
  \<open>created\<close> and \<open>stranded\<close> are histories: the runs that were stored, and those of them for which
  the mutex could not be taken.
\<close>

record system =
  core :: sys
  jobs :: "nat \<Rightarrow> job"
  created :: "run list"
  stranded :: "run list"

abbreviation stored :: "system \<Rightarrow> database" where
  "stored s \<equiv> sqldb (shared (core s))"

definition with_shared :: "server_world \<Rightarrow> system \<Rightarrow> system" where
  "with_shared w s = s\<lparr>core := (core s)\<lparr>shared := w\<rparr>\<rparr>"

text \<open>
  New rows need rowids that fit into an \<open>int\<close>, \<open>room\<close>. A worker reports only runs it was
  given. The parser of that report always has an output.
\<close>

inductive system_step :: "'j jsonc \<Rightarrow> system \<Rightarrow> system \<Rightarrow> bool" for J :: "'j jsonc" where
  sys_main: "main_step J (core s) c \<or> spurious_step (core s) c \<Longrightarrow> system_step J s (s\<lparr>core := c\<rparr>)"
| sys_helper: "helper_step i (core s) c \<Longrightarrow> jobs s i = Idle \<Longrightarrow>
    (\<forall>x. helpers c i \<noteq> HLocked (AddRun x)) \<Longrightarrow> system_step J s (s\<lparr>core := c\<rparr>)"
| sys_request: "helpers (core s) i = HIdle \<Longrightarrow> jobs s i = Idle \<Longrightarrow>
    system_step J s (s\<lparr>jobs := (jobs s)(i := Inserting x)\<rparr>)"
| sys_insert_repo: "jobs s i = Inserting x \<Longrightarrow> room (stored s) \<Longrightarrow>
    insert_repo_stmt (run_get_repo_url x) (shared (core s)) = (r, w) \<Longrightarrow>
    system_step J s ((with_shared w s)\<lparr>jobs := (jobs s)(i :=
      (case r of Inl e \<Rightarrow> Idle | Inr _ \<Rightarrow> Finding x))\<rparr>)"
| sys_find_repo: "jobs s i = Finding x \<Longrightarrow>
    storage_sqlite_find_repo (run_get_repo_url x) (shared (core s)) = (r, w) \<Longrightarrow>
    system_step J s ((with_shared w s)\<lparr>jobs := (jobs s)(i :=
      (case r of Inl e \<Rightarrow> Idle | Inr k \<Rightarrow> Adding x k))\<rparr>)"
| sys_insert_run: "jobs s i = Adding x k \<Longrightarrow> room (stored s) \<Longrightarrow>
    storage_sqlite_insert_run k (run_get_repo_rev x) (shared (core s)) = (r, w) \<Longrightarrow>
    system_step J s ((with_shared w s)\<lparr>
      jobs := (jobs s)(i := (case r of Inl e \<Rightarrow> Idle | Inr n \<Rightarrow> Enqueueing (run_set_id x n))),
      created := created s @ (case r of Inl e \<Rightarrow> [] | Inr n \<Rightarrow> [run_set_id x n])\<rparr>)"
| sys_enqueue: "jobs s i = Enqueueing x \<Longrightarrow> helper_step i (core s) c \<Longrightarrow>
    helpers c i = HLocked (AddRun x) \<Longrightarrow>
    system_step J s (s\<lparr>core := c, jobs := (jobs s)(i := Idle)\<rparr>)"
| sys_lock_fails: "jobs s i = Enqueueing x \<Longrightarrow>
    system_step J s (s\<lparr>jobs := (jobs s)(i := Idle), stranded := stranded s @ [x]\<rparr>)"
| sys_finished: "helpers (core s) i = HIdle \<Longrightarrow> jobs s i = Idle \<Longrightarrow>
    n \<in> run_id ` set (delivered (core s)) \<Longrightarrow> po_data output \<noteq> None \<Longrightarrow>
    storage_sqlite_run_finished n output (shared (core s)) = (r, w) \<Longrightarrow>
    system_step J s (with_shared w s)"
| sys_listed: "helpers (core s) i = HIdle \<Longrightarrow> jobs s i = Idle \<Longrightarrow>
    storage_sqlite_get_runs (shared (core s)) = (r, w) \<Longrightarrow>
    system_step J s (with_shared (case r of Inl e \<Rightarrow> w | Inr q \<Rightarrow> run_queue_destroy q w) s)"

text \<open>The queue that \<open>server_create\<close> gets from the storage is always empty; \<open>old\<close> are the runs stored before.\<close>

definition system_initial :: "stored_run list \<Rightarrow> system \<Rightarrow> bool" where
  "system_initial old s \<longleftrightarrow> initial (core s) \<and> srv_runs (shared (core s)) = [] \<and>
     db_ok (stored s) \<and> entries (stored s) = old \<and>
     jobs s = (\<lambda>_. Idle) \<and> created s = [] \<and> stranded s = []"

inductive_cases system_stepE: "system_step J s t"

section \<open>Statements\<close>

lemma insert_repo_stmt_spec:
  assumes "insert_repo_stmt url w = (r, t)"
  shows "db_moves w t [] \<and>
    (case r of Inl e \<Rightarrow> sqldb t = sqldb w | Inr _ \<Rightarrow> sqldb t = sql_repo_insert url (sqldb w))"
proof -
  have "wp (insert_repo_stmt url) (\<lambda>r t. db_moves w t [] \<and>
    (case r of Inl e \<Rightarrow> sqldb t = sqldb w | Inr _ \<Rightarrow> sqldb t = sql_repo_insert url (sqldb w))) w"
    by (cases "lucky w"; simp add: insert_repo_stmt_def storage_call_defs run_simps db_moves_def still_def)
  from wpD [OF this assms] show ?thesis .
qed

text \<open>The id that is found for a URL is that of its row.\<close>

lemma repo_found:
  assumes ok: "db_ok d" and url: "url \<in> snd ` set (db_repos d)"
  shows "sql_repo_insert url d = d" "(repo_id_of url d, url) \<in> set (db_repos d)" "\<not> repo_id_of url d < 0"
proof -
  show same: "sql_repo_insert url d = d" using url by (simp add: sql_repo_insert_def)
  obtain x xs where f: "filter (\<lambda>x. snd x = url) (db_repos d) = x # xs"
    using url by (cases "filter (\<lambda>x. snd x = url) (db_repos d)") (auto simp: filter_empty_conv)
  then have x: "x \<in> set (db_repos d)" "snd x = url" by (auto simp: filter_eq_Cons_iff)
  then have "0 < fst x \<and> fst x < 2 ^ 31" using ok by (auto simp: db_ok_def)
  then have i: "repo_id_of url d = fst x" "0 < fst x"
    by (simp_all add: repo_id_of_def sql_repo_find_def f int32_id in_int32_def)
  with x show "(repo_id_of url d, url) \<in> set (db_repos d)" "\<not> repo_id_of url d < 0" by auto
qed

lemma repo_id_unique:
  assumes ok: "db_ok d" and k: "(k, url) \<in> set (db_repos d)"
  shows "repo_id_of url d = k"
proof -
  have url: "url \<in> snd ` set (db_repos d)" using k by force
  from ok have "inj_on snd (set (db_repos d))" by (simp add: db_ok_def distinct_map)
  from inj_onD [OF this _ repo_found(2) [OF ok url] k] show ?thesis by simp
qed

text \<open>So inserting a run under the id found earlier is \<open>db_create\<close>.\<close>

lemma insert_run_creates:
  assumes run: "storage_sqlite_insert_run k rv w = (r, t)"
    and ok: "db_ok (sqldb w)" "room (sqldb w)" and k: "(k, url) \<in> set (db_repos (sqldb w))"
  shows "db_moves w t [] \<and>
    (case r of Inl e \<Rightarrow> sqldb t = sqldb w | Inr i \<Rightarrow> db_create (sqldb w) url rv = Some (sqldb t, i))"
proof -
  let ?d = "sqldb w"
  have url: "url \<in> snd ` set (db_repos ?d)" using k by force
  note f = repo_found [OF ok(1) url]
  have "RUN_STATUS_CREATED \<in> fst ` set (db_statuses ?d)" "k \<in> fst ` set (db_repos ?d)"
    using ok(1) k by (force simp: db_ok_def RUN_STATUS_CREATED_def)+
  then obtain d i where sr: "sql_run_insert RUN_STATUS_CREATED k rv ?d = Some (d, i)"
    "i = next_rowid (map row_id (db_runs ?d))"
    by (auto simp: sql_run_insert_def Let_def)
  have "\<not> int32 i < 0"
    using ok(2) next_rowid_pos [of "map row_id (db_runs ?d)"] sr(2)
    by (simp add: room_def int32_id in_int32_def)
  with insert_run_spec [OF run] sr f repo_id_unique [OF ok(1) k] show ?thesis
    by (auto simp: db_create_def Let_def)
qed

section \<open>The invariant\<close>

text \<open>The run that a connection has stored and is about to add to the queue.\<close>

fun in_flight :: "job \<Rightarrow> helper_pc \<Rightarrow> run option" where
  "in_flight (Enqueueing x) h = Some x"
| "in_flight j (HLocked (AddRun x)) = Some x"
| "in_flight j h = None"

definition flight :: "system \<Rightarrow> nat \<Rightarrow> run option" where
  "flight s i = in_flight (jobs s i) (helpers (core s) i)"

lemma in_flight_idle [simp]: "in_flight Idle h = Some x \<longleftrightarrow> h = HLocked (AddRun x)"
  by (cases "(Idle, h)" rule: in_flight.cases) auto

lemma in_flight_outside [simp]:
  "in_flight Idle HIdle = None" "in_flight (Inserting x) HIdle = None"
  "in_flight (Finding x) HIdle = None" "in_flight (Adding x k) HIdle = None"
  by simp_all

lemma in_flight_idle_None [simp]: "in_flight Idle h = None \<longleftrightarrow> (\<forall>x. h \<noteq> HLocked (AddRun x))"
  by (cases "in_flight Idle h") auto

definition key_of_entry :: "stored_run \<Rightarrow> int \<times> string \<times> string" where
  "key_of_entry e = (sr_id e, sr_url e, sr_rev e)"

definition key_of_run :: "run \<Rightarrow> int \<times> string \<times> string" where
  "key_of_run x = (run_id x, repo_url x, repo_rev x)"

definition threads_ok :: "system \<Rightarrow> bool" where
  "threads_ok s \<longleftrightarrow> locking (core s) \<and> progress (core s) \<and>
     (\<forall>i. helpers (core s) i \<noteq> HIdle \<longrightarrow> jobs s i = Idle)"

text \<open>The database holds the runs that were there before and those created since, in order.\<close>

definition store_ok :: "stored_run list \<Rightarrow> system \<Rightarrow> bool" where
  "store_ok old s \<longleftrightarrow> db_ok (stored s) \<and>
     (\<exists>news. entries (stored s) = old @ news \<and> map key_of_entry news = map key_of_run (created s) \<and>
        (\<forall>e \<in> set news. sr_status e = RUN_STATUS_CREATED \<or> sr_id e \<in> run_id ` set (delivered (core s)))) \<and>
     (\<forall>i x. jobs s i = Finding x \<longrightarrow> repo_url x \<in> snd ` set (db_repos (stored s))) \<and>
     (\<forall>i x k. jobs s i = Adding x k \<longrightarrow> (k, repo_url x) \<in> set (db_repos (stored s)))"

text \<open>Each of the created runs is in exactly one place.\<close>

definition places_ok :: "system \<Rightarrow> bool" where
  "places_ok s \<longleftrightarrow> distinct (enqueued (core s)) \<and> distinct (created s) \<and>
     (\<forall>x. x \<in> set (created s) \<longleftrightarrow>
        x \<in> set (enqueued (core s)) \<or> x \<in> set (stranded s) \<or> (\<exists>i. flight s i = Some x)) \<and>
     set (enqueued (core s)) \<inter> set (stranded s) = {} \<and>
     (\<forall>i x. flight s i = Some x \<longrightarrow> x \<notin> set (enqueued (core s)) \<and> x \<notin> set (stranded s)) \<and>
     (\<forall>i j x. flight s i = Some x \<longrightarrow> flight s j = Some x \<longrightarrow> i = j)"

text \<open>What the steps of \<open>ServerThreads\<close> leave alone.\<close>

lemma main_step_frame:
  assumes "main_step J s t \<or> spurious_step s t" "progress s"
  shows "helpers t = helpers s" "enqueued t = enqueued s" "sqldb (shared t) = sqldb (shared s)"
    "set (delivered s) \<subseteq> set (delivered t)"
proof -
  have "helpers t = helpers s \<and> enqueued t = enqueued s \<and> sqldb (shared t) = sqldb (shared s) \<and>
    set (delivered s) \<subseteq> set (delivered t)"
    using assms(1)
  proof
    assume "main_step J s t"
    then show ?thesis
    proof cases
      case (main_assign w)
      with assms(2) have "server_ready_for_action (shared s)" by (simp add: progress_def)
      from ready_queues [OF this main_assign(3)] obtain x xs y ys where
        q: "srv_runs (shared s) = x # xs" "srv_workers (shared s) = y # ys" by auto
      from server_assign_run_spec [OF q, of J] main_assign show ?thesis by (auto simp: Let_def)
    qed auto
  next
    assume "spurious_step s t"
    then show ?thesis by cases auto
  qed
  then show "helpers t = helpers s" "enqueued t = enqueued s" "sqldb (shared t) = sqldb (shared s)"
    "set (delivered s) \<subseteq> set (delivered t)" by simp_all
qed

lemma apply_op_sqldb [simp]: "sqldb (apply_op c w) = sqldb w"
  by (cases c) simp_all

lemma helper_step_frame:
  assumes "helper_step i s t"
  shows "sqldb (shared t) = sqldb (shared s)" "delivered t = delivered s" "j \<noteq> i \<Longrightarrow> helpers t j = helpers s j"
  using assms by (cases; simp)+

lemma moved_core:
  assumes m: "db_moves (shared c) w []"
  shows "locking (c\<lparr>shared := w\<rparr>) = locking c" "progress c \<Longrightarrow> progress (c\<lparr>shared := w\<rparr>)"
proof -
  show "locking (c\<lparr>shared := w\<rparr>) = locking c"
    by (simp add: locking_def split: option.split tid.split)
  have "undef (trace w) = undef (trace (shared c))" using m by (simp add: db_moves_def)
  moreover have "server_ready_for_action w = server_ready_for_action (shared c)"
    using db_moves_server(1-3) [OF m]
    by (simp add: server_ready_for_action_def server_has_runs_def server_has_workers_def)
  ultimately show "progress c \<Longrightarrow> progress (c\<lparr>shared := w\<rparr>)"
    using db_moves_server(1) [OF m] by (simp add: progress_def)
qed

lemma listed_moves:
  assumes "storage_sqlite_get_runs v = (r, w)"
  shows "db_moves v (case r of Inl e \<Rightarrow> w | Inr q \<Rightarrow> run_queue_destroy q w) []"
    "sqldb (case r of Inl e \<Rightarrow> w | Inr q \<Rightarrow> run_queue_destroy q w) = sqldb v"
proof -
  show "sqldb (case r of Inl e \<Rightarrow> w | Inr q \<Rightarrow> run_queue_destroy q w) = sqldb v"
    using get_runs_spec [OF assms] by (cases r) simp_all
  show "db_moves v (case r of Inl e \<Rightarrow> w | Inr q \<Rightarrow> run_queue_destroy q w) []"
    using get_runs_spec [OF assms]
    by (cases r) (auto simp: db_moves_def count_queue_blocks intro: still_trans)
qed

text \<open>The steps that are one statement of the database: what they have in common.\<close>

lemma statement_moves:
  "insert_repo_stmt url v = (a, w) \<Longrightarrow> db_moves v w []"
  "storage_sqlite_find_repo url v = (b, w) \<Longrightarrow> db_moves v w []"
  "storage_sqlite_insert_run k rv v = (b, w) \<Longrightarrow> db_moves v w []"
  "storage_sqlite_run_finished n output v = (c, w) \<Longrightarrow> db_moves v w []"
  using insert_repo_stmt_spec find_repo_spec insert_run_spec run_finished_spec by blast+

lemma threads_ok_step:
  assumes st: "system_step J s t" and ok: "threads_ok s"
  shows "threads_ok t"
proof -
  have moved: "locking (core s\<lparr>shared := w\<rparr>) \<and> progress (core s\<lparr>shared := w\<rparr>)"
    if "db_moves (shared (core s)) w []" for w
    using moved_core [OF that] ok by (simp add: threads_ok_def)
  from st show ?thesis
  proof cases
    case (sys_main c)
    then have "step J (core s) c" by (auto simp: step_def)
    with sys_main ok main_step_frame(1) [OF sys_main(2)] show ?thesis
      by (auto simp: threads_ok_def dest: locking_step progress_step)
  next
    case (sys_helper i c)
    then have "step J (core s) c" by (auto simp: step_def)
    moreover have "\<forall>j. helpers c j \<noteq> HIdle \<longrightarrow> jobs s j = Idle"
      using sys_helper ok helper_step_frame(3) [OF sys_helper(2)] unfolding threads_ok_def by metis
    ultimately show ?thesis
      using sys_helper ok by (auto simp: threads_ok_def dest: locking_step progress_step)
  next
    case (sys_enqueue i x c)
    then have "step J (core s) c" by (auto simp: step_def)
    moreover have "\<forall>j. j \<noteq> i \<and> helpers c j \<noteq> HIdle \<longrightarrow> jobs s j = Idle"
      using sys_enqueue ok helper_step_frame(3) [OF sys_enqueue(3)] unfolding threads_ok_def by metis
    ultimately show ?thesis
      using sys_enqueue ok by (auto simp: threads_ok_def dest: locking_step progress_step)
  next
    case (sys_insert_repo i x r w)
    with ok moved [OF statement_moves(1) [OF sys_insert_repo(4)]] show ?thesis
      by (auto simp: threads_ok_def with_shared_def)
  next
    case (sys_find_repo i x r w)
    with ok moved [OF statement_moves(2) [OF sys_find_repo(3)]] show ?thesis
      by (auto simp: threads_ok_def with_shared_def)
  next
    case (sys_insert_run i x k r w)
    with ok moved [OF statement_moves(3) [OF sys_insert_run(4)]] show ?thesis
      by (auto simp: threads_ok_def with_shared_def)
  next
    case (sys_finished i n out r w)
    with ok moved [OF statement_moves(4) [OF sys_finished(6)]] show ?thesis
      by (auto simp: threads_ok_def with_shared_def)
  next
    case (sys_listed i r w)
    with ok moved [OF listed_moves(1) [OF sys_listed(4)]] show ?thesis
      by (auto simp: threads_ok_def with_shared_def)
  qed (use ok in \<open>auto simp: threads_ok_def\<close>)
qed

section \<open>The database\<close>

text \<open>A step that leaves the database and the histories alone keeps the invariant.\<close>

lemma store_ok_frame:
  assumes "store_ok old s" "stored t = stored s" "created t = created s"
    "set (delivered (core s)) \<subseteq> set (delivered (core t))"
    "\<And>i x. jobs t i = Finding x \<Longrightarrow> jobs s i = Finding x"
    "\<And>i x k. jobs t i = Adding x k \<Longrightarrow> jobs s i = Adding x k"
  shows "store_ok old t"
proof -
  from assms(1) obtain news where news: "entries (stored s) = old @ news"
    "map key_of_entry news = map key_of_run (created s)"
    "\<forall>e \<in> set news. sr_status e = RUN_STATUS_CREATED \<or> sr_id e \<in> run_id ` set (delivered (core s))"
    by (auto simp: store_ok_def)
  moreover from news(3) assms(4) have
    "\<forall>e \<in> set news. sr_status e = RUN_STATUS_CREATED \<or> sr_id e \<in> run_id ` set (delivered (core t))"
    by blast
  ultimately show ?thesis
    using assms(1,5,6) unfolding store_ok_def assms(2,3) by blast
qed

lemma repos_kept:
  assumes "db_create d url rv = Some (d', i)" "db_ok d"
  shows "url \<in> snd ` set (db_repos d) \<Longrightarrow> db_repos d' = db_repos d"
  using assms repo_found(1) [OF assms(2)]
  by (auto simp: db_create_def Let_def sql_run_insert_def split: if_splits option.splits)

lemma finish_repos: "db_finish d n ec out = Some d' \<Longrightarrow> db_repos d' = db_repos d"
  by (auto simp: db_finish_def sql_run_finished_def split: if_splits option.splits)

lemma store_insert_repo:
  assumes ok: "store_ok old s" and job: "jobs s i = Inserting x" and room: "room (stored s)"
    and run: "insert_repo_stmt (run_get_repo_url x) (shared (core s)) = (r, w)"
  shows "store_ok old ((with_shared w s)\<lparr>jobs := (jobs s)(i :=
      (case r of Inl e \<Rightarrow> Idle | Inr _ \<Rightarrow> Finding x))\<rparr>)"
proof (cases r)
  case (Inl e)
  with insert_repo_stmt_spec [OF run] show ?thesis
    by (intro store_ok_frame [OF ok]) (auto simp: with_shared_def split: if_splits)
next
  case (Inr u)
  with insert_repo_stmt_spec [OF run] have w: "sqldb w = sql_repo_insert (repo_url x) (stored s)"
    by (simp add: run_accessors)
  from ok have d: "db_ok (stored s)" by (simp add: store_ok_def)
  note k = room_repo [OF d room, of "repo_url x"]
  note ins = repo_insert_spec [OF d refl k]
  note e = entries_repo_insert [OF d k]
  obtain new where "db_repos (sqldb w) = db_repos (stored s) @ new" using ins(5) w by auto
  then have "set (db_repos (stored s)) \<subseteq> set (db_repos (sqldb w))" by simp
  moreover have "repo_url x \<in> snd ` set (db_repos (sqldb w))" using ins(4) w by force
  ultimately show ?thesis
    using ok ins(1) e w Inr unfolding store_ok_def
    by (auto simp: with_shared_def) blast+
qed

lemma store_find_repo:
  assumes ok: "store_ok old s" and job: "jobs s i = Finding x"
    and run: "storage_sqlite_find_repo (run_get_repo_url x) (shared (core s)) = (r, w)"
  shows "store_ok old ((with_shared w s)\<lparr>jobs := (jobs s)(i :=
      (case r of Inl e \<Rightarrow> Idle | Inr k \<Rightarrow> Adding x k))\<rparr>)"
proof -
  from find_repo_spec [OF run] have w: "sqldb w = stored s" by simp
  from ok have d: "db_ok (stored s)" "repo_url x \<in> snd ` set (db_repos (stored s))"
    using job by (auto simp: store_ok_def)
  show ?thesis
  proof (cases r)
    case (Inl e)
    with w show ?thesis
      by (intro store_ok_frame [OF ok]) (auto simp: with_shared_def split: if_splits)
  next
    case (Inr k)
    with find_repo_spec [OF run] have "k = repo_id_of (repo_url x) (stored s)"
      by (simp add: run_accessors)
    with repo_found(2) [OF d] have "(k, repo_url x) \<in> set (db_repos (stored s))" by simp
    with ok w Inr show ?thesis
      unfolding store_ok_def by (auto simp: with_shared_def)
  qed
qed

lemma store_insert_run:
  assumes ok: "store_ok old s" and job: "jobs s i = Adding x k" and room: "room (stored s)"
    and run: "storage_sqlite_insert_run k (run_get_repo_rev x) (shared (core s)) = (r, w)"
  shows "store_ok old ((with_shared w s)\<lparr>
      jobs := (jobs s)(i := (case r of Inl e \<Rightarrow> Idle | Inr n \<Rightarrow> Enqueueing (run_set_id x n))),
      created := created s @ (case r of Inl e \<Rightarrow> [] | Inr n \<Rightarrow> [run_set_id x n])\<rparr>)"
    and "r = Inr n \<Longrightarrow> n \<notin> run_id ` set (created s)"
proof -
  from ok have d: "db_ok (stored s)" and k: "(k, repo_url x) \<in> set (db_repos (stored s))"
    using job by (auto simp: store_ok_def)
  from k have url: "repo_url x \<in> snd ` set (db_repos (stored s))" by force
  note c = insert_run_creates [OF run d room k]
  from ok obtain news where news: "entries (stored s) = old @ news"
    "map key_of_entry news = map key_of_run (created s)"
    "\<forall>e \<in> set news. sr_status e = RUN_STATUS_CREATED \<or> sr_id e \<in> run_id ` set (delivered (core s))"
    by (auto simp: store_ok_def)
  show "store_ok old ((with_shared w s)\<lparr>
      jobs := (jobs s)(i := (case r of Inl e \<Rightarrow> Idle | Inr n \<Rightarrow> Enqueueing (run_set_id x n))),
      created := created s @ (case r of Inl e \<Rightarrow> [] | Inr n \<Rightarrow> [run_set_id x n])\<rparr>)"
  proof (cases r)
    case (Inl e)
    with c show ?thesis
      by (intro store_ok_frame [OF ok]) (auto simp: with_shared_def split: if_splits)
  next
    case (Inr n)
    let ?e = "created_run n (repo_url x) (repo_rev x)"
    from c Inr have cr: "db_create (stored s) (repo_url x) (repo_rev x) = Some (sqldb w, n)"
      by (simp add: run_accessors)
    note dc = db_create_spec [OF d cr]
    have "entries (sqldb w) = old @ (news @ [?e])" using dc news(1) by simp
    moreover have "map key_of_entry (news @ [?e]) = map key_of_run (created s @ [run_set_id x n])"
      using news(2) by (simp add: key_of_entry_def key_of_run_def created_run_def run_accessors)
    moreover have "\<forall>e \<in> set (news @ [?e]).
        sr_status e = RUN_STATUS_CREATED \<or> sr_id e \<in> run_id ` set (delivered (core s))"
      using news(3) by (auto simp: created_run_def)
    ultimately show ?thesis
      using ok dc repos_kept [OF cr d url] Inr unfolding store_ok_def
      by (auto simp: with_shared_def)
  qed
  show "n \<notin> run_id ` set (created s)" if "r = Inr n"
  proof -
    from c that have cr: "db_create (stored s) (repo_url x) (repo_rev x) = Some (sqldb w, n)"
      by (simp add: run_accessors)
    have "map sr_id news = map run_id (created s)"
      using arg_cong [OF news(2), of "map fst"]
      by (simp add: comp_def key_of_entry_def key_of_run_def)
    then have "run_id ` set (created s) = sr_id ` set news" by (metis list.set_map)
    moreover have "\<forall>e \<in> set news. sr_id e < n" using db_create_spec [OF d cr] news(1) by simp
    ultimately show ?thesis by auto
  qed
qed

lemma entries_distinct: "db_ok d \<Longrightarrow> distinct (map sr_id (entries d))"
  by (simp add: db_ok_def entries_def comp_def strict_sorted_iff)

lemma finish_in_other: "n \<notin> sr_id ` set es \<Longrightarrow> finish_in n ec out es = es"
  by (induction es) (auto simp: finish_in_def)

lemma finish_in_append: "finish_in n ec out (xs @ ys) = finish_in n ec out xs @ finish_in n ec out ys"
  by (simp add: finish_in_def)

lemma finish_in_keys: "map key_of_entry (finish_in n ec out es) = map key_of_entry es"
  by (simp add: finish_in_def key_of_entry_def finished_run_def)

lemma store_finished:
  assumes ok: "store_ok old s" and n: "n \<in> run_id ` set (delivered (core s))"
    and del: "set (delivered (core s)) \<subseteq> set (created s)" and out: "po_data output \<noteq> None"
    and run: "storage_sqlite_run_finished n output (shared (core s)) = (r, w)"
  shows "store_ok old (with_shared w s)"
proof -
  from ok have d: "db_ok (stored s)" by (simp add: store_ok_def)
  note f = run_finished_entries [OF run d out]
  show ?thesis
  proof (cases r)
    case (Inl e)
    with f show ?thesis
      by (intro store_ok_frame [OF ok]) (auto simp: with_shared_def)
  next
    case (Inr u)
    with f have fin: "db_finish (stored s) n (po_ec output) (output_bytes output) = Some (sqldb w)" by simp
    note fs = db_finish_spec [OF d fin]
    from ok obtain news where news: "entries (stored s) = old @ news"
      "map key_of_entry news = map key_of_run (created s)"
      "\<forall>e \<in> set news. sr_status e = RUN_STATUS_CREATED \<or> sr_id e \<in> run_id ` set (delivered (core s))"
      by (auto simp: store_ok_def)
    have "map sr_id news = map run_id (created s)"
      using arg_cong [OF news(2), of "map fst"] by (simp add: comp_def key_of_entry_def key_of_run_def)
    then have "run_id ` set (created s) = sr_id ` set news" by (metis list.set_map)
    with n del have "n \<in> sr_id ` set news" by blast
    with entries_distinct [OF d] news(1) have "n \<notin> sr_id ` set old" by auto
    then have "entries (sqldb w) = old @ finish_in n (po_ec output) (output_bytes output) news"
      using fs news(1) by (simp add: finish_in_append finish_in_other)
    moreover have "\<forall>e \<in> set (finish_in n (po_ec output) (output_bytes output) news).
        sr_status e = RUN_STATUS_CREATED \<or> sr_id e \<in> run_id ` set (delivered (core s))"
      using news(3) n by (auto simp: finish_in_def finished_run_def)
    ultimately show ?thesis
      using ok fs news(2) finish_repos [OF fin] unfolding store_ok_def
      by (auto simp: with_shared_def finish_in_keys)
  qed
qed

lemma delivered_created:
  assumes "threads_ok s" "places_ok s"
  shows "set (delivered (core s)) \<subseteq> set (created s)"
proof -
  from assms(1) have "delivered (core s) @ srv_runs (shared (core s)) = enqueued (core s)"
    by (simp add: threads_ok_def progress_def)
  then have "set (delivered (core s)) \<subseteq> set (enqueued (core s))" by (metis set_append Un_upper1)
  with assms(2) show ?thesis by (auto simp: places_ok_def)
qed

lemma store_ok_step:
  assumes st: "system_step J s t" and th: "threads_ok s" and pl: "places_ok s" and ok: "store_ok old s"
  shows "store_ok old t"
  using st
proof cases
  case (sys_main c)
  with th have "progress (core s)" by (simp add: threads_ok_def)
  note f = main_step_frame [OF sys_main(2) this]
  from f sys_main show ?thesis by (intro store_ok_frame [OF ok]) auto
next
  case (sys_helper i c)
  with helper_step_frame [OF sys_helper(2)] show ?thesis by (intro store_ok_frame [OF ok]) auto
next
  case (sys_enqueue i x c)
  with helper_step_frame [OF sys_enqueue(3)] show ?thesis
    by (intro store_ok_frame [OF ok]) (auto split: if_splits)
next
  case (sys_insert_repo i x r w)
  with store_insert_repo [OF ok sys_insert_repo(2-4)] show ?thesis by simp
next
  case (sys_find_repo i x r w)
  with store_find_repo [OF ok sys_find_repo(2,3)] show ?thesis by simp
next
  case (sys_insert_run i x k r w)
  with store_insert_run(1) [OF ok sys_insert_run(2-4)] show ?thesis by simp
next
  case (sys_finished i n out r w)
  with store_finished [OF ok sys_finished(4) delivered_created [OF th pl] sys_finished(5,6)]
  show ?thesis by simp
next
  case (sys_listed i r w)
  with listed_moves(2) [OF sys_listed(4)] show ?thesis
    by (intro store_ok_frame [OF ok]) (auto simp: with_shared_def)
qed (auto intro!: store_ok_frame [OF ok] split: if_splits)

section \<open>Places\<close>

text \<open>A step that moves no run keeps the invariant; so do those that move one.\<close>

lemma places_frame:
  assumes "places_ok s" "enqueued (core t) = enqueued (core s)" "created t = created s"
    "stranded t = stranded s" "\<And>i. flight t i = flight s i"
  shows "places_ok t"
  using assms by (simp add: places_ok_def)

lemma outside: "threads_ok s \<Longrightarrow> jobs s i \<noteq> Idle \<Longrightarrow> helpers (core s) i = HIdle"
  by (auto simp: threads_ok_def)

lemma places_frame_job:
  assumes "places_ok s" "enqueued (core t) = enqueued (core s)" "created t = created s"
    "stranded t = stranded s" "helpers (core t) = helpers (core s)" "jobs t = (jobs s)(i := j)"
    "helpers (core s) i = HIdle" "in_flight j HIdle = in_flight (jobs s i) HIdle"
  shows "places_ok t"
  using assms(2-8) by (intro places_frame [OF assms(1)]) (simp_all add: flight_def)

lemma places_ok_step:
  assumes st: "system_step J s t" and th: "threads_ok s" and pl: "places_ok s" and ok: "store_ok old s"
  shows "places_ok t"
  using st
proof cases
  case (sys_main c)
  with th have "progress (core s)" by (simp add: threads_ok_def)
  note f = main_step_frame [OF sys_main(2) this]
  from f sys_main show ?thesis by (intro places_frame [OF pl]) (auto simp: flight_def)
next
  case (sys_helper i c)
  note f = helper_step_frame(3) [OF sys_helper(2)]
  from sys_helper(2) show ?thesis
  proof cases
    case (helper_change op)
    show ?thesis
    proof (cases op)
      case (AddRun x)
      have fl: "flight s i = Some x" "flight t i = None" "\<And>j. j \<noteq> i \<Longrightarrow> flight t j = flight s j"
        using sys_helper helper_change AddRun by (simp_all add: flight_def)
      have e: "enqueued (core t) = enqueued (core s) @ [x]" "created t = created s"
        "stranded t = stranded s"
        using sys_helper helper_change AddRun by simp_all
      show ?thesis
        using pl fl unfolding places_ok_def e
        by (auto; metis option.inject option.distinct(1))
    qed (use sys_helper helper_change in \<open>auto intro!: places_frame [OF pl] simp: flight_def\<close>)
  qed (use sys_helper in \<open>auto intro!: places_frame [OF pl] simp: flight_def split: op.splits\<close>)
next
  case (sys_enqueue i x c)
  have "helpers (core s) i = HIdle" using outside [OF th, of i] sys_enqueue(2) by simp
  with sys_enqueue(3,4) have "enqueued c = enqueued (core s)" by cases auto
  with sys_enqueue helper_step_frame(3) [OF sys_enqueue(3)] show ?thesis
    by (intro places_frame [OF pl]) (auto simp: flight_def)
next
  case (sys_insert_run i x k r w)
  show ?thesis
  proof (cases r)
    case (Inl e)
    with sys_insert_run outside [OF th, of i] show ?thesis
      by (intro places_frame_job [OF pl, of _ i Idle]) (simp_all add: with_shared_def)
  next
    case (Inr n)
    let ?x = "run_set_id x n"
    have new: "?x \<notin> set (created s)"
      using store_insert_run(2) [OF ok sys_insert_run(2-4) Inr] by (force simp: run_accessors)
    have "helpers (core s) i = HIdle" using outside [OF th, of i] sys_insert_run(2) by simp
    then have fl: "flight s i = None" "flight t i = Some ?x" "\<And>j. j \<noteq> i \<Longrightarrow> flight t j = flight s j"
      using sys_insert_run Inr by (simp_all add: flight_def with_shared_def)
    have e: "enqueued (core t) = enqueued (core s)" "created t = created s @ [?x]"
      "stranded t = stranded s"
      using sys_insert_run Inr by (simp_all add: with_shared_def)
    show ?thesis
      using pl fl new unfolding places_ok_def e
      by (auto; metis option.inject option.distinct(1))
  qed
next
  case (sys_lock_fails i x)
  have fl: "flight s i = Some x" "\<And>j. j \<noteq> i \<Longrightarrow> flight t j = flight s j"
    using sys_lock_fails by (simp_all add: flight_def)
  have "flight t i = None"
    using sys_lock_fails outside [OF th, of i] by (simp add: flight_def)
  moreover have e: "enqueued (core t) = enqueued (core s)" "created t = created s"
    "stranded t = stranded s @ [x]"
    using sys_lock_fails by simp_all
  ultimately show ?thesis
    using pl fl unfolding places_ok_def e
    by (auto; metis option.inject option.distinct(1))
next
  case (sys_insert_repo i x r w)
  with outside [OF th, of i] show ?thesis
    by (intro places_frame_job [OF pl, of _ i]) (auto simp: with_shared_def split: sum.split)
next
  case (sys_find_repo i x r w)
  with outside [OF th, of i] show ?thesis
    by (intro places_frame_job [OF pl, of _ i]) (auto simp: with_shared_def split: sum.split)
next
  case (sys_request i x)
  then show ?thesis by (intro places_frame_job [OF pl, of _ i "Inserting x"]) simp_all
qed (auto intro!: places_frame [OF pl] simp: flight_def with_shared_def)

interpretation system_runs: inductive_invariant "system_initial old" "system_step J"
  "\<lambda>s. threads_ok s \<and> store_ok old s \<and> places_ok s"
  for J :: "'j jsonc" and old
proof
  fix s
  assume i: "system_initial old s"
  then have "locking (core s) \<and> progress (core s)"
    by (auto simp: system_initial_def initial_def locking_def progress_def)
  moreover have "flight s i = None" for i
    using i by (simp add: system_initial_def initial_def flight_def)
  ultimately show "threads_ok s \<and> store_ok old s \<and> places_ok s"
    using i by (auto simp: system_initial_def initial_def threads_ok_def store_ok_def places_ok_def)
next
  fix s t
  assume "threads_ok s \<and> store_ok old s \<and> places_ok s" "system_step J s t"
  then show "threads_ok t \<and> store_ok old t \<and> places_ok t"
    using threads_ok_step store_ok_step places_ok_step by blast
qed

section \<open>Properties\<close>

lemma created_entries:
  assumes "store_ok old s"
  obtains news where "entries (stored s) = old @ news"
    "map key_of_entry news = map key_of_run (created s)"
    "\<And>e. e \<in> set news \<Longrightarrow> sr_status e \<noteq> RUN_STATUS_CREATED \<Longrightarrow> sr_id e \<in> run_id ` set (delivered (core s))"
    "distinct (map run_id (created s))"
proof -
  from assms obtain news where news: "entries (stored s) = old @ news"
    "map key_of_entry news = map key_of_run (created s)"
    "\<forall>e \<in> set news. sr_status e = RUN_STATUS_CREATED \<or> sr_id e \<in> run_id ` set (delivered (core s))"
    by (auto simp: store_ok_def)
  have "map sr_id news = map run_id (created s)"
    using arg_cong [OF news(2), of "map fst"] by (simp add: comp_def key_of_entry_def key_of_run_def)
  moreover have "distinct (map sr_id (entries (stored s)))"
    using assms by (intro entries_distinct) (simp add: store_ok_def)
  ultimately have "distinct (map run_id (created s))" using news(1) by simp
  with news show ?thesis using that by blast
qed

lemma enqueued_ids:
  assumes "places_ok s" "distinct (map run_id (created s))"
  shows "distinct (map run_id (enqueued (core s)))" "set (enqueued (core s)) \<subseteq> set (created s)"
proof -
  show sub: "set (enqueued (core s)) \<subseteq> set (created s)" using assms(1) by (auto simp: places_ok_def)
  have "inj_on run_id (set (created s))" using assms(2) by (simp add: distinct_map)
  with sub assms(1) show "distinct (map run_id (enqueued (core s)))"
    by (simp add: distinct_map places_ok_def inj_on_subset)
qed

definition same_run :: "stored_run \<Rightarrow> run \<Rightarrow> bool" where
  "same_run e x \<longleftrightarrow> sr_id e = run_id x \<and> sr_url e = repo_url x \<and> sr_rev e = repo_rev x"

lemma same_run_key: "same_run e x \<longleftrightarrow> key_of_entry e = key_of_run x"
  by (simp add: same_run_def key_of_entry_def key_of_run_def)


text \<open>One connection has stored a run and added it to the queue.\<close>

definition sample_w1 :: server_world where
  "sample_w1 = snd (insert_repo_stmt ''url'' sample_server)"

definition sample_w2 :: server_world where
  "sample_w2 = snd (storage_sqlite_find_repo ''url'' sample_w1)"

definition sample_w3 :: server_world where
  "sample_w3 = snd (storage_sqlite_insert_run 1 ''rev'' sample_w2)"

definition sample_system :: "server_world \<Rightarrow> job \<Rightarrow> run list \<Rightarrow> system" where
  "sample_system w j xs = \<lparr>core = sample_start\<lparr>shared := w\<rparr>, jobs = (\<lambda>_. Idle)(0 := j),
     created = xs, stranded = []\<rparr>"

definition sample_stored :: system where
  "sample_stored = (sample_system sample_w3 Idle [sample_run])\<lparr>core := sample_start\<lparr>
     shared := apply_op (AddRun sample_run) sample_w3, owner := Some (Helper 0),
     helpers := (\<lambda>_. HIdle)(0 := HNotify), enqueued := [sample_run]\<rparr>\<rparr>"

lemma sample_results:
  "insert_repo_stmt ''url'' sample_server = (Inr (), sample_w1)"
  "storage_sqlite_find_repo ''url'' sample_w1 = (Inr 1, sample_w2)"
  "storage_sqlite_insert_run 1 ''rev'' sample_w2 = (Inr 1, sample_w3)"
proof -
  have "fst (insert_repo_stmt ''url'' sample_server) = Inr ()" by code_simp
  moreover have "fst (storage_sqlite_find_repo ''url'' sample_w1) = Inr 1" by code_simp
  moreover have "fst (storage_sqlite_insert_run 1 ''rev'' sample_w2) = Inr 1" by code_simp
  ultimately show "insert_repo_stmt ''url'' sample_server = (Inr (), sample_w1)"
    "storage_sqlite_find_repo ''url'' sample_w1 = (Inr 1, sample_w2)"
    "storage_sqlite_insert_run 1 ''rev'' sample_w2 = (Inr 1, sample_w3)"
    by (simp_all add: sample_w1_def sample_w2_def sample_w3_def prod_eq_iff)
qed

lemma sample_stored_reachable: "reachable (system_initial []) (system_step J) sample_stored"
proof -
  let ?r = "reachable (system_initial []) (system_step J)"
  have x: "run_get_repo_url sample_run = ''url''" "run_get_repo_rev sample_run = ''rev''"
    "run_set_id sample_run 1 = sample_run"
    by (simp_all add: sample_run_def run_accessors)
  have room: "room (sqldb sample_server)" "room (sqldb sample_w2)" by code_simp+
  have "?r (sample_system sample_server Idle [])"
    by (rule start) (simp add: system_initial_def sample_system_def sample_defs initial_def
        fresh_database_ok fun_eq_iff)
  moreover have "system_step J (sample_system sample_server Idle []) (sample_system sample_server (Inserting sample_run) [])"
    using sys_request [of "sample_system sample_server Idle []" 0 J sample_run]
    by (simp add: sample_system_def sample_start_def)
  ultimately have "?r (sample_system sample_server (Inserting sample_run) [])" by (rule further)
  moreover have "system_step J (sample_system sample_server (Inserting sample_run) [])
      (sample_system sample_w1 (Finding sample_run) [])"
    using sys_insert_repo [of "sample_system sample_server (Inserting sample_run) []" 0 sample_run _ sample_w1 J]
      sample_results(1) room(1)
    by (simp add: sample_system_def with_shared_def x)
  ultimately have "?r (sample_system sample_w1 (Finding sample_run) [])" by (rule further)
  moreover have "system_step J (sample_system sample_w1 (Finding sample_run) [])
      (sample_system sample_w2 (Adding sample_run 1) [])"
    using sys_find_repo [of "sample_system sample_w1 (Finding sample_run) []" 0 sample_run _ sample_w2 J]
      sample_results(2)
    by (simp add: sample_system_def with_shared_def x)
  ultimately have "?r (sample_system sample_w2 (Adding sample_run 1) [])" by (rule further)
  moreover have "system_step J (sample_system sample_w2 (Adding sample_run 1) [])
      (sample_system sample_w3 (Enqueueing sample_run) [sample_run])"
    using sys_insert_run [of "sample_system sample_w2 (Adding sample_run 1) []" 0 sample_run 1 _ sample_w3 J]
      sample_results(3) room(2)
    by (simp add: sample_system_def with_shared_def x)
  ultimately have "?r (sample_system sample_w3 (Enqueueing sample_run) [sample_run])" by (rule further)
  moreover define c where "c = sample_start\<lparr>shared := sample_w3, owner := Some (Helper 0),
    helpers := (\<lambda>_. HIdle)(0 := HLocked (AddRun sample_run))\<rparr>"
  have "helper_step 0 (sample_start\<lparr>shared := sample_w3\<rparr>) c"
    using helper_lock [of "sample_start\<lparr>shared := sample_w3\<rparr>" 0 "AddRun sample_run"]
    by (simp add: sample_start_def c_def)
  then have "system_step J (sample_system sample_w3 (Enqueueing sample_run) [sample_run])
      ((sample_system sample_w3 Idle [sample_run])\<lparr>core := c\<rparr>)"
    using sys_enqueue [of "sample_system sample_w3 (Enqueueing sample_run) [sample_run]" 0 sample_run c J]
    by (simp add: sample_system_def c_def)
  ultimately have "?r ((sample_system sample_w3 Idle [sample_run])\<lparr>core := c\<rparr>)" by (rule further)
  moreover have "helper_step 0 c (core sample_stored)"
    using helper_change [of c 0 "AddRun sample_run"]
    by (simp add: c_def sample_stored_def sample_start_def)
  then have "system_step J ((sample_system sample_w3 Idle [sample_run])\<lparr>core := c\<rparr>) sample_stored"
    using sys_helper [of 0 "(sample_system sample_w3 Idle [sample_run])\<lparr>core := c\<rparr>" "core sample_stored" J]
    by (simp add: sample_stored_def sample_system_def)
  ultimately show ?thesis by (rule further)
qed


end
