(* ===== verification/LogThreads.thy ===== *)
theory LogThreads
  imports Log
begin

text \<open>
  Threads that log at the same time. Each thread runs through its calls of the macros of
  \<open>src/log.h\<close> and of \<open>printf\<close>; a step is one operation of one thread on a stream. A stream has a
  lock, which \<open>flockfile\<close> waits for and which an \<open>fprintf\<close> needs too, and the text written to it.
\<close>

section \<open>States and steps\<close>

text \<open>
  A call to come is given with what the clock will say then. \<open>written_by\<close> and \<open>begun\<close> are
  histories: the entries that are complete, with their threads, and what the holder of the lock
  wrote so far.
\<close>

record log_state =
  holder :: "stream \<Rightarrow> nat option"
  content :: "stream \<Rightarrow> string"
  doing :: "nat \<Rightarrow> io list"
  todo :: "nat \<Rightarrow> ((int \<times> int) option \<times> log_call) list"
  written_by :: "stream \<Rightarrow> (nat \<times> string) list"
  begun :: "stream \<Rightarrow> string"

inductive log_step :: "log_lvl \<Rightarrow> log_state \<Rightarrow> log_state \<Rightarrow> bool" for g :: log_lvl where
  log_next: "doing s i = [] \<Longrightarrow> todo s i = (now, c) # cs \<Longrightarrow>
    log_step g s (s\<lparr>doing := (doing s)(i := call_ops g now (int i) c), todo := (todo s)(i := cs)\<rparr>)"
| log_lock: "doing s i = FLock f # ops \<Longrightarrow> holder s f = None \<Longrightarrow>
    log_step g s (s\<lparr>doing := (doing s)(i := ops), holder := (holder s)(f := Some i)\<rparr>)"
| log_put: "doing s i = Put f t # ops \<Longrightarrow> holder s f = Some i \<Longrightarrow>
    log_step g s (s\<lparr>doing := (doing s)(i := ops), content := (content s)(f := content s f @ t),
      begun := (begun s)(f := begun s f @ t)\<rparr>)"
| log_print: "doing s i = Put f t # ops \<Longrightarrow> holder s f = None \<Longrightarrow>
    log_step g s (s\<lparr>doing := (doing s)(i := ops), content := (content s)(f := content s f @ t),
      written_by := (written_by s)(f := written_by s f @ [(i, t)])\<rparr>)"
| log_unlock: "doing s i = FUnlock f # ops \<Longrightarrow> holder s f = Some i \<Longrightarrow>
    log_step g s (s\<lparr>doing := (doing s)(i := ops), holder := (holder s)(f := None),
      written_by := (written_by s)(f := written_by s f @ [(i, begun s f)]),
      begun := (begun s)(f := [])\<rparr>)"

definition log_initial ::
  "(nat \<Rightarrow> ((int \<times> int) option \<times> log_call) list) \<Rightarrow> log_state \<Rightarrow> bool" where
  "log_initial prog s \<longleftrightarrow> holder s = (\<lambda>_. None) \<and> content s = (\<lambda>_. []) \<and> doing s = (\<lambda>_. []) \<and>
     todo s = prog \<and> written_by s = (\<lambda>_. []) \<and> begun s = (\<lambda>_. [])"

inductive_cases log_stepE: "log_step g s t"

section \<open>What a call writes\<close>

fun puts :: "io list \<Rightarrow> string" where
  "puts [] = []"
| "puts (Put f t # ops) = t @ puts ops"
| "puts (_ # ops) = puts ops"

fun call_stream :: "log_call \<Rightarrow> stream" where
  "call_stream (LogDebug text) = Stdout"
| "call_stream (LogInfo text) = Stdout"
| "call_stream (LogErr at text) = Stderr"
| "call_stream (LogErrno at fn reason) = Stderr"
| "call_stream (Printf dest text) = dest"

text \<open>The entry of thread \<open>i\<close> that a call leaves in stream \<open>f\<close>, if it leaves one there.\<close>

definition entries_of ::
  "log_lvl \<Rightarrow> nat \<Rightarrow> stream \<Rightarrow> (int \<times> int) option \<times> log_call \<Rightarrow> string list" where
  "entries_of g i f e =
     (if call_stream (snd e) = f \<and> call_ops g (fst e) (int i) (snd e) \<noteq> []
      then [puts (call_ops g (fst e) (int i) (snd e))] else [])"

definition thread_entries ::
  "log_lvl \<Rightarrow> nat \<Rightarrow> stream \<Rightarrow> ((int \<times> int) option \<times> log_call) list \<Rightarrow> string list" where
  "thread_entries g i f es = concat (map (entries_of g i f) es)"

text \<open>A macro is skipped, or locks its stream, writes to it and unlocks it; \<open>printf\<close> writes once.\<close>

definition whole_entry :: "stream \<Rightarrow> io list \<Rightarrow> bool" where
  "whole_entry f ops \<longleftrightarrow> (\<exists>ts. ops = FLock f # map (Put f) ts @ [FUnlock f])"

lemma log_entry_shape:
  assumes "\<exists>ts. middle = map (Put f) ts"
  shows "log_entry g now tid lvl f middle = [] \<or> whole_entry f (log_entry g now tid lvl f middle)"
proof -
  obtain us where us: "log_prefix_timestamp now f = map (Put f) us"
    by (cases "now"; cases "gmtime_r (fst (the now))")
      (auto simp: log_prefix_timestamp_def Let_def map_eq_Cons_conv intro: that [of "[]"] that [of "[_]"])
  from assms obtain ts where ts: "middle = map (Put f) ts" ..
  have "log_prefix_timestamp now f @ log_prefix_thread_id tid f @ middle =
      map (Put f) (us @ [decimal tid @ '' | ''] @ ts)"
    by (simp add: us ts log_prefix_thread_id_def)
  then obtain vs where
    "log_prefix_timestamp now f @ log_prefix_thread_id tid f @ middle = map (Put f) vs" by blast
  then show ?thesis
    by (auto simp: whole_entry_def log_entry_def log_entry_start_def log_entry_end_def)
qed

lemma puts_only:
  "\<exists>ts. [Put f t] = map (Put f) ts" "\<exists>ts. [Put f t, Put f u] = map (Put f) ts"
  by (rule exI [of _ "[t]"], simp) (rule exI [of _ "[t, u]"], simp)

lemma call_ops_shape:
  "call_ops g now tid c = [] \<or> whole_entry (call_stream c) (call_ops g now tid c) \<or>
     (\<exists>t. call_ops g now tid c = [Put (call_stream c) t])"
  by (cases c)
    (simp_all add: log_entry_shape puts_only log_err_file_loc_def perror_def
      flip: disj_assoc del: list.map)

section \<open>The invariant\<close>

text \<open>
  A thread is between two calls, about to start an entry, about to print, or in the middle of an
  entry, and then it holds the lock of that stream and no other.
\<close>

definition free_of :: "log_state \<Rightarrow> nat \<Rightarrow> bool" where
  "free_of s i \<longleftrightarrow> (\<forall>f. holder s f \<noteq> Some i)"

definition in_phase :: "log_state \<Rightarrow> nat \<Rightarrow> bool" where
  "in_phase s i \<longleftrightarrow>
     (doing s i = [] \<and> free_of s i) \<or>
     ((\<exists>f. whole_entry f (doing s i)) \<and> free_of s i) \<or>
     ((\<exists>f t. doing s i = [Put f t]) \<and> free_of s i) \<or>
     (\<exists>f ts. doing s i = map (Put f) ts @ [FUnlock f] \<and> (\<forall>h. holder s h = Some i \<longleftrightarrow> h = f))"

text \<open>The entry a thread is writing, from what it has written and what it will.\<close>

fun io_stream :: "io \<Rightarrow> stream" where
  "io_stream (FLock f) = f"
| "io_stream (Put f t) = f"
| "io_stream (FUnlock f) = f"

definition current :: "log_state \<Rightarrow> nat \<Rightarrow> stream \<Rightarrow> string list" where
  "current s i f =
     (if doing s i \<noteq> [] \<and> io_stream (hd (doing s i)) = f
      then [(if holder s f = Some i then begun s f else []) @ puts (doing s i)] else [])"

definition by_thread :: "nat \<Rightarrow> (nat \<times> string) list \<Rightarrow> string list" where
  "by_thread i es = map snd (filter (\<lambda>e. fst e = i) es)"

definition stream_ok :: "log_state \<Rightarrow> stream \<Rightarrow> bool" where
  "stream_ok s f \<longleftrightarrow> content s f = concat (map snd (written_by s f)) @ begun s f \<and>
     (holder s f = None \<longrightarrow> begun s f = [])"

definition accounted ::
  "log_lvl \<Rightarrow> (nat \<Rightarrow> ((int \<times> int) option \<times> log_call) list) \<Rightarrow> log_state \<Rightarrow> nat \<Rightarrow> stream \<Rightarrow> bool" where
  "accounted g prog s i f \<longleftrightarrow>
     by_thread i (written_by s f) @ current s i f @ thread_entries g i f (todo s i) =
     thread_entries g i f (prog i)"

definition log_ok ::
  "log_lvl \<Rightarrow> (nat \<Rightarrow> ((int \<times> int) option \<times> log_call) list) \<Rightarrow> log_state \<Rightarrow> bool" where
  "log_ok g prog s \<longleftrightarrow>
     (\<forall>i. in_phase s i) \<and> (\<forall>f. stream_ok s f) \<and> (\<forall>i f. accounted g prog s i f)"

lemma by_thread_simps [simp]:
  "by_thread i [] = []" "by_thread i (es @ fs) = by_thread i es @ by_thread i fs"
  "by_thread i [(j, t)] = (if j = i then [t] else [])"
  by (simp_all add: by_thread_def)

lemma puts_append [simp]: "puts (xs @ ys) = puts xs @ puts ys"
  by (induction xs rule: puts.induct) simp_all

lemma puts_map_Put [simp]: "puts (map (Put f) ts) = concat ts"
  by (induction ts) simp_all

lemma phase_lock:
  assumes "in_phase s i" "doing s i = FLock f # ops"
  obtains ts where "free_of s i" "ops = map (Put f) ts @ [FUnlock f]"
  using assms by (auto simp: in_phase_def whole_entry_def Cons_eq_append_conv Cons_eq_map_conv)

lemma phase_put:
  assumes "in_phase s i" "doing s i = Put f t # ops"
  obtains (inside) ts where "ops = map (Put f) ts @ [FUnlock f]" "\<And>h. holder s h = Some i \<longleftrightarrow> h = f"
    | (alone) "ops = []" "free_of s i"
  using assms
  by (auto simp: in_phase_def whole_entry_def Cons_eq_append_conv Cons_eq_map_conv)

lemma phase_unlock:
  assumes "in_phase s i" "doing s i = FUnlock f # ops"
  shows "ops = []" "\<And>h. holder s h = Some i \<longleftrightarrow> h = f"
  using assms by (auto simp: in_phase_def whole_entry_def Cons_eq_append_conv Cons_eq_map_conv)

lemma in_phase_cong:
  "doing t j = doing s j \<Longrightarrow> (\<And>f. holder t f = Some j \<longleftrightarrow> holder s f = Some j) \<Longrightarrow>
     in_phase t j \<longleftrightarrow> in_phase s j"
  by (simp add: in_phase_def free_of_def)

lemma in_phase_inside:
  "doing s i = map (Put f) ts @ [FUnlock f] \<Longrightarrow> (\<And>h. holder s h = Some i \<longleftrightarrow> h = f) \<Longrightarrow> in_phase s i"
  unfolding in_phase_def by blast

lemma log_phases_step:
  assumes "log_step g s t" "\<forall>i. in_phase s i"
  shows "in_phase t j"
  using assms(1)
proof cases
  case (log_next i now c cs)
  have "in_phase s i" using assms(2) by blast
  with log_next(2) have "free_of s i" by (auto simp: in_phase_def)
  with assms(2) log_next call_ops_shape [of g "now" "int i" c] show ?thesis
    by (cases "j = i") (auto simp: in_phase_def free_of_def)
next
  case (log_lock i f ops)
  show ?thesis
  proof (cases "j = i")
    case True
    have "in_phase s i" using assms(2) by blast
    from phase_lock [OF this log_lock(2)] obtain ts where
      "free_of s i" "ops = map (Put f) ts @ [FUnlock f]" .
    with True log_lock show ?thesis by (intro in_phase_inside) (auto simp: free_of_def)
  qed (use assms(2) log_lock in \<open>subst in_phase_cong [of _ _ s]; auto\<close>)
next
  case (log_put i f u ops)
  show ?thesis
  proof (cases "j = i")
    case True
    have "in_phase s i" using assms(2) by blast
    then show ?thesis
      using log_put(2)
    proof (cases rule: phase_put)
      case (inside ts)
      with True log_put show ?thesis by (intro in_phase_inside) auto
    next
      case alone
      with log_put(3) show ?thesis by (simp add: free_of_def)
    qed
  qed (use assms(2) log_put in \<open>subst in_phase_cong [of _ _ s]; auto\<close>)
next
  case (log_print i f u ops)
  show ?thesis
  proof (cases "j = i")
    case True
    have "in_phase s i" using assms(2) by blast
    then show ?thesis
      using log_print(2)
    proof (cases rule: phase_put)
      case (inside ts)
      with log_print(3) show ?thesis by (metis option.distinct(1))
    next
      case alone
      with True log_print show ?thesis by (simp add: in_phase_def free_of_def)
    qed
  qed (use assms(2) log_print in \<open>subst in_phase_cong [of _ _ s]; auto\<close>)
next
  case (log_unlock i f ops)
  have p: "in_phase s i" using assms(2) by blast
  note q = phase_unlock [OF p log_unlock(2)]
  show ?thesis
  proof (cases "j = i")
    case True
    with q log_unlock show ?thesis by (auto simp: in_phase_def free_of_def)
  qed (use assms(2) log_unlock in \<open>subst in_phase_cong [of _ _ s]; auto\<close>)
qed

lemma stream_ok_step:
  assumes "log_step g s t" "\<forall>f. stream_ok s f"
  shows "stream_ok t f"
  using assms(1)
proof cases
  case (log_print i h u ops)
  have "stream_ok s h" "stream_ok s f" using assms(2) by blast+
  with log_print show ?thesis by (auto simp: stream_ok_def)
qed (use assms(2) in \<open>auto simp: stream_ok_def\<close>)

lemma thread_entries_Cons:
  "thread_entries g i f (e # es) = entries_of g i f e @ thread_entries g i f es"
  by (simp add: thread_entries_def)

lemma current_call:
  assumes "doing t i = call_ops g now (int i) c" "free_of t i"
  shows "current t i f = entries_of g i f (now, c)"
  using call_ops_shape [of g "now" "int i" c] assms
  by (auto simp: current_def entries_of_def whole_entry_def free_of_def)

lemma accounted_cong:
  assumes "doing t j = doing s j" "todo t j = todo s j"
    "by_thread j (written_by t h) = by_thread j (written_by s h)"
    "holder t h = Some j \<longleftrightarrow> holder s h = Some j" "holder s h = Some j \<Longrightarrow> begun t h = begun s h"
  shows "accounted g prog t j h \<longleftrightarrow> accounted g prog s j h"
  using assms by (simp add: accounted_def current_def)

lemma hd_puts: "io_stream (hd (map (Put f) ts @ [FUnlock f])) = f"
  by (cases ts) simp_all

lemma accounted_step:
  assumes "log_step g s t" "\<forall>i. in_phase s i" "accounted g prog s j h"
    and ok: "\<forall>f. stream_ok s f"
  shows "accounted g prog t j h"
  using assms(1)
proof cases
  case (log_next i now c cs)
  have "in_phase s i" using assms(2) by blast
  with log_next(2) have fr: "free_of s i" by (auto simp: in_phase_def)
  show ?thesis
  proof (cases "j = i")
    case True
    have "current t i h = entries_of g i h (now, c)"
      using fr log_next(1) by (intro current_call) (auto simp: free_of_def)
    moreover have "current s i h = []" using log_next(2) by (simp add: current_def)
    ultimately show ?thesis
      using assms(3) log_next True by (simp add: accounted_def thread_entries_Cons)
  qed (use assms(3) log_next in \<open>subst accounted_cong [of _ _ s]; simp\<close>)
next
  case (log_lock i f ops)
  show ?thesis
  proof (cases "j = i")
    case True
    have p: "in_phase s i" using assms(2) by blast
    from phase_lock [OF p log_lock(2)] obtain ts where
      q: "free_of s i" "ops = map (Put f) ts @ [FUnlock f]" .
    have "begun s f = []" using ok log_lock(3) by (simp add: stream_ok_def)
    then have "current t i h = current s i h"
      using q log_lock by (cases "h = f") (auto simp: current_def free_of_def hd_puts)
    with True log_lock assms(3) show ?thesis by (simp add: accounted_def)
  qed (use assms(3) log_lock in \<open>subst accounted_cong [of _ _ s]; simp\<close>)
next
  case (log_put i f u ops)
  show ?thesis
  proof (cases "j = i")
    case True
    have "in_phase s i" using assms(2) by blast
    then have "current t i h = current s i h"
      using log_put(2)
    proof (cases rule: phase_put)
      case (inside ts)
      with log_put show ?thesis by (cases "h = f") (simp_all add: current_def hd_puts)
    next
      case alone
      with log_put(3) show ?thesis by (simp add: free_of_def)
    qed
    with True log_put assms(3) show ?thesis by (simp add: accounted_def)
  qed (use assms(3) log_put in \<open>subst accounted_cong [of _ _ s]; auto\<close>)
next
  case (log_print i f u ops)
  show ?thesis
  proof (cases "j = i")
    case True
    have "in_phase s i" using assms(2) by blast
    then show ?thesis
      using log_print(2)
    proof (cases rule: phase_put)
      case (inside ts)
      with log_print(3) show ?thesis by (metis option.distinct(1))
    next
      case alone
      with True log_print assms(3) show ?thesis
        by (cases "h = f") (simp_all add: accounted_def current_def free_of_def)
    qed
  qed (use assms(3) log_print in \<open>subst accounted_cong [of _ _ s]; simp\<close>)
next
  case (log_unlock i f ops)
  have p: "in_phase s i" using assms(2) by blast
  note q = phase_unlock [OF p log_unlock(2)]
  show ?thesis
  proof (cases "j = i")
    case True
    with q log_unlock assms(3) show ?thesis
      by (cases "h = f") (simp_all add: accounted_def current_def)
  qed (use assms(3) log_unlock in \<open>subst accounted_cong [of _ _ s]; auto\<close>)
qed

interpretation logging: inductive_invariant "log_initial prog" "log_step g" "log_ok g prog"
  for g :: log_lvl and prog
proof
  fix s
  assume "log_initial prog s"
  then show "log_ok g prog s"
    by (simp add: log_initial_def log_ok_def in_phase_def free_of_def stream_ok_def accounted_def
        current_def)
next
  fix s t
  assume "log_ok g prog s" "log_step g s t"
  then show "log_ok g prog t"
    using log_phases_step stream_ok_step accounted_step unfolding log_ok_def by blast
qed

section \<open>Properties\<close>

lemma holder_inside:
  assumes "in_phase s i" "holder s f = Some i"
  obtains ts where "doing s i = map (Put f) ts @ [FUnlock f]"
  using assms by (auto simp: in_phase_def free_of_def)

lemma begun_entry:
  assumes "log_ok g prog s" "holder s f = Some j"
  shows "\<exists>more rest. thread_entries g j f (prog j) = by_thread j (written_by s f) @ (begun s f @ more) # rest"
proof -
  have p: "in_phase s j" and a: "accounted g prog s j f" using assms(1) by (simp_all add: log_ok_def)
  from holder_inside [OF p assms(2)] obtain ts where "doing s j = map (Put f) ts @ [FUnlock f]" .
  then have "current s j f = [begun s f @ concat ts]" by (simp add: current_def hd_puts assms(2))
  with a show ?thesis by (metis accounted_def append_Cons append_Nil)
qed

text \<open>A thread inside an entry never waits, so nobody waits for ever.\<close>

lemma log_progress:
  assumes "log_ok g prog s" "doing s i \<noteq> [] \<or> todo s i \<noteq> []"
  shows "\<exists>t. log_step g s t"
proof (cases "\<exists>f j. holder s f = Some j")
  case True
  then obtain f j where h: "holder s f = Some j" by blast
  have "in_phase s j" using assms(1) by (simp add: log_ok_def)
  from holder_inside [OF this h] obtain ts where "doing s j = map (Put f) ts @ [FUnlock f]" .
  with h show ?thesis by (cases ts) (auto intro: log_put log_unlock)
next
  case False
  then have free: "\<And>f. holder s f = None" by auto
  have "in_phase s i" using assms(1) by (simp add: log_ok_def)
  with free have "doing s i = [] \<or> (\<exists>f ops. doing s i = FLock f # ops) \<or> (\<exists>f t. doing s i = [Put f t])"
    by (auto simp: in_phase_def whole_entry_def)
  then show ?thesis
    using assms(2) free by (cases "todo s i") (auto intro: log_next log_lock log_print)
qed

lemma all_written:
  assumes "log_ok g prog s" and fin: "\<And>j. doing s j = [] \<and> todo s j = []"
  shows "begun s f = [] \<and> by_thread i (written_by s f) = thread_entries g i f (prog i)"
proof -
  have str: "stream_ok s f" and acc: "accounted g prog s i f" and ph: "\<And>j. in_phase s j"
    using assms(1) by (simp_all add: log_ok_def)
  have "holder s f \<noteq> Some j" for j
    using fin [of j] by (auto elim: holder_inside [OF ph])
  then have "holder s f = None" by (cases "holder s f") auto
  with str acc fin show ?thesis
    by (simp add: stream_ok_def accounted_def current_def thread_entries_def)
qed

text \<open>C30: Threads that log at the same time never mix their entries. Whatever the interleaving, a
  stream holds whole entries one after the other, followed by at most the beginning of one entry,
  which is the next one of the thread that holds the lock of the stream; the entries of every
  thread are there in the order of its calls, and only of calls at or above the chosen level; no
  thread waits for ever for a lock, and when all are done, every entry has been written.\<close>

theorem log_entries_whole:
  assumes "reachable (log_initial prog) (log_step g) s"
  shows "content s f = concat (map snd (written_by s f)) @ begun s f \<and>
    (\<exists>rest. by_thread i (written_by s f) @ rest = thread_entries g i f (prog i)) \<and>
    (begun s f = [] \<or> (\<exists>j more rest. holder s f = Some j \<and>
       thread_entries g j f (prog j) = by_thread j (written_by s f) @ (begun s f @ more) # rest)) \<and>
    ((\<exists>t. log_step g s t) \<or>
       begun s f = [] \<and> by_thread i (written_by s f) = thread_entries g i f (prog i))"
proof -
  from logging.holds [OF assms] have ok: "log_ok g prog s" .
  then have str: "stream_ok s f" and acc: "accounted g prog s i f" by (simp_all add: log_ok_def)
  have "(\<exists>t. log_step g s t) \<or>
      begun s f = [] \<and> by_thread i (written_by s f) = thread_entries g i f (prog i)"
    using log_progress [OF ok] all_written [OF ok] by blast
  then show ?thesis
    using str acc begun_entry [OF ok]
    by (cases "holder s f") (auto simp: stream_ok_def accounted_def)
qed

text \<open>Two threads log; the first has written its number, the second waits.\<close>

definition sample_prog :: "nat \<Rightarrow> ((int \<times> int) option \<times> log_call) list" where
  "sample_prog i = (if i < 2 then [(None, LogInfo ''hello''), (None, LogDebug ''dropped'')] else [])"

definition sample_ops :: "nat \<Rightarrow> io list" where
  "sample_ops i = [FLock Stdout, Put Stdout (decimal (int i) @ '' | ''), Put Stdout ''hello'', FUnlock Stdout]"

definition sample_log :: log_state where
  "sample_log = \<lparr>holder = (\<lambda>_. None)(Stdout := Some 0), content = (\<lambda>_. [])(Stdout := ''0 | ''),
     doing = (\<lambda>_. [])(0 := drop 2 (sample_ops 0), 1 := sample_ops 1),
     todo = sample_prog(0 := [(None, LogDebug ''dropped'')], 1 := [(None, LogDebug ''dropped'')]),
     written_by = (\<lambda>_. []), begun = (\<lambda>_. [])(Stdout := ''0 | '')\<rparr>"

lemma sample_call: "call_ops LOG_LVL_INFO None (int i) (LogInfo ''hello'') = sample_ops i"
  by (simp add: sample_ops_def log_entry_def log_entry_start_def log_entry_end_def
      log_prefix_timestamp_def log_prefix_thread_id_def)

lemma sample_number: "decimal 0 = ''0''"
  by code_simp

lemma sample_log_reachable: "reachable (log_initial sample_prog) (log_step LOG_LVL_INFO) sample_log"
proof -
  let ?r = "reachable (log_initial sample_prog) (log_step LOG_LVL_INFO)"
  define s0 where "s0 = \<lparr>holder = (\<lambda>_. None), content = (\<lambda>_. []), doing = (\<lambda>_. []), todo = sample_prog,
    written_by = (\<lambda>_. []), begun = (\<lambda>_. [])\<rparr>"
  have "?r s0" by (rule start) (simp add: log_initial_def s0_def)
  moreover define s1 where "s1 = s0\<lparr>doing := (doing s0)(0 := sample_ops 0),
    todo := (todo s0)(0 := [(None, LogDebug ''dropped'')])\<rparr>"
  have "log_step LOG_LVL_INFO s0 s1"
    using log_next [of s0 0 None "LogInfo ''hello''" "[(None, LogDebug ''dropped'')]" LOG_LVL_INFO]
      sample_call [of 0]
    by (simp add: s0_def s1_def sample_prog_def)
  ultimately have "?r s1" by (rule further)
  moreover define s2 where "s2 = s1\<lparr>doing := (doing s1)(1 := sample_ops 1),
    todo := (todo s1)(1 := [(None, LogDebug ''dropped'')])\<rparr>"
  have "log_step LOG_LVL_INFO s1 s2"
    using log_next [of s1 1 None "LogInfo ''hello''" "[(None, LogDebug ''dropped'')]" LOG_LVL_INFO]
      sample_call [of 1]
    by (simp add: s0_def s1_def s2_def sample_prog_def)
  ultimately have "?r s2" by (rule further)
  moreover define s3 where "s3 = s2\<lparr>doing := (doing s2)(0 := drop 1 (sample_ops 0)),
    holder := (holder s2)(Stdout := Some 0)\<rparr>"
  have "log_step LOG_LVL_INFO s2 s3"
    using log_lock [of s2 0 Stdout "drop 1 (sample_ops 0)" LOG_LVL_INFO]
    by (simp add: s0_def s1_def s2_def s3_def sample_ops_def)
  ultimately have "?r s3" by (rule further)
  moreover have "log_step LOG_LVL_INFO s3 sample_log"
  proof -
    have "doing s3 0 = Put Stdout ''0 | '' # drop 2 (sample_ops 0)" "holder s3 Stdout = Some 0"
      by (simp_all add: s3_def sample_ops_def sample_number)
    moreover have "sample_log = s3\<lparr>doing := (doing s3)(0 := drop 2 (sample_ops 0)),
        content := (content s3)(Stdout := content s3 Stdout @ ''0 | ''),
        begun := (begun s3)(Stdout := begun s3 Stdout @ ''0 | '')\<rparr>"
      by (simp add: s0_def s1_def s2_def s3_def sample_log_def fun_eq_iff)
    ultimately show ?thesis by (metis log_put)
  qed
  ultimately show ?thesis by (rule further)
qed

theorem log_entries_whole_witness:
  "content sample_log Stdout = ''0 | '' \<and>
     (\<exists>more rest. thread_entries LOG_LVL_INFO 0 Stdout (sample_prog 0) = (''0 | '' @ more) # rest)"
proof -
  have "content sample_log Stdout = ''0 | ''" by (simp add: sample_log_def)
  moreover have "begun sample_log Stdout = ''0 | ''" "holder sample_log Stdout = Some 0"
    "written_by sample_log Stdout = []" by (simp_all add: sample_log_def)
  ultimately show ?thesis
    using log_entries_whole [OF sample_log_reachable, of Stdout 0] by auto
qed

end
