(* ===== verification/Spec2Isabelle.thy ===== *)
theory Spec2Isabelle
  imports Programs StoreThreads LogThreads
begin

text \<open>
  Cimple, a small CI system in C: \<^verbatim>\<open>cimple-client\<close> asks \<^verbatim>\<open>cimple-server\<close> to run a revision of a repository;
  the server stores the run in an SQLite database and queues it; a \<^verbatim>\<open>cimple-worker\<close> that has asked for work gets
  the run, clones the repository, runs its CI script, and sends the exit code and the output back, which the
  server stores. The programs talk JSON-RPC 2.0, one length-prefixed message at a time. All sources are under
  \<open>src/\<close>.

  \<^bold>\<open>How C is modelled.\<close> A C function is a function from a state to a result and a state. The state is a
  record \<open>world\<close> (\<open>Prelude\<close>) that each component extends by its own fields: the answers the kernel, the
  allocator and the libraries will give, in call order (the theorems hold for all lists, so for every
  combination of failures); what the peers will still send on each descriptor; a trace. A fallible function
  returns \<open>int + 'a\<close>: \<open>Inl\<close> is a negative \<open>int\<close>, \<open>Inr\<close> success. \<open>bindE\<close> is the early return, \<open>onErr\<close> and
  \<open>or_goto\<close> a clean-up label, \<open>after\<close> a label that success reaches too. The trace records what is taken,
  given back, sent and printed, and every step C leaves undefined (a null or freed pointer followed, a read
  past a buffer). From it \<open>bal\<close> counts what is still held, so that leaks and double frees are statements
  about a number, and \<open>undef\<close> lists the undefined steps. Machine integers are words where they are masked or
  cut (\<open>16 word\<close> events, \<open>32 word\<close> lengths), and integers otherwise; \<open>int32\<close> is C's conversion to \<open>int\<close>,
  written out wherever the code narrows.

  \<^bold>\<open>Theories and sources.\<close>
  \<^item> \<open>Prelude\<close>: the world, sequencing, weakest preconditions, and the contracts \<open>takes\<close>, \<open>yields\<close> (a
    constructor: all or nothing) and \<open>gives_back\<close> (a destructor), with their rules along the code.
  \<^item> \<open>File\<close> (\<^verbatim>\<open>file.c\<close>), \<open>Strings\<close> (\<^verbatim>\<open>string.c\<close>), \<open>Signals\<close> (\<^verbatim>\<open>signal.c\<close>), \<open>Net\<close> (\<^verbatim>\<open>buf.c\<close>, \<^verbatim>\<open>net.c\<close>).
  \<^item> \<open>Json\<close> (\<^verbatim>\<open>json.c\<close>), \<open>JsonRpc\<close> (\<^verbatim>\<open>json_rpc.c\<close>), \<open>Protocol\<close> (\<^verbatim>\<open>protocol.c\<close>, \<^verbatim>\<open>base64.c\<close> and the output
    of \<^verbatim>\<open>process.c\<close>): messages, what is accepted, what is built.
  \<^item> \<open>Queues\<close> (\<^verbatim>\<open>run_queue.c\<close>, \<^verbatim>\<open>worker_queue.c\<close>), with the locale \<open>fifo_queue\<close> for both.
  \<^item> \<open>Command\<close> (\<^verbatim>\<open>command.c\<close>): the dispatcher; the locale \<open>command_set\<close> is its contract with a table of
    commands, interpreted for the server's and the worker's.
  \<^item> \<open>Sqlite\<close> (\<^verbatim>\<open>sqlite.c\<close> and the SQL statements as functions on tables), \<open>Storage\<close> (\<^verbatim>\<open>storage.c\<close>,
    \<^verbatim>\<open>storage_sqlite.c\<close>), \<open>RunStore\<close> (the abstract store of runs, a locale), \<open>DbStore\<close> (the refinement).
  \<^item> \<open>EventLoop\<close> (\<^verbatim>\<open>event_loop.c\<close>; the locale \<open>event_handlers\<close>), \<open>TcpServer\<close> (\<^verbatim>\<open>tcp_server.c\<close>), \<open>TcpSystem\<close>:
    its rounds interleaved with the threads of its clients, as a transition system.
  \<^item> \<open>Server\<close>, \<open>ServerCommands\<close>, \<open>ServerThreads\<close>, \<open>ServerMain\<close>, \<open>ServerLife\<close> (\<^verbatim>\<open>server.c\<close>): the state and
    the command handlers; what they achieve when nothing fails; the threads with mutex and condition
    variable as interleaved steps; creation, listening and destruction; what these keep. \<open>StoreThreads\<close>: the
    same threads with the statements of the database between them.
  \<^item> \<open>Process\<close> (\<^verbatim>\<open>process.c\<close>), \<open>Ci\<close> (\<^verbatim>\<open>ci.c\<close>, \<^verbatim>\<open>git.c\<close>, and the directory functions of \<^verbatim>\<open>file.c\<close>).
  \<^item> \<open>Log\<close>, \<open>LogThreads\<close> (\<^verbatim>\<open>log.c\<close>, \<^verbatim>\<open>log.h\<close>): what an entry looks like, and threads that log at the
    same time; \<open>Transitions\<close>: reachable states and invariants, for all the transition systems here.
  \<^item> \<open>Lifecycle\<close>: chains of clean-up labels, shared by the server and the worker.
  \<^item> \<open>Worker\<close>, \<open>WorkerRuns\<close>, \<open>WorkerLife\<close> (\<^verbatim>\<open>worker.c\<close>), \<open>Client\<close> (\<^verbatim>\<open>client.c\<close>), \<open>CmdLine\<close>
    (\<^verbatim>\<open>cmd_line.c\<close> and the option parsing of the three mains).
  \<^item> \<open>EndToEnd\<close>: programs that read what the others send. \<open>Programs\<close>: the three mains.
  \<^item> \<open>Samples\<close>: a concrete json-c and libsodium, on which the theorems are applied to concrete inputs.

  \<^bold>\<open>What is shown.\<close> Each constructor is all or nothing, each destructor gives back what it should, and both
  compose to the creation and destruction of server, worker and client. Each loop over partial reads
  and writes returns all or nothing, and a message arrives as it was sent. Whatever is sent to it, a connection
  is served without undefined steps or leaks, and a valid request gets one valid response. The database
  refines a list of runs. However the threads interleave, no run is lost, no wake-up is missed, the queue and
  the database agree, log entries stay whole, and the signal to stop ends the threads. A run queued by a client is stored and queued; a run handed to a worker ends in the
  database with its exit code and output. The properties are numbered \<open>C1\<close> to \<open>C40\<close>; some state a defect of
  the code: where a clean-up forgets or repeats something, the theorem says exactly that.

  \<^bold>\<open>Loops and bounds.\<close> Reading, writing and growing loops terminate by the bytes left, by termination proofs. The
  loops that run until they are told to stop (\<open>server_listen_thread\<close>, \<open>worker_main\<close>) take a list with one
  element per time around, which is what \<open>poll\<close> reports, peers send and other threads do meanwhile; the result
  is \<open>None\<close> while the list is too short, and the stop theorems say when it is not. The threads of the server
  are step relations without any bound.

  \<^bold>\<open>Parameters.\<close> json-c (\<open>jsonc\<close>, with its documented laws \<open>jsonc_ok\<close>, and \<open>wire_ok\<close> for a value that survives
  printing and parsing), libsodium (\<open>sodium\<close>, \<open>sodium_ok\<close>), \<open>getaddrinfo\<close>, \<open>getopt_long\<close>, the contents of
  revisions and of directories, and what the build writes into \<^verbatim>\<open>const.c\<close>.

  \<^bold>\<open>Not modelled.\<close> Which entries the components log: logging changes nothing they work on, and \<open>LogThreads\<close>
  covers any calls of its macros. In the server, a handler of a connection runs as one step, except for its
  critical sections and its statements, which \<open>ServerThreads\<close> and \<open>StoreThreads\<close> interleave; memory is not
  shared below that. \<open>pthread_cond_wait\<close> on a mutex that is held does not fail. Descriptors are counted in all
  but the command handlers, which pass them on. The tests, the scripts and the packaging are not part of the C
  programs.
\<close>

section \<open>Connections\<close>

text \<open>C3: When no call fails, every valid request that reaches the server is taken off the
  connection whole and, if it has an id, gets exactly one well-formed reply that carries this id
  and is an error if the command failed; a notification gets nothing.\<close>

theorem request_answered:
  fixes w :: "'z server_world_scheme"
  assumes "cmd_dispatcher_handle_conn J fd \<lparr>disp_cmds = server_commands J S, disp_ctx = c\<rparr> w = (r, t)"
    and "jsonc_ok J" "reliable w" "db_wf (sqldb w)"
    and "wire_ok J v" "valid_request J v" "rx w fd = message J v @ rest"
  shows "rx t fd = rest \<and>
    (case object_get_ex J v ''id'' of
       None \<Rightarrow> sent fd (trace t) = sent fd (trace w)
     | Some i \<Rightarrow> \<exists>p. reply_to J i p \<and> (\<not> is_ok r \<longrightarrow> jsonrpc_response_is_error J p) \<and>
         sent fd (trace t) = sent fd (trace w) @ message J (resp_impl p))"
  using server.handle_conn_delivered [OF assms(1) _ assms(3,5,6,7,2)] assms(4)
  by (simp add: server_ledger)

theorem request_answered_witness:
  "\<exists>p. reply_to sample_json (JInt 7) p \<and>
     sent 5 (trace (snd (cmd_dispatcher_handle_conn sample_json 5
       \<lparr>disp_cmds = server_commands sample_json sample_sodium, disp_ctx = ()\<rparr>
       (serving sample_queue_run)))) = message sample_json (resp_impl p)"
proof -
  let ?run = "cmd_dispatcher_handle_conn sample_json 5
    \<lparr>disp_cmds = server_commands sample_json sample_sodium, disp_ctx = ()\<rparr> (serving sample_queue_run)"
  obtain r t where rt: "?run = (r, t)" by (cases ?run)
  from request_answered [OF rt sample_json_ok serving_facts(2,4) sample_queue_run(1,2) serving_facts(8)]
  obtain p where "reply_to sample_json (JInt 7) p"
    "sent 5 (trace t) = message sample_json (resp_impl p)"
    by (auto simp: sample_queue_run(3) serving_facts(11))
  then show ?thesis by (auto simp: rt)
qed



text \<open>A request for a method the server does not have is answered with the prepared error,
  code -1, under the id of the request, and the call returns -1.\<close>

theorem unknown_command_refused:
  fixes w :: "'z server_world_scheme"
  assumes "cmd_dispatcher_handle_conn J fd \<lparr>disp_cmds = server_commands J S, disp_ctx = c\<rparr> w = (r, t)"
    and "jsonc_ok J" "lucky w" "wire_ok J v" "valid_request J v" "rx w fd = message J v @ rest"
    and "object_get_ex J v ''id'' = Some i" "object_get_ex J v ''method'' = Some m"
    and "get_string J m \<notin> {''new-worker'', ''queue-run'', ''finished-run'', ''get-runs''}"
  shows "r = Inl (-1) \<and> rx t fd = rest \<and>
    sent fd (trace t) = sent fd (trace w) @ message J (response_object J i None
      (Some (error_object J (-1) ''An error occured'')))"
proof -
  have "get_string J m \<notin> cmd_name ` set (server_commands J S :: ('a, 'b cmd_conn_ctx, 'z server_world_scheme) cmd_desc list)"
    using assms(9) by (simp add: server_commands_def)
  from unknown_command_lucky [OF assms(2,3,4,5,6,7,8) this assms(1)] show ?thesis
    by (simp add: default_error_reply_def)
qed

definition sample_unknown :: jval where
  "sample_unknown = request_object sample_json (Some 9) ''nope''"

theorem unknown_command_refused_witness:
  "fst (cmd_dispatcher_handle_conn sample_json 5
     \<lparr>disp_cmds = server_commands sample_json sample_sodium, disp_ctx = ()\<rparr>
     (serving sample_unknown)) = Inl (-1)"
proof -
  let ?run = "cmd_dispatcher_handle_conn sample_json 5
    \<lparr>disp_cmds = server_commands sample_json sample_sodium, disp_ctx = ()\<rparr> (serving sample_unknown)"
  obtain r t where rt: "?run = (r, t)" by (cases ?run)
  have "wire_ok sample_json sample_unknown"
    by (rule sample_wire)
      (simp_all add: sample_unknown_def request_object_def sample_json_def Let_def quote_char_def NUL_def)
  moreover have "valid_request sample_json sample_unknown"
    using own_request_create [OF sample_json_ok, of "Some 9" "''nope''"]
    by (simp add: sample_unknown_def own_request_def)
  moreover have "object_get_ex sample_json sample_unknown ''id'' = Some (JInt 9)"
    "object_get_ex sample_json sample_unknown ''method'' = Some (JStr ''nope'')"
    by (simp_all add: sample_unknown_def request_object_def sample_json_def Let_def)
  moreover have "get_string sample_json (JStr ''nope'') = ''nope''" by (simp add: sample_json_def)
  ultimately have "r = Inl (-1)"
    using unknown_command_refused [OF rt sample_json_ok serving_facts(1) _ _ serving_facts(8)] by simp
  then show ?thesis by (simp add: rt)
qed

section \<open>Commands\<close>

definition sample_ctx :: "unit cmd_conn_ctx" where
  "sample_ctx = \<lparr>ctx_fd = 5, ctx_arg = ()\<rparr>"

text \<open>A queue-run request, when nothing fails, is answered with its id, and the run it names is
  stored as a new run with a fresh id and appended, under this id, to the queue of runs waiting
  for a worker.\<close>

theorem queue_run_stored:
  assumes "server_handle_cmd_queue_run J (queue_run_request J i x) ctx w = ((ret, resp), t)"
    and "jsonc_ok J" "lucky w" "db_ok (sqldb w)" "room (sqldb w)"
  shows "ret = Inr () \<and> resp = Some (default_reply J (new_int64 J i)) \<and>
    (\<exists>n. entries (sqldb t) = entries (sqldb w) @ [created_run n (repo_url x) (repo_rev x)] \<and>
       (\<forall>y \<in> set (entries (sqldb w)). sr_id y < n) \<and> srv_runs t = srv_runs w @ [new_run n x])"
  using queue_run_lucky [OF assms(2-5,1)] db_create_spec [OF assms(4)] by blast

theorem queue_run_stored_witness:
  "\<exists>n > 1. entries (sqldb (snd (server_handle_cmd_queue_run sample_json
       (queue_run_request sample_json 7 sample_run) sample_ctx (serving JNull)))) =
     [created_run 1 ''url'' ''r1'', created_run n ''url'' ''rev'']"
proof -
  let ?run = "server_handle_cmd_queue_run sample_json
    (queue_run_request sample_json 7 sample_run) sample_ctx (serving JNull)"
  obtain ret resp t where rt: "?run = ((ret, resp), t)" by (metis surj_pair)
  from queue_run_stored [OF rt sample_json_ok serving_facts(1,3,5)]
  show ?thesis
    unfolding rt serving_facts(10) by (auto simp: created_run_def sample_run_def)
qed

text \<open>C10: A finished-run notification, when nothing fails, stores the exit code and the output that
  the worker reported under the run's id, leaves every other run alone, and yields no response.\<close>

theorem finished_run_recorded:
  assumes "server_handle_cmd_finished_run J S (finished_run_request J S n out) ctx w = ((ret, resp), t)"
    and "jsonc_ok J" "sodium_ok S" "lucky w" "db_ok (sqldb w)" "in_int32 n" "in_int32 (po_ec out)"
  shows "ret = Inr () \<and> resp = None \<and>
    entries (sqldb t) = finish_in n (po_ec out) (output_bytes out) (entries (sqldb w))"
  using finished_run_lucky [OF assms(2-7,1)] by blast

theorem finished_run_recorded_witness:
  "entries (sqldb (snd (server_handle_cmd_finished_run sample_json sample_sodium
     (finished_run_request sample_json sample_sodium 1
        \<lparr>po_ec = 3, po_data = Some ''out'', po_data_size = 3\<rparr>) sample_ctx (serving JNull)))) =
   [finished_run 3 ''out'' (created_run 1 ''url'' ''r1'')]"
proof -
  let ?o = "\<lparr>po_ec = 3, po_data = Some ''out'', po_data_size = 3\<rparr>"
  let ?run = "server_handle_cmd_finished_run sample_json sample_sodium
    (finished_run_request sample_json sample_sodium 1 ?o) sample_ctx (serving JNull)"
  obtain ret resp t where rt: "?run = ((ret, resp), t)" by (metis surj_pair)
  from finished_run_recorded [OF rt sample_json_ok sample_sodium_ok serving_facts(1,3)]
  show ?thesis
    by (simp add: rt serving_facts(10) in_int32_def finish_in_def created_run_def output_bytes_def)
qed

text \<open>C22: The response to get-runs lists every stored run exactly once, newest first, each with
  its id, exit code, URL and revision, and the database is not changed.\<close>

theorem get_runs_lists_all:
  assumes "server_handle_cmd_get_runs J request ctx w = ((ret, resp), t)"
    and "jsonc_ok J" "lucky w" "db_ok (sqldb w)"
    and "object_get_ex J (req_impl request) ''id'' = Some i"
  shows "sqldb t = sqldb w \<and> (\<exists>p result. resp = Some p \<and> reply_to J i p \<and>
    object_get_ex J (resp_impl p) ''result'' = Some result \<and>
    array_elems J result = map (\<lambda>x. run_object J (listed_run x)) (rev (entries (sqldb w))))"
proof -
  let ?vs = "map (\<lambda>x. run_object J (listed_run x)) (rev (entries (sqldb w)))"
  have "array_elems J (foldl (array_add J) (new_array J) ?vs) = ?vs"
    using array_elems_foldl [OF assms(2), of "new_array J"] assms(2) by (simp add: jsonc_okD)
  with get_runs_lucky [OF assms(3,4,5,1)] reply_to_result show ?thesis
    by (auto simp: response_object_lookup [OF assms(2)])
qed

theorem get_runs_lists_all_witness:
  "\<exists>p result. snd (fst (server_handle_cmd_get_runs sample_json
       \<lparr>req_impl = request_object sample_json (Some 4) ''get-runs''\<rparr> sample_ctx (serving JNull))) = Some p \<and>
     object_get_ex sample_json (resp_impl p) ''result'' = Some result \<and>
     array_elems sample_json result = [JObj [(''id'', JInt 1), (''exit_code'', JInt (-1)),
       (''repo_url'', JStr ''url''), (''repo_rev'', JStr ''r1'')]]"
proof -
  let ?q = "\<lparr>req_impl = request_object sample_json (Some 4) ''get-runs''\<rparr>"
  let ?run = "server_handle_cmd_get_runs sample_json ?q sample_ctx (serving JNull)"
  obtain ret resp t where rt: "?run = ((ret, resp), t)" by (metis surj_pair)
  have i: "object_get_ex sample_json (req_impl ?q) ''id'' = Some (JInt 4)"
    by (simp add: request_object_def sample_json_def Let_def)
  have o: "run_object sample_json (listed_run (created_run 1 ''url'' ''r1'')) =
      JObj [(''id'', JInt 1), (''exit_code'', JInt (-1)), (''repo_url'', JStr ''url''),
        (''repo_rev'', JStr ''r1'')]"
    by (simp add: run_object_def listed_run_def created_run_def sample_json_def int32_id in_int32_def)
  from get_runs_lists_all [OF rt sample_json_ok serving_facts(1,3) i]
  show ?thesis unfolding serving_facts(10) by (auto simp: rt o)
qed

text \<open>C11: Assigning a run takes the first run and the first worker and sends the run to that
  worker only. If the whole message was accepted the run leaves the queue, otherwise it is
  again at its front; when no call fails it is sent. Either way the worker's descriptor is
  closed once, all memory is accounted for, and no step is undefined.\<close>

theorem assign_run_delivers_or_requeues:
  fixes w :: "'z server_world_scheme"
  assumes "srv_runs w = x # xs" "srv_workers w = y # ys"
  shows "\<exists>bs rest. message J (req_impl (start_run_request J x)) = bs @ rest \<and>
    sent (worker_fd y) (trace (server_assign_run J w)) = sent (worker_fd y) (trace w) @ bs \<and>
    (\<forall>d. d \<noteq> worker_fd y \<longrightarrow> sent d (trace (server_assign_run J w)) = sent d (trace w)) \<and>
    srv_runs (server_assign_run J w) = (if rest = [] then xs else x # xs) \<and>
    srv_workers (server_assign_run J w) = ys \<and> (reliable w \<longrightarrow> rest = []) \<and>
    accounts server_holds w (server_assign_run J w) [] [] \<and>
    bal (trace (server_assign_run J w)) (Desc (worker_fd y)) =
      bal (trace w) (Desc (worker_fd y)) - 1"
  using server_assign_run_spec [OF assms] unfolding Let_def by blast

theorem assign_run_delivers_or_requeues_witness:
  "srv_runs (server_assign_run sample_json
     (sample_server\<lparr>srv_runs := [sample_run], srv_workers := [\<lparr>worker_fd = 4\<rparr>]\<rparr>)) = []"
proof -
  let ?w = "sample_server\<lparr>srv_runs := [sample_run], srv_workers := [\<lparr>worker_fd = 4\<rparr>]\<rparr>"
  have "srv_runs ?w = sample_run # []" "srv_workers ?w = \<lparr>worker_fd = 4\<rparr> # []" "reliable ?w"
    by (simp_all add: sample_server_def reliable_def)
  from assign_run_delivers_or_requeues [OF this(1,2), of sample_json] this(3) show ?thesis by auto
qed

section \<open>Messages\<close>

text \<open>What is built, sent whole, received and parsed is what was put in.\<close>

lemma received_and_parsed:
  assumes q: "own_request J q" "wire_ok J (req_impl q)"
    and run: "bindE (jsonrpc_request_recv J fd) parse v = (r, t)"
    and v: "reliable v" "rx v fd = message J (req_impl q) @ rest"
    and parse: "yields (parse q) [] rs y"
  shows "r = Inr y \<and> rx t fd = rest"
proof -
  obtain a u where rec: "jsonrpc_request_recv J fd v = (a, u)" by (cases "jsonrpc_request_recv J fd v")
  note ms = jsonrpc_request_recv_message [OF rec q(2) v(2)]
  from ms(2) [OF v(1)] q(1) have a: "a = Inr q" by (simp add: own_request_def)
  have "reliable u"
    using jsonrpc_request_recv_takes(1) [OF rec message_terminated [OF q(2) v(2)]] v(1)
    by (auto simp: takes_def)
  moreover from run rec a have "parse q u = (r, t)" by (simp add: bindE_def)
  ultimately show ?thesis
    using yieldsD [OF parse] ms(1) [OF a] by (cases r) (force simp: still_def)+
qed

text \<open>A queue-run request built by a client and received whole by the server names the same
  repository and revision, as a run without an id yet.\<close>

theorem queue_run_roundtrip:
  assumes "request_create_queue_run J x w = (Inr q, w')"
    and "bindE (jsonrpc_request_recv J fd) (request_parse_queue_run J) v = (r, t)"
    and "jsonc_ok J" "wire_ok J (req_impl q)" "reliable v" "rx v fd = message J (req_impl q) @ rest"
  shows "r = Inr (new_run (-1) x) \<and> rx t fd = rest \<and>
    rpc_id w' = int32 (rpc_id w + 1)"
proof -
  let ?u = "w\<lparr>rpc_id := int32 (rpc_id w + 1)\<rparr>"
  from assms(1) have "q = queue_run_request J (rpc_id w) x \<and> still ?u w'"
    unfolding request_create_queue_run_def generated_id
    by (auto dest: yieldsD [OF queue_run_request_yields])
  then have q: "q = queue_run_request J (rpc_id w) x" and u: "still ?u w'" by simp_all
  have "r = Inr (new_run (-1) x) \<and> rx t fd = rest"
    using received_and_parsed [OF _ assms(4,2,5,6), of _ "new_run (-1) x"] built_own(1) [OF assms(3)]
      read_queue_run [OF assms(3)] unfolding q new_run_def by blast
  with u show ?thesis by (simp add: still_def)
qed

lemma built_value: "yields f cs rs y \<Longrightarrow> fst (f w) = Inr q \<Longrightarrow> q = y"
  by (cases "f w") (auto dest: yieldsD)

lemma built_whole: "yields f [] [Request, Json] q \<Longrightarrow> reliable w \<Longrightarrow> \<exists>w'. f w = (Inr q, w')"
  by (cases "f w"; cases "fst (f w)") (auto dest: yieldsD)

theorem queue_run_roundtrip_witness:
  "fst (bindE (jsonrpc_request_recv sample_json 5) (request_parse_queue_run sample_json)
     (serving (req_impl (queue_run_request sample_json 1 sample_run)))) = Inr (new_run (-1) sample_run)"
proof -
  let ?q = "queue_run_request sample_json 1 sample_run" and ?w = "sample_server\<lparr>rpc_id := 1\<rparr>"
  let ?run = "bindE (jsonrpc_request_recv sample_json 5) (request_parse_queue_run sample_json)
    (serving (req_impl ?q))"
  obtain w' where c: "request_create_queue_run sample_json sample_run ?w = (Inr ?q, w')"
    using built_whole [OF queue_run_request_yields] sample_server_reliable(1)
    unfolding request_create_queue_run_def generated_id by (fastforce simp: sample_server_def)
  obtain r t where rt: "?run = (r, t)" by (cases ?run)
  have "wire_ok sample_json (req_impl ?q)" by (rule sample_wire) (simp_all add: sample_text)
  from queue_run_roundtrip [OF c rt sample_json_ok this serving_facts(2,8)] show ?thesis by (simp add: rt)
qed

text \<open>A start-run notification built by the server and received whole by a worker carries the
  run's id, repository and revision.\<close>

theorem start_run_roundtrip:
  assumes "request_create_start_run J x w = (Inr q, w')"
    and "bindE (jsonrpc_request_recv J fd) (request_parse_start_run J) v = (r, t)"
    and "jsonc_ok J" "in_int32 (run_id x)"
    and "wire_ok J (req_impl q)" "reliable v" "rx v fd = message J (req_impl q) @ rest"
  shows "r = Inr (new_run (run_id x) x) \<and> rx t fd = rest"
proof -
  from yieldsD [OF start_run_request_yields assms(1)] have q: "q = start_run_request J x" by simp
  show ?thesis
    using received_and_parsed [OF _ assms(5,2,6,7), of _ "new_run (run_id x) x"] built_own(2) [OF assms(3)]
      read_start_run [OF assms(3,4)] unfolding q new_run_def by blast
qed

theorem start_run_roundtrip_witness:
  "fst (bindE (jsonrpc_request_recv sample_json 5) (request_parse_start_run sample_json)
     (serving (req_impl (start_run_request sample_json sample_run)))) = Inr (new_run 1 sample_run)"
proof -
  let ?q = "start_run_request sample_json sample_run"
  let ?run = "bindE (jsonrpc_request_recv sample_json 5) (request_parse_start_run sample_json)
    (serving (req_impl ?q))"
  obtain w' where c: "request_create_start_run sample_json sample_run sample_server = (Inr ?q, w')"
    using built_whole [OF start_run_request_yields sample_server_reliable(2)] by blast
  obtain r t where rt: "?run = (r, t)" by (cases ?run)
  have "wire_ok sample_json (req_impl ?q)" by (rule sample_wire) (simp_all add: sample_text)
  moreover have "run_id sample_run = 1" by (simp add: sample_run_def)
  ultimately show ?thesis
    using start_run_roundtrip [OF c rt sample_json_ok _ _ serving_facts(2,8)]
    by (simp add: rt in_int32_def)
qed

text \<open>C19: A finished-run notification built by a worker and received whole by the server carries the
  run's id, the exit code and every byte of the output, which travels as base64.\<close>

theorem finished_run_roundtrip:
  assumes "request_create_finished_run J S n out w = (Inr q, w')"
    and "bindE (jsonrpc_request_recv J fd) (request_parse_finished_run J S) v = (r, t)"
    and "jsonc_ok J" "sodium_ok S" "in_int32 n" "in_int32 (po_ec out)"
    and "wire_ok J (req_impl q)" "reliable v" "rx v fd = message J (req_impl q) @ rest"
  shows "\<exists>out'. r = Inr (n, out') \<and> po_ec out' = po_ec out \<and> output_bytes out' = output_bytes out \<and>
    rx t fd = rest"
proof -
  from yieldsD [OF finished_run_request_yields assms(1)] have q: "q = finished_run_request J S n out" by simp
  let ?o = "\<lparr>po_ec = po_ec out, po_data = Some (output_bytes out), po_data_size = length (output_bytes out)\<rparr>"
  have "r = Inr (n, ?o) \<and> rx t fd = rest"
    using received_and_parsed [OF _ assms(7,2,8,9), of _ "(n, ?o)"] built_own(3) [OF assms(3)]
      read_finished_run [OF assms(3-6)] unfolding q by blast
  moreover have "output_bytes ?o = output_bytes out" by (simp add: output_bytes_def [of ?o])
  ultimately show ?thesis by (intro exI [of _ ?o]) simp
qed

theorem finished_run_roundtrip_witness:
  "\<exists>out'. fst (bindE (jsonrpc_request_recv sample_json 5) (request_parse_finished_run sample_json sample_sodium)
     (serving (req_impl (finished_run_request sample_json sample_sodium 1
        \<lparr>po_ec = 3, po_data = Some ''out'', po_data_size = 3\<rparr>)))) = Inr (1, out') \<and>
     po_ec out' = 3 \<and> output_bytes out' = ''out''"
proof -
  let ?o = "\<lparr>po_ec = 3, po_data = Some ''out'', po_data_size = 3\<rparr>"
  let ?q = "finished_run_request sample_json sample_sodium 1 ?o"
  let ?run = "bindE (jsonrpc_request_recv sample_json 5)
    (request_parse_finished_run sample_json sample_sodium) (serving (req_impl ?q))"
  obtain w' where
    c: "request_create_finished_run sample_json sample_sodium 1 ?o sample_server = (Inr ?q, w')"
    using built_whole [OF finished_run_request_yields sample_server_reliable(2)] by blast
  obtain r t where rt: "?run = (r, t)" by (cases ?run)
  have wire: "wire_ok sample_json (req_impl ?q)" by (rule sample_wire) (simp_all add: sample_text)
  have "output_bytes ?o = ''out''" by (simp add: output_bytes_def)
  with finished_run_roundtrip [OF c rt sample_json_ok sample_sodium_ok _ _ wire serving_facts(2,8)]
  show ?thesis by (auto simp: rt in_int32_def)
qed



text \<open>C23: Every message the programs build is well formed: queue-run and get-runs are valid requests with an
  id, new-worker, start-run and finished-run are valid notifications, and every response to a valid request
  that has an id, a result, an error or the list of runs, is a valid response with this id.\<close>

theorem messages_well_formed:
  assumes "jsonc_ok J"
  shows "(fst (request_create_queue_run J x w) = Inr q \<or> fst (request_create_get_runs J w) = Inr q \<longrightarrow>
      valid_request J (req_impl q) \<and> \<not> jsonrpc_request_is_notification J q) \<and>
    (fst (request_create_new_worker J w) = Inr q \<or> fst (request_create_start_run J x w) = Inr q \<or>
       fst (request_create_finished_run J S n out w) = Inr q \<longrightarrow>
      valid_request J (req_impl q) \<and> jsonrpc_request_is_notification J q) \<and>
    (valid_request J (req_impl request) \<and> \<not> jsonrpc_request_is_notification J request \<and> in_int64 code \<and>
       (fst (jsonrpc_response_create J request result w) = Inr p \<or> fst (jsonrpc_error_create J request code msg w) = Inr p \<or>
        fst (response_create_get_runs J request runs w) = Inr p) \<longrightarrow>
      valid_response J (resp_impl p) \<and>
      object_get_ex J (resp_impl p) ''id'' = object_get_ex J (req_impl request) ''id'')"
proof (intro conjI impI)
  note own = built_own [OF assms] own_request_create [OF assms]
  note ids = jsonrpc_request_is_notification_def libjson_has_def queue_run_request_def start_run_request_def
    finished_run_request_def built_lookup
  {
    assume "fst (request_create_queue_run J x w) = Inr q \<or> fst (request_create_get_runs J w) = Inr q"
    then have "q = queue_run_request J (rpc_id w) x \<or> q = \<lparr>req_impl = request_object J (Some (rpc_id w)) CMD_GET_RUNS\<rparr>"
      by (auto simp: request_create_queue_run_def request_create_get_runs_def generated_id
          dest!: built_value [OF queue_run_request_yields] built_value [OF jsonrpc_request_create_yields])
    then show "valid_request J (req_impl q)" "\<not> jsonrpc_request_is_notification J q"
      by ((elim disjE; simp add: own [unfolded own_request_def, simplified]), (elim disjE; simp add: ids assms))
  }
  {
    assume "fst (request_create_new_worker J w) = Inr q \<or> fst (request_create_start_run J x w) = Inr q \<or>
      fst (request_create_finished_run J S n out w) = Inr q"
    then have "q = \<lparr>req_impl = request_object J None CMD_NEW_WORKER\<rparr> \<or> q = start_run_request J x \<or>
      q = finished_run_request J S n out"
      by (auto dest!: built_value [OF new_worker_request_yields] built_value [OF start_run_request_yields]
          built_value [OF finished_run_request_yields])
    then show "valid_request J (req_impl q)" "jsonrpc_request_is_notification J q"
      by ((elim disjE; simp add: own [unfolded own_request_def, simplified]), (elim disjE; simp add: ids assms))
  }
  {
    assume *: "valid_request J (req_impl request) \<and> \<not> jsonrpc_request_is_notification J request \<and> in_int64 code \<and>
      (fst (jsonrpc_response_create J request result w) = Inr p \<or> fst (jsonrpc_error_create J request code msg w) = Inr p \<or>
       fst (response_create_get_runs J request runs w) = Inr p)"
    then obtain i where i: "object_get_ex J (req_impl request) ''id'' = Some i" "valid_id J i"
      by (auto simp: jsonrpc_request_is_notification_def libjson_has_def valid_request_def)
    from * have "\<exists>result error. p = \<lparr>resp_impl = response_object J i result error\<rparr> \<and>
      (error = None \<or> (\<exists>e. error = Some e \<and> valid_error J e))"
      using error_object_valid [OF assms, of code msg]
      by (auto simp: jsonrpc_response_create_def
          dest!: built_value [OF jsonrpc_response_create_internal_yields [OF i(1)]] built_value [OF jsonrpc_error_create_yields [OF i(1)]]
            built_value [OF response_create_get_runs_yields [OF i(1)]])
    then show "valid_response J (resp_impl p)"
      "object_get_ex J (resp_impl p) ''id'' = object_get_ex J (req_impl request) ''id''"
      using response_object_valid [OF assms i(2)] i(1) by (auto simp: response_object_lookup [OF assms])
  }
qed

theorem messages_well_formed_witness:
  "valid_request sample_json (req_impl (start_run_request sample_json sample_run))"
proof -
  have "fst (request_create_start_run sample_json sample_run sample_server) = Inr (start_run_request sample_json sample_run)"
    using built_whole [OF start_run_request_yields [of sample_json sample_run] sample_server_reliable(2)] by auto
  with messages_well_formed [OF sample_json_ok] show ?thesis by blast
qed

section \<open>The table of commands\<close>

text \<open>When copying the table of commands fails, the copies made before are not freed: the
  clean-up loop frees the entry that failed instead of the earlier ones, so the name of the
  first command is still held after the dispatcher could not be created.\<close>

theorem command_names_leak:
  "fst (cmd_dispatcher_create (server_commands sample_json sample_sodium) ()
      (sample_server\<lparr>answers := [0, 0, 0, -1]\<rparr>)) = Inl (-1) \<and>
   bal (trace (snd (cmd_dispatcher_create (server_commands sample_json sample_sodium) ()
      (sample_server\<lparr>answers := [0, 0, 0, -1]\<rparr>)))) (Mem ''cmd_name'') = 1"
  by (simp add: cmd_dispatcher_create_def copy_cmds_def copy_cmd_def server_commands_def
      sample_server_def bindE_def onErr_def alloc_def ok_def answer_def used_def emit_def free_cmd_def)

end
